(* ===== verification/VMM_Prelude.thy ===== *)
theory VMM_Prelude
  imports Main "HOL-Library.AList" "HOL-Library.Word" "HOL-Library.Char_ord"
    "HOL-Library.List_Lexorder" "HOL-Library.Sublist" "HOL-Library.Multiset"
begin

text \<open>
  Shared vocabulary of the development: result types for Go's value-and-error
  returns, the parts of Go's standard library the components use (saturating
  \<open>time.Time.Sub\<close>, \<open>encoding/hex\<close>, \<open>strings\<close>, \<open>strconv\<close>),
  association lists for Go maps, reachability of a step relation, and the
  generic lemmas and theorem collections that carry the component proofs.

  A Go string is a sequence of bytes, which is what a HOL \<open>string\<close> is; a Go
  \<open>[]byte\<close> is a list of 8-bit words.  A Go map is an association list with
  distinct keys: its order stands for the iteration order Go leaves open, so a
  lemma for every list is a lemma for every iteration order.
\<close>

section \<open>Types and theorem collections\<close>

type_synonym bytes = "8 word list"
type_synonym duration = int
type_synonym timestamp = int
type_synonym ('k, 'v) gomap = "('k \<times> 'v) list"

named_theorems go_defs \<open>definitions of the Go standard library functions\<close>
named_theorems res_simps \<open>equations of the error monad\<close>
named_theorems inv_intros \<open>preservation of component invariants\<close>

section \<open>Results\<close>

text \<open>\<open>bindE\<close> is the early return \<open>if err != nil { return err }\<close>.\<close>

definition bindE :: "'e + 'a \<Rightarrow> ('a \<Rightarrow> 'e + 'b) \<Rightarrow> 'e + 'b" where
  "bindE r f = (case r of Inl e \<Rightarrow> Inl e | Inr x \<Rightarrow> f x)"

definition guardE :: "bool \<Rightarrow> 'e \<Rightarrow> 'e + unit" where
  "guardE b e = (if b then Inr () else Inl e)"

definition ok_of :: "'e + 'a \<Rightarrow> 'a option" where
  "ok_of r = (case r of Inl _ \<Rightarrow> None | Inr x \<Rightarrow> Some x)"

lemma bindE_simps [simp, res_simps]:
  "bindE (Inl e) f = Inl e" "bindE (Inr x) f = f x"
  by (simp_all add: bindE_def)

lemma bindE_Inr_iff [res_simps]:
  "bindE r f = Inr y \<longleftrightarrow> (\<exists>x. r = Inr x \<and> f x = Inr y)"
  by (cases r) auto

lemma bindE_InrE:
  assumes "bindE r f = Inr y"
  obtains x where "r = Inr x" "f x = Inr y"
  using assms by (auto simp: bindE_Inr_iff)

lemma bindE_Inl_iff:
  "bindE r f = Inl e \<longleftrightarrow> r = Inl e \<or> (\<exists>x. r = Inr x \<and> f x = Inl e)"
  by (cases r) auto

lemma guardE_Inr [simp, res_simps]: "guardE b e = Inr u \<longleftrightarrow> b"
  by (simp add: guardE_def)

lemma guardE_Inl [simp, res_simps]: "guardE b e = Inl e' \<longleftrightarrow> \<not> b \<and> e' = e"
  by (auto simp: guardE_def)

lemma guardE_bool [simp]: "guardE True e = Inr ()" "guardE False e = Inl e"
  by (simp_all add: guardE_def)

lemma bindE_assoc: "bindE (bindE r f) g = bindE r (\<lambda>x. bindE (f x) g)"
  by (cases r) simp_all

section \<open>Loops with early exit\<close>

text \<open>A loop over a list whose body also says whether to go on.\<close>

fun fold_until :: "('a \<Rightarrow> 's \<Rightarrow> bool \<times> 's) \<Rightarrow> 'a list \<Rightarrow> 's \<Rightarrow> 's" where
  "fold_until f [] s = s"
| "fold_until f (x # xs) s = (case f x s of (go, s') \<Rightarrow> if go then fold_until f xs s' else s')"

lemma fold_until_all: "fold_until (\<lambda>x s. (True, g x s)) xs s = fold g xs s"
  by (induction xs arbitrary: s) auto

lemma fold_until_find:
  "fold_until (\<lambda>x s. if P x then (True, s) else (False, Some x)) xs s0 =
   (case List.find (\<lambda>x. \<not> P x) xs of None \<Rightarrow> s0 | Some x \<Rightarrow> Some x)"
  by (induction xs) auto

section \<open>Association lists\<close>

lemma map_of_update [simp]: "map_of (AList.update k v xs) = (map_of xs)(k \<mapsto> v)"
  by (rule update_conv')

lemma map_of_delete [simp]: "map_of (AList.delete k xs) = (map_of xs)(k := None)"
  by (rule delete_conv')

lemma distinct_fst_update [simp, inv_intros]:
  "distinct (map fst xs) \<Longrightarrow> distinct (map fst (AList.update k v xs))"
  by (rule distinct_update)

lemma distinct_fst_delete [simp, inv_intros]:
  "distinct (map fst xs) \<Longrightarrow> distinct (map fst (AList.delete k xs))"
  by (simp add: AList.delete_eq distinct_map_filter)

lemma distinct_fst_filter [simp, inv_intros]:
  "distinct (map fst xs) \<Longrightarrow> distinct (map fst (filter P xs))"
  by (rule distinct_map_filter)

lemma length_delete_mem:
  "distinct (map fst xs) \<Longrightarrow> k \<in> fst ` set xs \<Longrightarrow>
   length (AList.delete k xs) = length xs - 1"
proof (induction xs)
  case (Cons x xs)
  show ?case
  proof (cases "fst x = k")
    case True
    with Cons.prems have "k \<notin> fst ` set xs" by auto
    with True show ?thesis by (cases x) (simp add: delete_idem)
  next
    case False
    with Cons have "length (AList.delete k xs) = length xs - 1" "length xs > 0" by auto
    with False show ?thesis by (cases x) simp
  qed
qed simp

lemma length_delete_lt:
  "k \<in> fst ` set xs \<Longrightarrow> length (AList.delete k xs) < length xs"
  by (force simp: AList.delete_eq intro!: length_filter_less)

lemma length_update_notin:
  "k \<notin> fst ` set xs \<Longrightarrow> length (AList.update k v xs) = Suc (length xs)"
  by (induction xs) auto

lemma length_update_le: "length (AList.update k v xs) \<le> Suc (length xs)"
  by (induction xs) auto

lemma map_of_filter_distinct:
  assumes "distinct (map fst m)"
  shows "map_of (filter Q m) key =
    (case map_of m key of Some val \<Rightarrow> (if Q (key, val) then Some val else None) | None \<Rightarrow> None)"
  using assms by (induction m) (auto simp: map_of_eq_None_iff image_iff split: option.splits)

lemma map_of_map_snd: "map_of (map (\<lambda>(k, v). (k, f v)) xs) k = map_option f (map_of xs k)"
  by (induction xs) auto

lemma map_fst_map_snd: "map fst (map (\<lambda>(k, v). (k, f v)) xs) = map fst xs"
  by (induction xs) auto

lemma distinct_fst_map_snd [inv_intros]:
  "distinct (map fst xs) \<Longrightarrow> distinct (map fst (map (\<lambda>(k, v). (k, f v)) xs))"
  by (simp only: map_fst_map_snd)

lemma set_update_subset: "set (AList.update k v xs) \<subseteq> insert (k, v) (set xs)"
  by (induction xs) auto

lemma map_of_mset_eq:
  assumes "mset xs = mset ys" "distinct (map fst xs)"
  shows "map_of xs = map_of ys" "distinct (map fst ys)"
proof -
  have "mset (map fst xs) = mset (map fst ys)" using assms(1) by simp
  then show d: "distinct (map fst ys)"
    using assms(2) mset_eq_imp_distinct_iff by blast
  show "map_of xs = map_of ys"
    using mset_eq_setD [OF assms(1)] map_of_inject_set [OF assms(2) d] by simp
qed

section \<open>Reachability\<close>

inductive reachable :: "('s \<Rightarrow> bool) \<Rightarrow> ('s \<Rightarrow> 'e \<Rightarrow> 's \<Rightarrow> bool) \<Rightarrow> 'e list \<Rightarrow> 's \<Rightarrow> bool"
  for init step where
  reach_init: "init s \<Longrightarrow> reachable init step [] s"
| reach_step: "reachable init step es s \<Longrightarrow> step s e s' \<Longrightarrow> reachable init step (e # es) s'"

inductive_cases reachable_NilE: "reachable init step [] s"
inductive_cases reachable_ConsE: "reachable init step (e # es) s"

text \<open>Events are listed newest first.\<close>

lemma reachable_invariant:
  assumes "reachable init step es s"
    and "\<And>s. init s \<Longrightarrow> I [] s"
    and "\<And>es s e s'. reachable init step es s \<Longrightarrow> I es s \<Longrightarrow> step s e s' \<Longrightarrow> I (e # es) s'"
  shows "I es s"
  using assms(1) by (induction rule: reachable.induct) (auto intro: assms)

section \<open>Go standard library\<close>

subsection \<open>time\<close>

text \<open>\<open>Time.Sub\<close> saturates at the ends of the 64-bit \<open>Duration\<close>.\<close>

definition maxDuration :: duration where "maxDuration = 2 ^ 63 - 1"
definition minDuration :: duration where "minDuration = - (2 ^ 63)"

definition time_Sub :: "timestamp \<Rightarrow> timestamp \<Rightarrow> duration" where
  "time_Sub t u = max minDuration (min maxDuration (t - u))"

lemma time_Sub_le: "time_Sub t u \<le> d \<Longrightarrow> d < maxDuration \<Longrightarrow> t - u \<le> d"
  by (auto simp: time_Sub_def maxDuration_def minDuration_def)

subsection \<open>encoding/hex\<close>

definition hexdigit :: "nat \<Rightarrow> char" where
  "hexdigit n = ''0123456789abcdef'' ! n"

definition hex_byte :: "8 word \<Rightarrow> string" where
  "hex_byte b = [hexdigit (unat b div 16), hexdigit (unat b mod 16)]"

definition hex_EncodeToString :: "bytes \<Rightarrow> string" where
  "hex_EncodeToString bs = concat (map hex_byte bs)"

definition fromHexChar :: "char \<Rightarrow> nat option" where
  "fromHexChar ch = (let c = of_char ch :: nat in
     if 48 \<le> c \<and> c \<le> 57 then Some (c - 48)
     else if 97 \<le> c \<and> c \<le> 102 then Some (c - 87)
     else if 65 \<le> c \<and> c \<le> 70 then Some (c - 55)
     else None)"

fun hex_DecodeString :: "string \<Rightarrow> bytes option" where
  "hex_DecodeString [] = Some []"
| "hex_DecodeString [c] = None"
| "hex_DecodeString (c # d # cs) =
     (case fromHexChar c of None \<Rightarrow> None
      | Some h \<Rightarrow> (case fromHexChar d of None \<Rightarrow> None
        | Some l \<Rightarrow> (case hex_DecodeString cs of None \<Rightarrow> None
          | Some bs \<Rightarrow> Some (word_of_nat (h * 16 + l) # bs))))"

lemma fromHexChar_hexdigit [simp]: "n < 16 \<Longrightarrow> fromHexChar (hexdigit n) = Some n"
proof -
  have "\<forall>n \<in> set [0..<16]. fromHexChar (hexdigit n) = Some n"
    by code_simp
  then show "n < 16 \<Longrightarrow> fromHexChar (hexdigit n) = Some n"
    by simp
qed

lemma unat_byte_less: "unat (b :: 8 word) < 256"
  using unsigned_less [of b, where ?'a = nat] by simp

lemma hex_roundtrip: "hex_DecodeString (hex_EncodeToString bs) = Some bs"
proof (induction bs)
  case Nil
  show ?case by (simp add: hex_EncodeToString_def)
next
  case (Cons b bs)
  have "unat b div 16 < 16" using unat_byte_less [of b] by simp
  moreover have "unat b div 16 * 16 + unat b mod 16 = unat b" by simp
  ultimately show ?case
    using Cons by (simp add: hex_EncodeToString_def hex_byte_def del: div_mult_mod_eq)
qed

lemma hex_EncodeToString_inject:
  "hex_EncodeToString as = hex_EncodeToString bs \<Longrightarrow> as = bs"
  by (metis hex_roundtrip option.inject)

lemma length_hex_EncodeToString [simp]: "length (hex_EncodeToString bs) = 2 * length bs"
  by (induction bs) (simp_all add: hex_EncodeToString_def hex_byte_def)

end
