(* ===== verification/Go_Strings.thy ===== *)
theory Go_Strings
  imports VMM_Prelude
begin

text \<open>
  The functions of Go's \<open>strings\<close>, \<open>strconv\<close> and \<open>path/filepath\<close> packages
  the components call, on byte strings, with the round trips their callers rely
  on: decimal printing and parsing, splitting and joining.
\<close>

section \<open>Characters\<close>

definition ord :: "char \<Rightarrow> nat" where "ord c = of_char c"

definition is_digit :: "char \<Rightarrow> bool" where "is_digit c \<longleftrightarrow> 48 \<le> ord c \<and> ord c \<le> 57"
definition is_lower :: "char \<Rightarrow> bool" where "is_lower c \<longleftrightarrow> 97 \<le> ord c \<and> ord c \<le> 122"
definition is_upper :: "char \<Rightarrow> bool" where "is_upper c \<longleftrightarrow> 65 \<le> ord c \<and> ord c \<le> 90"

definition digit_char :: "nat \<Rightarrow> char" where "digit_char n = ''0123456789'' ! n"

definition digit_val :: "char \<Rightarrow> nat" where "digit_val c = ord c - 48"

lemma digit_char_props:
  assumes "n < 10"
  shows "is_digit (digit_char n)" "digit_val (digit_char n) = n"
proof -
  have "\<forall>n \<in> set [0..<10]. is_digit (digit_char n) \<and> digit_val (digit_char n) = n" by code_simp
  with assms show "is_digit (digit_char n)" "digit_val (digit_char n) = n" by simp_all
qed

section \<open>strconv\<close>

fun itoa_nat :: "nat \<Rightarrow> string" where
  "itoa_nat n = (if n < 10 then [digit_char n] else itoa_nat (n div 10) @ [digit_char (n mod 10)])"

declare itoa_nat.simps [simp del]

definition Itoa :: "int \<Rightarrow> string" where
  "Itoa i = (if i < 0 then CHR ''-'' # itoa_nat (nat (- i)) else itoa_nat (nat i))"

definition digits_val :: "string \<Rightarrow> nat" where
  "digits_val s = foldl (\<lambda>a c. 10 * a + digit_val c) 0 s"

definition parse_nat :: "string \<Rightarrow> nat option" where
  "parse_nat s = (if s \<noteq> [] \<and> list_all is_digit s then Some (digits_val s) else None)"

text \<open>\<open>Atoi\<close>: an optional sign, then decimal digits, within 64 bits.\<close>

definition Atoi :: "string \<Rightarrow> int option" where
  "Atoi s =
     (let neg = (case s of c # _ \<Rightarrow> c = CHR ''-'' | [] \<Rightarrow> False);
          body = (case s of c # r \<Rightarrow> if c = CHR ''-'' \<or> c = CHR ''+'' then r else s | [] \<Rightarrow> s)
      in case parse_nat body of
           None \<Rightarrow> None
         | Some n \<Rightarrow>
             (let i = (if neg then - int n else int n) in
              if - (2 ^ 63) \<le> i \<and> i < 2 ^ 63 then Some i else None))"

lemma digits_val_snoc [simp]: "digits_val (s @ [c]) = 10 * digits_val s + digit_val c"
  by (simp add: digits_val_def)

lemma itoa_nat_digits: "list_all is_digit (itoa_nat n) \<and> itoa_nat n \<noteq> []"
proof (induction n rule: itoa_nat.induct)
  case (1 n)
  then show ?case by (subst (1 2) itoa_nat.simps) (auto simp: digit_char_props)
qed

lemma digits_val_itoa [simp]: "digits_val (itoa_nat n) = n"
proof (induction n rule: itoa_nat.induct)
  case (1 n)
  show ?case
  proof (cases "n < 10")
    case True
    then show ?thesis by (subst itoa_nat.simps) (simp add: digits_val_def digit_char_props)
  next
    case False
    with 1 show ?thesis by (subst itoa_nat.simps) (simp add: digit_char_props)
  qed
qed

lemma parse_itoa [simp]: "parse_nat (itoa_nat n) = Some n"
  using itoa_nat_digits [of n] by (simp add: parse_nat_def)

lemma itoa_nat_inject [simp]: "itoa_nat m = itoa_nat n \<longleftrightarrow> m = n"
  by (metis digits_val_itoa)

lemma length_itoa_nat_bound: "n < 10 ^ Suc k \<Longrightarrow> length (itoa_nat n) \<le> Suc k"
proof (induction k arbitrary: n)
  case (Suc k)
  then have "n div 10 < 10 ^ Suc k" by (simp add: less_mult_imp_div_less mult.commute)
  with Suc.IH [of "n div 10"] show ?case by (subst itoa_nat.simps) simp
qed (simp add: itoa_nat.simps)

lemma hd_itoa_nat: "0 < n \<Longrightarrow> hd (itoa_nat n) \<noteq> CHR ''0''"
proof (induction n rule: itoa_nat.induct)
  case (1 n)
  have "\<forall>k \<in> set [1..<10]. digit_char k \<noteq> CHR ''0''" by code_simp
  with 1 itoa_nat_digits [of "n div 10"] show ?case
    by (subst itoa_nat.simps) (auto simp: hd_append)
qed

section \<open>strings\<close>

text \<open>\<open>Split\<close>, \<open>Join\<close> and \<open>Cut\<close> with a one-byte separator.\<close>

fun Split :: "char \<Rightarrow> string \<Rightarrow> string list" where
  "Split sep [] = [[]]"
| "Split sep (c # cs) =
     (if c = sep then [] # Split sep cs
      else (case Split sep cs of [] \<Rightarrow> [[c]] | w # ws \<Rightarrow> (c # w) # ws))"

fun Join :: "string \<Rightarrow> string list \<Rightarrow> string" where
  "Join sep [] = []"
| "Join sep [w] = w"
| "Join sep (w # v # ws) = w @ sep @ Join sep (v # ws)"

definition Cut :: "char \<Rightarrow> string \<Rightarrow> string \<times> string \<times> bool" where
  "Cut sep s = (if sep \<in> set s then (takeWhile ((\<noteq>) sep) s, tl (dropWhile ((\<noteq>) sep) s), True)
     else (s, [], False))"

definition LastIndexCut :: "char \<Rightarrow> string \<Rightarrow> (string \<times> string) option" where
  "LastIndexCut sep s =
     (if sep \<in> set s then Some (rev (tl (dropWhile ((\<noteq>) sep) (rev s))), rev (takeWhile ((\<noteq>) sep) (rev s)))
      else None)"

definition TrimPrefix :: "string \<Rightarrow> string \<Rightarrow> string" where
  "TrimPrefix s p = (if prefix p s then drop (length p) s else s)"

definition TrimSuffix :: "string \<Rightarrow> string \<Rightarrow> string" where
  "TrimSuffix s p = (if suffix p s then take (length s - length p) s else s)"

definition Contains :: "string \<Rightarrow> string \<Rightarrow> bool" where
  "Contains s sub \<longleftrightarrow> sublist sub s"

lemma Split_not_Nil [simp]: "Split sep s \<noteq> []"
  by (induction s) (auto split: list.splits)

lemma Split_word: "sep \<notin> set w \<Longrightarrow> Split sep w = [w]"
  by (induction w) auto

lemma Split_append: "sep \<notin> set w \<Longrightarrow> Split sep (w @ sep # s) = w # Split sep s"
  by (induction w) (auto split: list.splits)

lemma Split_Join:
  "ws \<noteq> [] \<Longrightarrow> list_all (\<lambda>w. sep \<notin> set w) ws \<Longrightarrow> Split sep (Join [sep] ws) = ws"
  by (induction "[sep]" ws rule: Join.induct) (auto simp: Split_word Split_append)

lemma Join_push: "Join sep ((c # w) # ws) = c # Join sep (w # ws)"
  by (cases ws) simp_all

lemma Join_Nil_head: "Join sep ([] # w # ws) = sep @ Join sep (w # ws)"
  by simp

lemma Join_Split: "Join [sep] (Split sep s) = s"
proof (induction s)
  case (Cons c cs)
  show ?case
    using Cons by (cases "Split sep cs") (auto simp: Join_push)
qed simp

lemma Split_no_sep: "w \<in> set (Split sep s) \<Longrightarrow> sep \<notin> set w"
  by (induction s arbitrary: w) (auto split: list.splits if_splits)

lemma Cut_append: "sep \<notin> set w \<Longrightarrow> Cut sep (w @ sep # s) = (w, s, True)"
  by (auto simp: Cut_def takeWhile_append dropWhile_append)

lemma Cut_found: "Cut sep s = (a, b, True) \<Longrightarrow> s = a @ sep # b \<and> sep \<notin> set a"
proof -
  assume cut: "Cut sep s = (a, b, True)"
  then have "sep \<in> set s" by (simp add: Cut_def split: if_splits)
  then obtain ys zs where "s = ys @ sep # zs" "sep \<notin> set ys" by (auto dest: split_list_first)
  with cut Cut_append [of sep ys zs] show ?thesis by simp
qed

lemma Cut_missing: "sep \<notin> set s \<Longrightarrow> Cut sep s = (s, [], False)"
  by (simp add: Cut_def)

text \<open>\<open>TrimSpace\<close> takes off the UTF-8 encodings of Unicode's white space.\<close>

definition bytes_str :: "nat list \<Rightarrow> string" where "bytes_str ns = map char_of ns"

definition space_seqs :: "string list" where
  "space_seqs =
     map bytes_str
       ([[9], [10], [11], [12], [13], [32], [0xC2, 0x85], [0xC2, 0xA0], [0xE1, 0x9A, 0x80]] @
        map (\<lambda>b. [0xE2, 0x80, b]) ([0x80..<0x8B] @ [0xA8, 0xA9, 0xAF]) @
        [[0xE2, 0x81, 0x9F], [0xE3, 0x80, 0x80]])"

function strip_leading :: "string list \<Rightarrow> string \<Rightarrow> string" where
  "strip_leading qs s =
     (case List.find (\<lambda>q. q \<noteq> [] \<and> prefix q s) qs of
        None \<Rightarrow> s
      | Some q \<Rightarrow> strip_leading qs (drop (length q) s))"
  by pat_completeness auto

termination
  by (relation "measure (\<lambda>(qs, s). length s)") (auto simp: find_Some_iff prefix_def)

declare strip_leading.simps [simp del]

definition TrimSpace :: "string \<Rightarrow> string" where
  "TrimSpace s = rev (strip_leading (map rev space_seqs) (rev (strip_leading space_seqs s)))"

lemma strip_leading_id:
  assumes "\<forall>q \<in> set qs. q \<noteq> [] \<longrightarrow> \<not> prefix q s"
  shows "strip_leading qs s = s"
  using assms by (subst strip_leading.simps) (auto split: option.splits simp: find_Some_iff)

lemma strip_leading_step:
  assumes "List.find (\<lambda>q. q \<noteq> [] \<and> prefix q s) qs = Some q"
  shows "strip_leading qs s = strip_leading qs (drop (length q) s)"
  using assms by (subst strip_leading.simps) simp

lemma space_seqs_hd: "q \<in> set space_seqs \<union> rev ` set space_seqs \<Longrightarrow> q \<noteq> [] \<and> \<not> is_digit (hd q)"
proof -
  have "list_all (\<lambda>q. q \<noteq> [] \<and> \<not> is_digit (hd q)) (space_seqs @ map rev space_seqs)" by code_simp
  then show "q \<in> set space_seqs \<union> rev ` set space_seqs \<Longrightarrow> q \<noteq> [] \<and> \<not> is_digit (hd q)"
    by (auto simp: list_all_iff)
qed

lemma strip_leading_digit:
  assumes "s \<noteq> []" "is_digit (hd s)" "set qs \<subseteq> set space_seqs \<union> rev ` set space_seqs"
  shows "strip_leading qs s = s"
proof (rule strip_leading_id, intro ballI impI)
  fix q
  assume "q \<in> set qs" "q \<noteq> []"
  with assms(3) space_seqs_hd [of q] have "\<not> is_digit (hd q)" by blast
  with assms(1, 2) \<open>q \<noteq> []\<close> show "\<not> prefix q s" by (auto simp: prefix_def)
qed

lemma TrimSpace_line:
  assumes "w \<noteq> []" "is_digit (hd w)" "is_digit (last w)"
  shows "TrimSpace (w @ [CHR 0x0A]) = w"
proof -
  have lead: "strip_leading space_seqs (w @ [CHR 0x0A]) = w @ [CHR 0x0A]"
    using assms by (intro strip_leading_digit) auto
  have nl: "map rev space_seqs = [CHR 0x09] # [CHR 0x0A] # drop 2 (map rev space_seqs)" by code_simp
  have "List.find (\<lambda>q. q \<noteq> [] \<and> prefix q (CHR 0x0A # rev w)) (map rev space_seqs) = Some [CHR 0x0A]"
    by (subst nl) simp
  then have "strip_leading (map rev space_seqs) (CHR 0x0A # rev w) = strip_leading (map rev space_seqs) (rev w)"
    by (subst strip_leading_step, assumption) (simp only: list.size drop_Suc_Cons drop_0 One_nat_def add_0)
  also have "\<dots> = rev w"
    using assms by (intro strip_leading_digit) (auto simp: hd_rev)
  finally show ?thesis by (simp add: TrimSpace_def lead)
qed

section \<open>path/filepath\<close>

text \<open>
  \<open>Clean\<close> on slash-separated components: empty and dot components go, a
  dot-dot takes the component before it unless that is a dot-dot itself, and
  disappears at the root.
\<close>

fun clean_comps :: "bool \<Rightarrow> string list \<Rightarrow> string list \<Rightarrow> string list" where
  "clean_comps rooted out [] = rev out"
| "clean_comps rooted out (c # cs) =
     (if c = [] \<or> c = ''.'' then clean_comps rooted out cs
      else if c = ''..'' then
        (case out of
           [] \<Rightarrow> clean_comps rooted (if rooted then [] else [c]) cs
         | d # ds \<Rightarrow> if d = ''..'' then clean_comps rooted (c # out) cs else clean_comps rooted ds cs)
      else clean_comps rooted (c # out) cs)"

definition Clean :: "string \<Rightarrow> string" where
  "Clean p =
     (let rooted = (case p of c # _ \<Rightarrow> c = CHR ''/'' | [] \<Rightarrow> False);
          body = Join ''/'' (clean_comps rooted [] (Split (CHR ''/'') p))
      in if rooted then CHR ''/'' # body else if body = [] then ''.'' else body)"

definition filepath_Join :: "string list \<Rightarrow> string" where
  "filepath_Join elems =
     (case dropWhile ((=) []) elems of [] \<Rightarrow> [] | es \<Rightarrow> Clean (Join ''/'' es))"

end
