(* ===== verification/Go_Netip.thy ===== *)
theory Go_Netip
  imports Go_Strings
begin

text \<open>
  The part of Go's \<open>net/netip\<close> and \<open>hash/fnv\<close> the network code uses: IPv4
  addresses as 32-bit words, prefixes, their text forms, and the FNV-1a hash.
  The text of an IPv6 address is kept unparsed: every caller rejects such an
  address with the error it gives to malformed text.
\<close>

unbundle bit_operations_syntax

section \<open>Addresses\<close>

type_synonym ipv4 = "32 word"

datatype netaddr = V4 ipv4 | V6 string

definition As4 :: "ipv4 \<Rightarrow> bytes" where
  "As4 ip = [ucast (drop_bit 24 ip), ucast (drop_bit 16 ip), ucast (drop_bit 8 ip), ucast ip]"

fun AddrFrom4 :: "bytes \<Rightarrow> ipv4" where
  "AddrFrom4 [a, b, c, d] =
     push_bit 24 (ucast a) OR push_bit 16 (ucast b) OR push_bit 8 (ucast c) OR ucast d"
| "AddrFrom4 _ = 0"

definition Addr_String :: "ipv4 \<Rightarrow> string" where
  "Addr_String ip = Join ''.'' (map (\<lambda>b. itoa_nat (unat b)) (As4 ip))"

definition parse_octet :: "string \<Rightarrow> 8 word option" where
  "parse_octet s =
     (case parse_nat s of
        None \<Rightarrow> None
      | Some n \<Rightarrow> if (length s > 1 \<and> hd s = CHR ''0'') \<or> n > 255 then None else Some (word_of_nat n))"

definition parseIPv4 :: "string \<Rightarrow> ipv4 option" where
  "parseIPv4 s =
     (case map parse_octet (Split (CHR ''.'') s) of
        [Some a, Some b, Some c, Some d] \<Rightarrow> Some (AddrFrom4 [a, b, c, d])
      | _ \<Rightarrow> None)"

text \<open>The first dot, colon or percent sign decides the kind of the address.\<close>

definition ParseAddr :: "string \<Rightarrow> netaddr option" where
  "ParseAddr s =
     (case dropWhile (\<lambda>c. c \<notin> {CHR ''.'', CHR '':'', CHR ''%''}) s of
        [] \<Rightarrow> None
      | c # _ \<Rightarrow>
          if c = CHR ''.'' then map_option V4 (parseIPv4 s)
          else if c = CHR '':'' then Some (V6 s) else None)"

lemma As4_length [simp]: "length (As4 ip) = 4"
  by (simp add: As4_def)

lemma AddrFrom4_As4 [simp]: "AddrFrom4 (As4 ip) = ip"
proof (rule bit_word_eqI)
  fix n assume "n < LENGTH(32)"
  then show "bit (AddrFrom4 (As4 ip)) n = bit ip n"
    by (cases "n < 8"; cases "n < 16"; cases "n < 24")
      (auto simp: As4_def bit_or_iff bit_push_bit_iff bit_ucast_iff bit_drop_bit_eq)
qed

lemma As4_inject: "As4 x = As4 y \<Longrightarrow> x = y"
  by (metis AddrFrom4_As4)

lemma parse_octet_itoa [simp]: "parse_octet (itoa_nat (unat b)) = Some b"
proof -
  have "unat b > 0 \<or> length (itoa_nat (unat b)) = 1"
    by (cases "unat b = 0") (simp_all add: itoa_nat.simps)
  then show ?thesis
    using hd_itoa_nat [of "unat b"] unat_byte_less [of b] by (auto simp: parse_octet_def)
qed

lemma dot_not_digit: "list_all is_digit s \<Longrightarrow> c \<in> {CHR ''.'', CHR '':'', CHR ''%'', CHR ''/''} \<Longrightarrow> c \<notin> set s"
  by (auto simp: list_all_iff is_digit_def ord_def)

lemma itoa_nat_no_dot: "CHR ''.'' \<notin> set (itoa_nat n)" "CHR ''/'' \<notin> set (itoa_nat n)"
  using itoa_nat_digits [of n] dot_not_digit by blast+

lemma Split_Addr_String:
  "Split (CHR ''.'') (Addr_String ip) = map (\<lambda>b. itoa_nat (unat b)) (As4 ip)"
  unfolding Addr_String_def
  by (rule Split_Join) (simp_all add: As4_def itoa_nat_no_dot)

lemma parseIPv4_String [simp]: "parseIPv4 (Addr_String ip) = Some ip"
proof -
  have "map parse_octet (Split (CHR ''.'') (Addr_String ip)) = map Some (As4 ip)"
    by (simp add: Split_Addr_String)
  moreover obtain a b c d where "As4 ip = [a, b, c, d]" by (simp add: As4_def)
  ultimately show ?thesis
    using AddrFrom4_As4 [of ip] by (simp add: parseIPv4_def)
qed

lemma ParseAddr_String [simp]: "ParseAddr (Addr_String ip) = Some (V4 ip)"
proof -
  obtain a rest where as: "As4 ip = a # rest" "rest \<noteq> []" by (simp add: As4_def)
  then obtain tail where s: "Addr_String ip = itoa_nat (unat a) @ CHR ''.'' # tail"
    by (cases rest) (auto simp: Addr_String_def)
  have "dropWhile (\<lambda>c. c \<notin> {CHR ''.'', CHR '':'', CHR ''%''}) (Addr_String ip) = CHR ''.'' # tail"
    unfolding s using itoa_nat_digits [of "unat a"] dot_not_digit [of "itoa_nat (unat a)"]
    by (subst dropWhile_append2) auto
  then show ?thesis by (simp add: ParseAddr_def)
qed

lemma Addr_String_inject: "Addr_String x = Addr_String y \<longleftrightarrow> x = y"
  by (metis parseIPv4_String option.inject)

section \<open>Prefixes\<close>

record ipprefix =
  pfx_addr :: ipv4
  pfx_bits :: nat

abbreviation host_bits :: "ipprefix \<Rightarrow> nat" where
  "host_bits p \<equiv> 32 - pfx_bits p"

datatype netprefix = P4 ipprefix | P6 string

definition ParsePrefix :: "string \<Rightarrow> netprefix option" where
  "ParsePrefix s =
     (case LastIndexCut (CHR ''/'') s of
        None \<Rightarrow> None
      | Some (a, b) \<Rightarrow>
          (case ParseAddr a of
             None \<Rightarrow> None
           | Some (V6 t) \<Rightarrow> Some (P6 s)
           | Some (V4 ip) \<Rightarrow>
               if length b > 1 \<and> \<not> (CHR ''1'' \<le> hd b \<and> hd b \<le> CHR ''9'') then None
               else (case Atoi b of
                       None \<Rightarrow> None
                     | Some n \<Rightarrow> if n < 0 \<or> n > 32 then None
                         else Some (P4 \<lparr>pfx_addr = ip, pfx_bits = nat n\<rparr>))))"

definition Prefix_Masked :: "ipprefix \<Rightarrow> ipprefix" where
  "Prefix_Masked p = p\<lparr>pfx_addr := pfx_addr p AND NOT (mask (host_bits p))\<rparr>"

definition Prefix_Contains :: "ipprefix \<Rightarrow> ipv4 \<Rightarrow> bool" where
  "Prefix_Contains p ip \<longleftrightarrow> drop_bit (host_bits p) (ip XOR pfx_addr p) = 0"

definition Prefix_Overlaps :: "ipprefix \<Rightarrow> ipprefix \<Rightarrow> bool" where
  "Prefix_Overlaps p q \<longleftrightarrow>
     (let b = min (pfx_bits p) (pfx_bits q)
      in pfx_addr p AND NOT (mask (32 - b)) = pfx_addr q AND NOT (mask (32 - b)))"

definition Prefix_String :: "ipprefix \<Rightarrow> string" where
  "Prefix_String p = Addr_String (pfx_addr p) @ ''/'' @ itoa_nat (pfx_bits p)"

definition CIDRMask :: "nat \<Rightarrow> bytes" where
  "CIDRMask bits = As4 (NOT (mask (32 - bits)))"

subsection \<open>Prefixes as intervals\<close>

lemma xor_eq_0 [simp]: "(a :: 'a::len word) XOR b = 0 \<longleftrightarrow> a = b"
proof
  assume "a XOR b = 0"
  then have "(a XOR b) XOR b = b" by (simp only: xor.left_neutral)
  then show "a = b" by (simp only: xor.assoc bit.xor_self xor.right_neutral)
qed simp

lemma Prefix_Contains_div:
  "Prefix_Contains p ip \<longleftrightarrow>
   unat ip div 2 ^ host_bits p = unat (pfx_addr p) div 2 ^ host_bits p"
proof -
  have "Prefix_Contains p ip \<longleftrightarrow> drop_bit (host_bits p) ip = drop_bit (host_bits p) (pfx_addr p)"
    by (simp add: Prefix_Contains_def drop_bit_xor)
  also have "\<dots> \<longleftrightarrow> unat (drop_bit (host_bits p) ip) = unat (drop_bit (host_bits p) (pfx_addr p))"
    by (simp add: word_unat_eq_iff)
  also have "\<dots> \<longleftrightarrow> unat ip div 2 ^ host_bits p = unat (pfx_addr p) div 2 ^ host_bits p"
    by (simp only: unat_drop_bit_eq) (simp only: drop_bit_eq_div)
  finally show ?thesis .
qed

lemma unat_ipv4_less: "unat (ip :: ipv4) < 2 ^ 32"
  using unsigned_less [of ip, where ?'a = nat] by simp

lemma unat_and_not_mask: "unat ((ip :: ipv4) AND NOT (mask k)) = 2 ^ k * (unat ip div 2 ^ k)"
proof -
  have "ip AND NOT (mask k) = push_bit k (drop_bit k ip)"
    by (rule bit_word_eqI) (auto simp: bit_simps)
  then have "unat (ip AND NOT (mask k)) = take_bit 32 (push_bit k (drop_bit k (unat ip)))"
    by (simp add: unsigned_push_bit_eq unat_drop_bit_eq)
  also have "\<dots> = (2 ^ k * (unat ip div 2 ^ k)) mod 2 ^ 32"
    by (simp add: take_bit_eq_mod push_bit_eq_mult drop_bit_eq_div mult.commute)
  also have "\<dots> = 2 ^ k * (unat ip div 2 ^ k)"
    using unat_ipv4_less [of ip] times_div_less_eq_dividend [of "2 ^ k" "unat ip"]
    by (intro mod_less) linarith
  finally show ?thesis .
qed

lemma unat_or_mask:
  assumes "2 ^ k dvd unat (ip :: ipv4)" "k \<le> 32"
  shows "unat (ip OR mask k) = unat ip + (2 ^ k - 1)"
proof -
  have "unat ip AND mask k = 0"
    using assms(1) by (simp add: take_bit_eq_mod flip: take_bit_eq_mask)
  moreover have "unat (mask k :: ipv4) = mask k"
    using assms(2) uint_mask_eq [of k, where ?'a = 32]
    by (simp add: min_def nat_mask_eq flip: nat_uint_eq)
  ultimately show ?thesis
    by (simp add: unsigned_or_eq disjunctive_add_eq_or [symmetric] mask_eq_exp_minus_1)
qed

end
