(* ===== verification/Go_Http.thy ===== *)
theory Go_Http
  imports Go_Netip
begin

text \<open>
  The part of Go's \<open>net/http\<close>, \<open>net/url\<close>, \<open>io/fs\<close> and \<open>unicode/utf8\<close> the HTTP
  services use: requests and answers, the routing of \<open>ServeMux\<close> (literal segments
  before wildcards, redirects to the clean path and to a trailing slash, 405 when
  only the method does not match), the client address of a connection, and the
  paths a file system accepts.
\<close>

section \<open>Requests and answers\<close>

text \<open>\<open>hq_path\<close> is the escaped path of the request's URL.\<close>

record http_request =
  hq_method :: string
  hq_path :: string
  hq_remoteAddr :: string
  hq_body :: bytes

record 'b http_response =
  rs_status :: nat
  rs_header :: "(string, string) gomap"
  rs_body :: 'b

text \<open>What a mux answers: the response of a handler or one of its own.\<close>

datatype 'b http_answer =
    Response "'b http_response"
  | Redirect_To string
  | Method_Not_Allowed "string list"
  | Page_Not_Found

definition MethodGet :: string where "MethodGet = ''GET''"
definition MethodHead :: string where "MethodHead = ''HEAD''"
definition MethodPost :: string where "MethodPost = ''POST''"

lemmas method_defs = MethodGet_def MethodHead_def MethodPost_def

definition bytes_string :: "bytes \<Rightarrow> string" where
  "bytes_string = map (\<lambda>b. char_of (unat b))"

lemma bytes_string_inject: "bytes_string xs = bytes_string ys \<longleftrightarrow> xs = ys"
proof
  have "inj (\<lambda>b :: 8 word. char_of (unat b) :: char)"
  proof (rule injI)
    fix x y :: "8 word"
    assume "(char_of (unat x) :: char) = char_of (unat y)"
    then have "of_char (char_of (unat x) :: char) = (of_char (char_of (unat y) :: char) :: nat)" by simp
    then have "unat x = unat y"
      using unat_byte_less [of x] unat_byte_less [of y] by (simp add: of_char_of)
    then show "x = y" by (simp add: word_unat_eq_iff)
  qed
  then show "bytes_string xs = bytes_string ys \<Longrightarrow> xs = ys"
    unfolding bytes_string_def by (simp add: inj_map_eq_map)
qed simp

lemma length_bytes_string [simp]: "length (bytes_string b) = length b"
  by (simp add: bytes_string_def)

section \<open>Paths\<close>

text \<open>\<open>PathUnescape\<close>; a text with a bad escape stays as it is.\<close>

fun unescape :: "string \<Rightarrow> string option" where
  "unescape [] = Some []"
| "unescape (c # cs) =
     (if c = CHR ''%'' then
        (case cs of
           h # l # rest \<Rightarrow>
             (case (fromHexChar h, fromHexChar l) of
                (Some a, Some b) \<Rightarrow> map_option ((#) (char_of (16 * a + b))) (unescape rest)
              | _ \<Rightarrow> None)
         | _ \<Rightarrow> None)
      else map_option ((#) c) (unescape cs))"

definition pathUnescape :: "string \<Rightarrow> string" where
  "pathUnescape s = (case unescape s of None \<Rightarrow> s | Some t \<Rightarrow> t)"

definition cleanPath :: "string \<Rightarrow> string" where
  "cleanPath p =
     (if p = [] then ''/''
      else
        let p1 = (if hd p = CHR ''/'' then p else CHR ''/'' # p); np = Clean p1
        in if last p1 = CHR ''/'' \<and> np \<noteq> ''/'' then np @ ''/'' else np)"

text \<open>The segments of a clean path; a trailing slash is the segment \<open>/\<close>.\<close>

definition path_segs :: "string \<Rightarrow> string list" where
  "path_segs p =
     (let cs = tl (Split (CHR ''/'') p) in
      if cs = [] then []
      else map pathUnescape (butlast cs) @ [if last cs = [] then ''/'' else pathUnescape (last cs)])"

section \<open>ServeMux\<close>

datatype segment = Lit string | Wild string

text \<open>A pattern's path; \<open>{$}\<close> stands for the trailing slash itself.\<close>

definition parse_segment :: "string \<Rightarrow> segment" where
  "parse_segment s =
     (if s = ''{$}'' then Lit ''/''
      else if s \<noteq> [] \<and> hd s = CHR ''{'' \<and> last s = CHR ''}'' then Wild (butlast (tl s))
      else Lit s)"

definition parsePattern :: "string \<Rightarrow> segment list" where
  "parsePattern p = map parse_segment (tl (Split (CHR ''/'') p))"

record 'h route =
  rt_method :: string
  rt_segs :: "segment list"
  rt_handler :: 'h

text \<open>The values of the wildcards come back with the route, in order.\<close>

definition lit_children :: "string \<Rightarrow> ('h \<times> segment list) list \<Rightarrow> ('h \<times> segment list) list" where
  "lit_children s ps = List.map_filter (\<lambda>(r, qs). case qs of Lit l # qs' \<Rightarrow> if l = s then Some (r, qs') else None | _ \<Rightarrow> None) ps"

definition wild_children :: "('h \<times> segment list) list \<Rightarrow> ('h \<times> segment list) list" where
  "wild_children ps = List.map_filter (\<lambda>(r, qs). case qs of Wild _ # qs' \<Rightarrow> Some (r, qs') | _ \<Rightarrow> None) ps"

fun matchPath :: "('h \<times> segment list) list \<Rightarrow> string list \<Rightarrow> ('h \<times> string list) option" where
  "matchPath ps [] = map_option (\<lambda>p. (fst p, [])) (List.find (\<lambda>p. snd p = []) ps)"
| "matchPath ps (s # ss) =
     (case matchPath (lit_children s ps) ss of
        Some m \<Rightarrow> Some m
      | None \<Rightarrow>
          if s = ''/'' then None
          else map_option (\<lambda>(r, vs). (r, s # vs)) (matchPath (wild_children ps) ss))"

definition match_with :: "'h route list \<Rightarrow> string \<Rightarrow> string \<Rightarrow> ('h route \<times> string list) option" where
  "match_with rts meth path = matchPath [(r, rt_segs r). r \<leftarrow> rts, rt_method r = meth] (path_segs path)"

definition mux_match :: "'h route list \<Rightarrow> string \<Rightarrow> string \<Rightarrow> ('h route \<times> string list) option" where
  "mux_match rts meth path =
     (case match_with rts meth path of
        Some m \<Rightarrow> Some m
      | None \<Rightarrow> if meth = MethodHead then match_with rts MethodGet path else None)"

text \<open>
  No pattern here ends in a subtree, so every match is exact.  Without a match
  and without a trailing slash the mux tries the path with one.
\<close>

datatype 'h mux_result = Matched 'h "string list" | Moved string | Disallowed "string list" | NoMatch

definition matchingMethods :: "'h route list \<Rightarrow> string \<Rightarrow> string list" where
  "matchingMethods rts path =
     (let ms = filter (\<lambda>m. match_with rts m path \<noteq> None \<or> match_with rts m (path @ ''/'') \<noteq> None)
                 (map rt_method rts)
      in sort (remdups (if MethodGet \<in> set ms then MethodHead # ms else ms)))"

definition ServeMux :: "'h route list \<Rightarrow> string \<Rightarrow> string \<Rightarrow> 'h mux_result" where
  "ServeMux rts meth escaped =
     (let path = cleanPath escaped; found = mux_match rts meth path in
      if found = None \<and> last path \<noteq> CHR ''/'' \<and> mux_match rts meth (path @ ''/'') \<noteq> None then Moved (path @ ''/'')
      else if path \<noteq> escaped then Moved path
      else
        (case found of
           Some (r, vs) \<Rightarrow> Matched (rt_handler r) vs
         | None \<Rightarrow> (let ms = matchingMethods rts path in if ms = [] then NoMatch else Disallowed ms)))"

subsection \<open>What a match means\<close>

fun seg_ok :: "segment \<Rightarrow> string \<Rightarrow> bool" where
  "seg_ok (Lit l) s \<longleftrightarrow> s = l"
| "seg_ok (Wild _) s \<longleftrightarrow> s \<noteq> ''/''"

definition wild_values :: "segment list \<Rightarrow> string list \<Rightarrow> string list" where
  "wild_values qs ss = [s. (q, s) \<leftarrow> zip qs ss, (case q of Wild _ \<Rightarrow> True | Lit _ \<Rightarrow> False)]"

lemma wild_values_simps [simp]:
  "wild_values [] ss = []"
  "wild_values (Lit l # qs) (s # ss) = wild_values qs ss"
  "wild_values (Wild w # qs) (s # ss) = s # wild_values qs ss"
  by (simp_all add: wild_values_def)

lemma lit_children_iff: "(r, qs) \<in> set (lit_children s ps) \<longleftrightarrow> (r, Lit s # qs) \<in> set ps"
  by (induction ps) (auto simp: lit_children_def map_filter_simps split: list.splits segment.splits if_splits)

lemma wild_children_iff: "(r, qs) \<in> set (wild_children ps) \<longleftrightarrow> (\<exists>w. (r, Wild w # qs) \<in> set ps)"
  by (induction ps) (auto simp: wild_children_def map_filter_simps split: list.splits segment.splits)

lemma matchPath_sound:
  "matchPath ps ss = Some (r, vs) \<Longrightarrow>
   \<exists>qs. (r, qs) \<in> set ps \<and> list_all2 seg_ok qs ss \<and> vs = wild_values qs ss"
proof (induction ps ss arbitrary: r vs rule: matchPath.induct)
  case (1 ps)
  then obtain p where p: "List.find (\<lambda>p. snd p = []) ps = Some p" "r = fst p" "vs = []" by auto
  then have "p \<in> set ps" "snd p = []" by (auto simp: find_Some_iff)
  with p show ?case by (intro exI [of _ "[]"]) (cases p; simp)
next
  case (2 ps s ss)
  show ?case
  proof (cases "matchPath (lit_children s ps) ss")
    case (Some m)
    with 2(3) have "matchPath (lit_children s ps) ss = Some (r, vs)" by simp
    from 2(1) [OF this] obtain qs where
      "(r, qs) \<in> set (lit_children s ps)" "list_all2 seg_ok qs ss" "vs = wild_values qs ss" by blast
    then show ?thesis by (intro exI [of _ "Lit s # qs"]) (simp add: lit_children_iff)
  next
    case None
    with 2(3) obtain ws where "s \<noteq> ''/''" "vs = s # ws" and m: "matchPath (wild_children ps) ss = Some (r, ws)"
      by (auto split: if_splits)
    from 2(2) [OF None \<open>s \<noteq> ''/''\<close> m] obtain qs w where
      "(r, Wild w # qs) \<in> set ps" "list_all2 seg_ok qs ss" "ws = wild_values qs ss"
      by (auto simp: wild_children_iff)
    with \<open>s \<noteq> ''/''\<close> \<open>vs = s # ws\<close> show ?thesis by (intro exI [of _ "Wild w # qs"]) simp
  qed
qed

lemma matchPath_complete:
  "(r, qs) \<in> set ps \<Longrightarrow> list_all2 seg_ok qs ss \<Longrightarrow> matchPath ps ss \<noteq> None"
proof (induction ps ss arbitrary: qs rule: matchPath.induct)
  case (1 ps)
  then show ?case by (auto simp: find_None_iff)
next
  case (2 ps s ss)
  from 2(4) obtain q qs' where qs: "qs = q # qs'" "seg_ok q s" "list_all2 seg_ok qs' ss"
    by (auto simp: list_all2_Cons2)
  show ?case
  proof (cases "matchPath (lit_children s ps) ss")
    case None
    show ?thesis
    proof (cases q)
      case (Lit l)
      with qs 2(3) have "(r, qs') \<in> set (lit_children s ps)" by (simp add: lit_children_iff)
      from 2(1) [OF this qs(3)] show ?thesis by auto
    next
      case (Wild w)
      with qs 2(3) have "(r, qs') \<in> set (wild_children ps)" by (auto simp: wild_children_iff)
      from 2(2) [OF None _ this qs(3)] Wild qs(2) None show ?thesis by auto
    qed
  qed simp
qed

lemma ServeMux_matched:
  assumes "ServeMux rts meth path = Matched h vs"
  obtains r where "r \<in> set rts" "rt_handler r = h" "list_all2 seg_ok (rt_segs r) (path_segs path)"
    "vs = wild_values (rt_segs r) (path_segs path)" "cleanPath path = path"
    "rt_method r = meth \<or> meth = MethodHead \<and> rt_method r = MethodGet"
proof -
  from assms obtain r where m: "mux_match rts meth path = Some (r, vs)" "rt_handler r = h" "cleanPath path = path"
    by (auto simp: ServeMux_def Let_def split: if_splits option.splits)
  then obtain me where "match_with rts me path = Some (r, vs)" "me = meth \<or> meth = MethodHead \<and> me = MethodGet"
    by (auto simp: mux_match_def split: if_splits option.splits)
  from matchPath_sound [OF this(1) [unfolded match_with_def]] this(2) m(2, 3) show thesis
    by (intro that [of r]) auto
qed

section \<open>Client addresses\<close>

definition parse_hextet :: "string \<Rightarrow> nat option" where
  "parse_hextet s =
     (if s = [] \<or> length s > 4 \<or> list_ex (\<lambda>c. fromHexChar c = None) s then None
      else Some (foldl (\<lambda>a c. 16 * a + the (fromHexChar c)) 0 s))"

text \<open>The groups of a part of an IPv6 address; its last group may be an IPv4 address.\<close>

fun parse_groups :: "string list \<Rightarrow> nat list option" where
  "parse_groups [] = Some []"
| "parse_groups (g # gs) =
     (if gs = [] \<and> CHR ''.'' \<in> set g then
        map_option (\<lambda>ip. [unat ip div 2 ^ 16, unat ip mod 2 ^ 16]) (parseIPv4 g)
      else
        (case parse_hextet g of
           None \<Rightarrow> None
         | Some n \<Rightarrow> map_option ((#) n) (parse_groups gs)))"

fun cut_ellipsis :: "string \<Rightarrow> (string \<times> string) option" where
  "cut_ellipsis (a # b # s) =
     (if a = CHR '':'' \<and> b = CHR '':'' then Some ([], s)
      else map_option (\<lambda>(l, r). (a # l, r)) (cut_ellipsis (b # s)))"
| "cut_ellipsis _ = None"

definition part_groups :: "string \<Rightarrow> nat list option" where
  "part_groups s = (if s = [] then Some [] else parse_groups (Split (CHR '':'') s))"

text \<open>The eight groups of an address without a zone.\<close>

definition parseIPv6 :: "string \<Rightarrow> nat list option" where
  "parseIPv6 s =
     (case cut_ellipsis s of
        None \<Rightarrow> (case part_groups s of Some gs \<Rightarrow> if length gs = 8 then Some gs else None | None \<Rightarrow> None)
      | Some (l, r) \<Rightarrow>
          if CHR ''.'' \<in> set l then None
          else
          (case (part_groups l, part_groups r) of
             (Some a, Some b) \<Rightarrow>
               if length a + length b < 8 then Some (a @ replicate (8 - length a - length b) 0 @ b) else None
           | _ \<Rightarrow> None))"

text \<open>\<open>Unmap\<close>: the IPv4 address in an IPv4-mapped IPv6 address.\<close>

definition Unmap :: "netaddr \<Rightarrow> netaddr option" where
  "Unmap a =
     (case a of
        V4 ip \<Rightarrow> Some (V4 ip)
      | V6 s \<Rightarrow>
          let (t, zone, zoned) = Cut (CHR ''%'') s in
          (case parseIPv6 t of
             None \<Rightarrow> None
           | Some gs \<Rightarrow>
               if zoned then (if zone = [] then None else Some (V6 s))
               else if take 6 gs = [0, 0, 0, 0, 0, 0xFFFF]
               then Some (V4 (word_of_nat (2 ^ 16 * gs ! 6 + gs ! 7))) else Some (V6 s)))"

text \<open>\<open>ParseAddrPort\<close>, the address only.\<close>

definition ParseAddrPort :: "string \<Rightarrow> netaddr option" where
  "ParseAddrPort s =
     (case LastIndexCut (CHR '':'') s of
        None \<Rightarrow> None
      | Some (h, p) \<Rightarrow>
          if h = [] \<or> (case parse_nat p of None \<Rightarrow> True | Some n \<Rightarrow> n \<ge> 2 ^ 16) then None
          else if hd h = CHR ''['' then
            (if length h < 2 \<or> last h \<noteq> CHR '']'' then None
             else (case ParseAddr (butlast (tl h)) of Some (V6 t) \<Rightarrow> Some (V6 t) | _ \<Rightarrow> None))
          else (case ParseAddr h of Some (V4 ip) \<Rightarrow> Some (V4 ip) | _ \<Rightarrow> None))"

fun netip_String :: "netaddr \<Rightarrow> string" where
  "netip_String (V4 ip) = Addr_String ip"
| "netip_String (V6 s) = s"

lemma colon_not_addr: "CHR '':'' \<notin> set (Addr_String ip)"
proof -
  have "CHR '':'' \<notin> set (itoa_nat n)" for n
    using itoa_nat_digits [of n] dot_not_digit [of "itoa_nat n" "CHR '':''"] by blast
  then show ?thesis by (simp add: Addr_String_def As4_def)
qed

lemma LastIndexCut_append: "sep \<notin> set p \<Longrightarrow> LastIndexCut sep (h @ sep # p) = Some (h, p)"
proof -
  assume "sep \<notin> set p"
  then have "takeWhile ((\<noteq>) sep) (rev p @ sep # rev h) = rev p" by (subst takeWhile_append2) auto
  moreover have "dropWhile ((\<noteq>) sep) (rev p @ sep # rev h) = sep # rev h"
    using \<open>sep \<notin> set p\<close> by (subst dropWhile_append2) auto
  ultimately show ?thesis by (simp add: LastIndexCut_def)
qed

lemma ParseAddrPort_String:
  assumes "port < 2 ^ 16"
  shows "ParseAddrPort (Addr_String ip @ CHR '':'' # itoa_nat port) = Some (V4 ip)"
proof -
  have colon: "CHR '':'' \<notin> set (itoa_nat port)"
    using itoa_nat_digits [of port] dot_not_digit [of "itoa_nat port" "CHR '':''"] by blast
  obtain c cs where s: "Addr_String ip = c # cs" "is_digit c"
  proof -
    obtain a rest where as: "As4 ip = a # rest" by (simp add: As4_def)
    obtain d ds where d: "itoa_nat (unat a) = d # ds" "is_digit d"
      using itoa_nat_digits [of "unat a"] by (cases "itoa_nat (unat a)") auto
    then show thesis using that [of d] as by (cases rest) (auto simp: Addr_String_def)
  qed
  then have "Addr_String ip \<noteq> []" "hd (Addr_String ip) \<noteq> CHR ''[''" by (auto simp: is_digit_def ord_def)
  with assms show ?thesis
    by (simp add: ParseAddrPort_def LastIndexCut_append [OF colon])
qed

section \<open>Paths of a file system\<close>

definition ValidPath :: "string \<Rightarrow> bool" where
  "ValidPath p \<longleftrightarrow> p = ''.'' \<or> list_all (\<lambda>c. c \<noteq> [] \<and> c \<noteq> ''.'' \<and> c \<noteq> ''..'') (Split (CHR ''/'') p)"

section \<open>UTF-8\<close>

definition cont_byte :: "8 word \<Rightarrow> bool" where
  "cont_byte b \<longleftrightarrow> 0x80 \<le> b \<and> b \<le> 0xBF"

fun utf8_Valid :: "bytes \<Rightarrow> bool" where
  "utf8_Valid [] = True"
| "utf8_Valid (b # bs) =
     (if b < 0x80 then utf8_Valid bs
      else if 0xC2 \<le> b \<and> b \<le> 0xDF then
        (case bs of c # r \<Rightarrow> cont_byte c \<and> utf8_Valid r | _ \<Rightarrow> False)
      else if 0xE0 \<le> b \<and> b \<le> 0xEF then
        (case bs of
           c # d # r \<Rightarrow> cont_byte c \<and> cont_byte d \<and> (b = 0xE0 \<longrightarrow> 0xA0 \<le> c) \<and> (b = 0xED \<longrightarrow> c \<le> 0x9F) \<and> utf8_Valid r
         | _ \<Rightarrow> False)
      else if 0xF0 \<le> b \<and> b \<le> 0xF4 then
        (case bs of
           c # d # e # r \<Rightarrow> cont_byte c \<and> cont_byte d \<and> cont_byte e \<and> (b = 0xF0 \<longrightarrow> 0x90 \<le> c) \<and> (b = 0xF4 \<longrightarrow> c \<le> 0x8F) \<and> utf8_Valid r
         | _ \<Rightarrow> False)
      else False)"

end
