(* ===== verification/Nonce.thy ===== *)
theory Nonce
  imports VMM_Prelude
begin

text \<open>
  The nonce store of \<open>src/internal/nonce/nonce.go\<close>: issue, consume, forget and
  the sweep of expired nonces, with the eviction loop of \<open>Issue\<close> as a partial
  function.  The lemmas show that the loop ends, that the store keeps at most
  \<open>maxPerVM\<close> nonces per VM, and that a consumption is accepted exactly when
  the nonce is outstanding for that VM and young enough; the history theorem
  reads the freshness contract off a whole run.
\<close>

section \<open>The store\<close>

record nonce_store =
  ttl :: duration
  maxPerVM :: int
  byVM :: "(string, (string, timestamp) gomap) gomap"

definition DefaultTTL :: duration where "DefaultTTL = 5 * 60 * 1000000000"
definition DefaultMaxPerVM :: int where "DefaultMaxPerVM = 8"

datatype nonce_option = WithTTL duration | WithMaxPerVM int

primrec apply_option :: "nonce_option \<Rightarrow> nonce_store \<Rightarrow> nonce_store" where
  "apply_option (WithTTL d) s = (if d > 0 then s\<lparr>ttl := d\<rparr> else s)"
| "apply_option (WithMaxPerVM n) s = (if n > 0 then s\<lparr>maxPerVM := n\<rparr> else s)"

definition Store_New :: "nonce_option list \<Rightarrow> nonce_store" where
  "Store_New opts = fold apply_option opts
     \<lparr>ttl = DefaultTTL, maxPerVM = DefaultMaxPerVM, byVM = []\<rparr>"

section \<open>Operations\<close>

definition live_nonces :: "duration \<Rightarrow> timestamp \<Rightarrow> (string, timestamp) gomap \<Rightarrow> (string, timestamp) gomap" where
  "live_nonces d now issued = filter (\<lambda>(n, t). \<not> time_Sub now t > d) issued"

definition sweepLocked :: "timestamp \<Rightarrow> nonce_store \<Rightarrow> nonce_store" where
  "sweepLocked now s = s\<lparr>byVM :=
     filter (\<lambda>(vm, issued). length issued \<noteq> 0)
       (map (\<lambda>(vm, issued). (vm, live_nonces (ttl s) now issued)) (byVM s))\<rparr>"

fun oldest_loop :: "string \<Rightarrow> timestamp \<Rightarrow> (string, timestamp) gomap \<Rightarrow> string" where
  "oldest_loop key at [] = key"
| "oldest_loop key at ((n, t) # rest) =
     (if key = [] \<or> t < at then oldest_loop n t rest else oldest_loop key at rest)"

definition oldest :: "(string, timestamp) gomap \<Rightarrow> string" where
  "oldest issued = oldest_loop [] 0 issued"

partial_function (option) evict :: "int \<Rightarrow> (string, timestamp) gomap \<Rightarrow> (string, timestamp) gomap option" where
  "evict m issued =
     (if int (length issued) \<ge> m then evict m (AList.delete (oldest issued) issued)
      else Some issued)"

text \<open>
  \<open>raw\<close> is what \<open>rand.Read\<close> filled the 32-byte buffer with, \<open>None\<close> when it
  failed; \<open>now\<close> is the value of the store's clock.  The outer option is the
  eviction loop not returning.
\<close>

definition issued_of :: "string \<Rightarrow> nonce_store \<Rightarrow> (string, timestamp) gomap" where
  "issued_of vm s = (case map_of (byVM s) vm of None \<Rightarrow> [] | Some issued \<Rightarrow> issued)"

definition Store_Issue :: "bytes option \<Rightarrow> timestamp \<Rightarrow> string \<Rightarrow> nonce_store \<Rightarrow> (string option \<times> nonce_store) option" where
  "Store_Issue raw now vmID s =
     (case raw of
        None \<Rightarrow> Some (None, s)
      | Some bs \<Rightarrow>
          let nonce = hex_EncodeToString bs;
              s1 = sweepLocked now s
          in (case evict (maxPerVM s1) (issued_of vmID s1) of
                None \<Rightarrow> None
              | Some issued \<Rightarrow>
                  Some (Some nonce,
                    s1\<lparr>byVM := AList.update vmID (AList.update nonce now issued) (byVM s1)\<rparr>)))"

definition Store_Consume :: "timestamp \<Rightarrow> string \<Rightarrow> string \<Rightarrow> nonce_store \<Rightarrow> bool \<times> nonce_store" where
  "Store_Consume now vmID nonce s =
     (case map_of (issued_of vmID s) nonce of
        None \<Rightarrow> (False, sweepLocked now s)
      | Some issued \<Rightarrow>
          (time_Sub now issued \<le> ttl s,
           sweepLocked now
             (s\<lparr>byVM := AList.update vmID (AList.delete nonce (issued_of vmID s)) (byVM s)\<rparr>)))"

definition Store_Forget :: "string \<Rightarrow> nonce_store \<Rightarrow> nonce_store" where
  "Store_Forget vmID s = s\<lparr>byVM := AList.delete vmID (byVM s)\<rparr>"

section \<open>Invariant and abstract view\<close>

text \<open>\<open>outstanding s vm n\<close> is the issue time of a nonce the store holds.\<close>

definition outstanding :: "nonce_store \<Rightarrow> string \<Rightarrow> string \<Rightarrow> timestamp option" where
  "outstanding s vm n = map_of (issued_of vm s) n"

definition store_inv :: "nonce_store \<Rightarrow> bool" where
  "store_inv s \<longleftrightarrow> maxPerVM s > 0 \<and> ttl s > 0 \<and> distinct (map fst (byVM s)) \<and>
     list_all (\<lambda>(vm, issued). distinct (map fst issued) \<and> int (length issued) \<le> maxPerVM s) (byVM s)"

lemma store_inv_issued:
  assumes "store_inv s"
  shows "distinct (map fst (issued_of vm s))" "int (length (issued_of vm s)) \<le> maxPerVM s"
  using assms
  by (auto simp: store_inv_def issued_of_def list_all_iff split: option.splits dest!: map_of_SomeD)

lemma issued_of_sweep:
  assumes "distinct (map fst (byVM s))"
  shows "issued_of vm (sweepLocked now s) = live_nonces (ttl s) now (issued_of vm s)"
proof -
  have "distinct (map fst (map (\<lambda>(vm, issued). (vm, live_nonces (ttl s) now issued)) (byVM s)))"
    using assms by (rule distinct_fst_map_snd)
  then show ?thesis
    by (auto simp: issued_of_def sweepLocked_def map_of_filter_distinct map_of_map_snd live_nonces_def
        split: option.splits)
qed

lemma outstanding_sweep:
  assumes "store_inv s"
  shows "outstanding (sweepLocked now s) vm n =
    (case outstanding s vm n of None \<Rightarrow> None
     | Some t \<Rightarrow> if time_Sub now t \<le> ttl s then Some t else None)"
  using assms store_inv_issued [OF assms, of vm]
  by (auto simp: outstanding_def issued_of_sweep store_inv_def live_nonces_def
      map_of_filter_distinct not_less split: option.splits)

lemma sweep_fields [simp]:
  "ttl (sweepLocked now s) = ttl s" "maxPerVM (sweepLocked now s) = maxPerVM s"
  by (simp_all add: sweepLocked_def)

lemma live_nonces_le: "length (live_nonces d now issued) \<le> length issued"
  by (simp add: live_nonces_def)

lemma sweep_inv [inv_intros]: "store_inv s \<Longrightarrow> store_inv (sweepLocked now s)"
  unfolding store_inv_def sweepLocked_def
  by (auto simp: list_all_iff live_nonces_def simp del: map_map
      intro!: distinct_fst_filter distinct_fst_map_snd intro: order_trans [rotated])

lemma store_inv_update:
  assumes "store_inv s" "distinct (map fst issued)" "int (length issued) \<le> maxPerVM s"
  shows "store_inv (s\<lparr>byVM := AList.update vm issued (byVM s)\<rparr>)"
proof -
  have "set (AList.update vm issued (byVM s)) \<subseteq> insert (vm, issued) (set (byVM s))"
    by (rule set_update_subset)
  then show ?thesis
    using assms by (auto simp: store_inv_def list_all_iff)
qed

lemma issued_of_update:
  "issued_of vm' (s\<lparr>byVM := AList.update vm issued (byVM s)\<rparr>) =
   (if vm' = vm then issued else issued_of vm' s)"
  by (simp add: issued_of_def)

section \<open>The eviction loop\<close>

lemma oldest_loop_cases:
  "oldest_loop key at xs = key \<or> oldest_loop key at xs \<in> fst ` set xs"
  by (induction key at xs rule: oldest_loop.induct) auto

lemma oldest_mem: "xs \<noteq> [] \<Longrightarrow> oldest xs \<in> fst ` set xs"
  using oldest_loop_cases by (cases xs) (fastforce simp: oldest_def)+

lemma oldest_loop_least:
  assumes "key \<noteq> []" "\<forall>(n, t) \<in> set xs. n \<noteq> []"
  shows "\<exists>t0. (oldest_loop key at xs, t0) \<in> insert (key, at) (set xs) \<and>
           (\<forall>(n, t) \<in> insert (key, at) (set xs). t0 \<le> t)"
  using assms
proof (induction key at xs rule: oldest_loop.induct)
  case (2 key at n t rest)
  show ?case
  proof (cases "t < at")
    case True
    with 2 obtain t0 where "(oldest_loop n t rest, t0) \<in> insert (n, t) (set rest)"
      "\<forall>(n, t) \<in> insert (n, t) (set rest). t0 \<le> t" by auto
    with True show ?thesis by (intro exI [of _ t0]) force
  next
    case False
    with 2 obtain t0 where "(oldest_loop key at rest, t0) \<in> insert (key, at) (set rest)"
      "\<forall>(n, t) \<in> insert (key, at) (set rest). t0 \<le> t" by auto
    with False 2(3) show ?thesis by (intro exI [of _ t0]) force
  qed
qed auto

lemma evict_terminates:
  assumes "m > 0"
  shows "\<exists>ys. evict m xs = Some ys \<and> int (length ys) < m \<and> set ys \<subseteq> set xs \<and>
    (distinct (map fst xs) \<longrightarrow> distinct (map fst ys)) \<and> (int (length xs) < m \<longrightarrow> ys = xs)"
proof (induction "length xs" arbitrary: xs rule: less_induct)
  case less
  show ?case
  proof (cases "int (length xs) \<ge> m")
    case True
    with assms have "xs \<noteq> []" by auto
    then have "length (AList.delete (oldest xs) xs) < length xs"
      by (intro length_delete_lt oldest_mem)
    from less [OF this] obtain ys where "evict m (AList.delete (oldest xs) xs) = Some ys"
      "int (length ys) < m" "set ys \<subseteq> set (AList.delete (oldest xs) xs)"
      "distinct (map fst xs) \<longrightarrow> distinct (map fst ys)" using distinct_fst_delete by metis
    moreover have "set (AList.delete (oldest xs) xs) \<subseteq> set xs"
      by (auto simp: AList.delete_eq)
    ultimately show ?thesis
      using True by (subst evict.simps) (auto simp: subset_iff)
  next
    case False
    then show ?thesis by (subst evict.simps) auto
  qed
qed

lemma evict_drops_oldest:
  assumes "m > 0" "evict m xs = Some ys" "\<forall>(n, t) \<in> set xs. n \<noteq> []" "distinct (map fst xs)"
    and "(n, t) \<in> set xs" "(n, t) \<notin> set ys" "(n', t') \<in> set ys"
  shows "t \<le> t'"
  using assms
proof (induction "length xs" arbitrary: xs rule: less_induct)
  case less
  show ?case
  proof (cases "int (length xs) \<ge> m")
    case False
    with less.prems(2) have "ys = xs" by (simp add: evict.simps [of m xs])
    with less.prems show ?thesis by simp
  next
    case True
    let ?xs = "AList.delete (oldest xs) xs"
    from True less.prems(2) have ev: "evict m ?xs = Some ys" by (simp add: evict.simps [of m xs])
    from True less.prems(1) obtain k0 t0 rest where xs: "xs = (k0, t0) # rest" by (cases xs) auto
    with less.prems(3) oldest_loop_least [of k0 rest t0] obtain tm where tm:
      "(oldest xs, tm) \<in> set xs" "\<forall>(n, t) \<in> set xs. tm \<le> t"
      by (auto simp: oldest_def)
    have sub: "set ys \<subseteq> set ?xs" using evict_terminates [OF less.prems(1), of ?xs] ev by auto
    show ?thesis
    proof (cases "n = oldest xs")
      case True
      with tm(1) less.prems(4,5) have "t = tm" by (metis eq_key_imp_eq_value)
      with tm(2) sub less.prems(7) show ?thesis by (auto simp: AList.delete_eq)
    next
      case False
      have "length ?xs < length xs" using xs by (intro length_delete_lt oldest_mem) simp
      from less.hyps [OF this less.prems(1) ev] less.prems False show ?thesis
        by (auto simp: AList.delete_eq)
    qed
  qed
qed

section \<open>Effect of the operations\<close>

lemma issue_spec:
  assumes "store_inv s"
  obtains ys s' where "Store_Issue (Some bs) now vm s = Some (Some (hex_EncodeToString bs), s')"
    and "evict (maxPerVM s) (issued_of vm (sweepLocked now s)) = Some ys"
    and "issued_of vm s' = AList.update (hex_EncodeToString bs) now ys"
    and "\<And>vm'. vm' \<noteq> vm \<Longrightarrow> issued_of vm' s' = issued_of vm' (sweepLocked now s)"
    and "store_inv s'" "ttl s' = ttl s" "maxPerVM s' = maxPerVM s"
    and "set ys \<subseteq> set (issued_of vm (sweepLocked now s))" "distinct (map fst ys)"
proof -
  let ?s1 = "sweepLocked now s"
  have inv1: "store_inv ?s1" using assms by (rule sweep_inv)
  have m: "maxPerVM s > 0" using assms by (simp add: store_inv_def)
  from evict_terminates [OF m, of "issued_of vm ?s1"] store_inv_issued(1) [OF inv1, of vm]
  obtain ys where ys: "evict (maxPerVM s) (issued_of vm ?s1) = Some ys"
    "int (length ys) < maxPerVM s" "set ys \<subseteq> set (issued_of vm ?s1)" "distinct (map fst ys)"
    by auto
  let ?s' = "?s1\<lparr>byVM := AList.update vm (AList.update (hex_EncodeToString bs) now ys) (byVM ?s1)\<rparr>"
  have "store_inv ?s'"
    using inv1 ys length_update_le [of "hex_EncodeToString bs" now ys]
    by (intro store_inv_update) auto
  then show thesis
    using ys by (intro that [of ?s' ys]) (simp_all add: Store_Issue_def issued_of_update Let_def)
qed

lemma outstanding_mem:
  "distinct (map fst (issued_of vm s)) \<Longrightarrow>
   outstanding s vm n = Some t \<longleftrightarrow> (n, t) \<in> set (issued_of vm s)"
  by (simp add: outstanding_def)

lemma issue_outstanding:
  assumes "store_inv s" "Store_Issue (Some bs) now vm s = Some (r, s')"
  shows "r = Some (hex_EncodeToString bs)" "store_inv s'" "ttl s' = ttl s" "maxPerVM s' = maxPerVM s"
    and "outstanding s' vm (hex_EncodeToString bs) = Some now"
    and "outstanding s' vm' n = Some t \<Longrightarrow>
      outstanding s vm' n = Some t \<or> (vm' = vm \<and> n = hex_EncodeToString bs \<and> t = now)"
proof -
  obtain ys s1 where s1: "Store_Issue (Some bs) now vm s = Some (Some (hex_EncodeToString bs), s1)"
    "evict (maxPerVM s) (issued_of vm (sweepLocked now s)) = Some ys"
    "issued_of vm s1 = AList.update (hex_EncodeToString bs) now ys"
    "\<And>vm'. vm' \<noteq> vm \<Longrightarrow> issued_of vm' s1 = issued_of vm' (sweepLocked now s)"
    "store_inv s1" "ttl s1 = ttl s" "maxPerVM s1 = maxPerVM s"
    "set ys \<subseteq> set (issued_of vm (sweepLocked now s))" "distinct (map fst ys)"
    by (rule issue_spec [OF assms(1), of bs now vm]) (rule that)
  have eq: "s1 = s'" "r = Some (hex_EncodeToString bs)" using assms(2) s1(1) by auto
  note s' = s1 [unfolded eq]
  from s' eq show "r = Some (hex_EncodeToString bs)" "store_inv s'" "ttl s' = ttl s" "maxPerVM s' = maxPerVM s"
    and "outstanding s' vm (hex_EncodeToString bs) = Some now" by (auto simp: outstanding_def)
  have sw: "outstanding (sweepLocked now s) vm' n = Some t \<Longrightarrow> outstanding s vm' n = Some t"
    by (auto simp: outstanding_sweep [OF assms(1)] split: option.splits if_splits)
  have dist: "distinct (map fst (issued_of vm (sweepLocked now s)))"
    by (rule store_inv_issued(1) [OF sweep_inv [OF assms(1)]])
  show "outstanding s vm' n = Some t \<or> (vm' = vm \<and> n = hex_EncodeToString bs \<and> t = now)"
    if o: "outstanding s' vm' n = Some t"
  proof (cases "vm' = vm")
    case True
    with o s'(3,9) consider "n = hex_EncodeToString bs" "t = now" | "(n, t) \<in> set ys"
      by (auto simp: outstanding_def split: if_splits dest: map_of_SomeD)
    then show ?thesis
    proof cases
      case 2
      with s'(8) dist have "outstanding (sweepLocked now s) vm n = Some t"
        by (auto simp: outstanding_mem)
      with sw True show ?thesis by simp
    qed (use True in simp)
  next
    case False
    with o s'(4) [OF False] sw show ?thesis by (simp add: outstanding_def)
  qed
qed

lemma issue_failed: "Store_Issue None now vm s = Some (None, s)"
  by (simp add: Store_Issue_def)

lemma outstanding_remove:
  "outstanding (s\<lparr>byVM := AList.update vm (AList.delete n (issued_of vm s)) (byVM s)\<rparr>) vm' n' =
   (if vm' = vm \<and> n' = n then None else outstanding s vm' n')"
  by (auto simp: outstanding_def issued_of_update)

lemma length_delete_le: "length (AList.delete n xs) \<le> length xs"
  by (simp add: AList.delete_eq)

lemma remove_inv:
  assumes "store_inv s"
  shows "store_inv (s\<lparr>byVM := AList.update vm (AList.delete n (issued_of vm s)) (byVM s)\<rparr>)"
  using store_inv_issued [OF assms, of vm] length_delete_le [of n "issued_of vm s"]
  by (intro store_inv_update [OF assms]) simp_all

lemma consume_inv [inv_intros]:
  "store_inv s \<Longrightarrow> store_inv (snd (Store_Consume now vm n s))"
  by (simp add: Store_Consume_def sweep_inv remove_inv split: option.splits)

lemma consume_fields [simp]:
  "ttl (snd (Store_Consume now vm n s)) = ttl s"
  "maxPerVM (snd (Store_Consume now vm n s)) = maxPerVM s"
  by (simp_all add: Store_Consume_def split: option.splits)

lemma consume_accepts:
  "fst (Store_Consume now vm n s) \<longleftrightarrow>
   (\<exists>t. outstanding s vm n = Some t \<and> time_Sub now t \<le> ttl s)"
  by (simp add: Store_Consume_def outstanding_def split: option.splits)

lemma consume_outstanding:
  assumes "store_inv s"
  shows "outstanding (snd (Store_Consume now vm n s)) vm' n' =
    (if vm' = vm \<and> n' = n then None else outstanding (sweepLocked now s) vm' n')"
  using assms remove_inv [OF assms, of vm n]
  by (auto simp: Store_Consume_def outstanding_sweep outstanding_remove
      outstanding_def [symmetric] split: option.splits)

lemma forget_outstanding:
  "outstanding (Store_Forget vm s) vm' n = (if vm' = vm then None else outstanding s vm' n)"
  by (simp add: Store_Forget_def outstanding_def issued_of_def)

lemma forget_inv [inv_intros]: "store_inv s \<Longrightarrow> store_inv (Store_Forget vm s)"
  by (auto simp: Store_Forget_def store_inv_def list_all_iff AList.delete_eq)

lemma forget_fields [simp]:
  "ttl (Store_Forget vm s) = ttl s" "maxPerVM (Store_Forget vm s) = maxPerVM s"
  by (simp_all add: Store_Forget_def)

lemma fold_options_inv:
  "store_inv s \<Longrightarrow> byVM s = [] \<Longrightarrow>
   store_inv (fold apply_option opts s) \<and> byVM (fold apply_option opts s) = []"
proof (induction opts arbitrary: s)
  case (Cons a opts)
  have "store_inv (apply_option a s) \<and> byVM (apply_option a s) = []"
    using Cons.prems by (cases a) (auto simp: store_inv_def)
  with Cons.IH show ?case by simp
qed simp

lemma new_inv [inv_intros]: "store_inv (Store_New opts)" "byVM (Store_New opts) = []"
proof -
  let ?s = "\<lparr>ttl = DefaultTTL, maxPerVM = DefaultMaxPerVM, byVM = []\<rparr>"
  have "store_inv ?s" by (simp add: store_inv_def DefaultTTL_def DefaultMaxPerVM_def)
  from fold_options_inv [OF this, of opts]
  show "store_inv (Store_New opts)" "byVM (Store_New opts) = []"
    by (simp_all add: Store_New_def)
qed

lemma new_outstanding: "outstanding (Store_New opts) vm n = None"
  by (simp add: outstanding_def issued_of_def new_inv)

section \<open>Histories\<close>

text \<open>
  A run is the list of the calls a store answered, newest first.  \<open>last_grant\<close>
  reads from it whether the newest call about a nonce is its issue, and when
  that was.
\<close>

datatype nonce_event =
    Issued string string timestamp
  | Consumed string string timestamp bool
  | Forgot string
  | Relisted

primrec last_grant :: "nonce_event list \<Rightarrow> string \<Rightarrow> string \<Rightarrow> timestamp option" where
  "last_grant [] vm n = None"
| "last_grant (e # es) vm n =
     (case e of
        Issued vm' n' t \<Rightarrow> if vm' = vm \<and> n' = n then Some t else last_grant es vm n
      | Consumed vm' n' t acc \<Rightarrow> if vm' = vm \<and> n' = n then None else last_grant es vm n
      | Forgot vm' \<Rightarrow> if vm' = vm then None else last_grant es vm n
      | Relisted \<Rightarrow> last_grant es vm n)"

text \<open>Go may list a map in another order at every call.\<close>

definition relisted :: "nonce_store \<Rightarrow> nonce_store \<Rightarrow> bool" where
  "relisted s s' \<longleftrightarrow> ttl s' = ttl s \<and> maxPerVM s' = maxPerVM s \<and>
     (\<exists>zs. mset zs = mset (byVM s) \<and>
       list_all2 (\<lambda>(v, xs) (v', xs'). v' = v \<and> mset xs' = mset xs) zs (byVM s'))"

inductive nonce_step :: "nonce_store \<Rightarrow> nonce_event \<Rightarrow> nonce_store \<Rightarrow> bool" where
  step_issue: "Store_Issue (Some bs) now vm s = Some (Some n, s') \<Longrightarrow> nonce_step s (Issued vm n now) s'"
| step_consume: "Store_Consume now vm n s = (acc, s') \<Longrightarrow> nonce_step s (Consumed vm n now acc) s'"
| step_forget: "nonce_step s (Forgot vm) (Store_Forget vm s)"
| step_relist: "relisted s s' \<Longrightarrow> nonce_step s Relisted s'"

inductive_cases nonce_consumeE: "nonce_step s (Consumed vm n now acc) s'"

definition nonce_run :: "nonce_option list \<Rightarrow> nonce_event list \<Rightarrow> nonce_store \<Rightarrow> bool" where
  "nonce_run opts = reachable (\<lambda>s. s = Store_New opts) nonce_step"

lemma relisted_maps:
  assumes "relisted s s'" "store_inv s"
  shows "outstanding s' = outstanding s" "store_inv s'"
proof -
  from assms(1) obtain zs where zs: "mset zs = mset (byVM s)"
    "list_all2 (\<lambda>(v, xs) (v', xs'). v' = v \<and> mset xs' = mset xs) zs (byVM s')"
    "ttl s' = ttl s" "maxPerVM s' = maxPerVM s" by (auto simp: relisted_def)
  have d: "distinct (map fst (byVM s))" "\<forall>(vm, issued) \<in> set (byVM s). distinct (map fst issued) \<and>
      int (length issued) \<le> maxPerVM s"
    using assms(2) by (auto simp: store_inv_def list_all_iff)
  note zmap = map_of_mset_eq [OF zs(1) [symmetric] d(1)]
  have keys: "map fst (byVM s') = map fst zs"
    using zs(2) by (induction rule: list_all2_induct) auto
  have rel: "rel_option (\<lambda>xs xs'. mset xs' = mset xs) (map_of zs vm) (map_of (byVM s') vm)" for vm
    using zs(2) by (induction rule: list_all2_induct) auto
  have mem: "\<forall>(vm, issued) \<in> set (byVM s'). \<exists>xs. (vm, xs) \<in> set zs \<and> mset issued = mset xs"
    using zs(2) by (induction rule: list_all2_induct) auto
  have dz: "\<forall>(vm, issued) \<in> set zs. distinct (map fst issued) \<and> int (length issued) \<le> maxPerVM s"
    using d(2) mset_eq_setD [OF zs(1)] by simp
  have "distinct (map fst issued) \<and> int (length issued) \<le> maxPerVM s"
    if "(vm, issued) \<in> set (byVM s')" for vm issued
  proof -
    from that mem obtain xs where xs: "(vm, xs) \<in> set zs" "mset issued = mset xs" by auto
    with dz have "distinct (map fst xs)" "int (length xs) \<le> maxPerVM s" by auto
    with map_of_mset_eq(2) [OF xs(2) [symmetric]] mset_eq_length [OF xs(2)] show ?thesis by simp
  qed
  then show "store_inv s'"
    using assms(2) zs(3,4) keys zmap(2) by (auto simp: store_inv_def list_all_iff)
  show "outstanding s' = outstanding s"
  proof (intro ext)
    fix vm n
    have "map_of (byVM s) vm = map_of zs vm" using zmap(1) by simp
    moreover have "map_of xs' = map_of xs"
      if "map_of zs vm = Some xs" "map_of (byVM s') vm = Some xs'" for xs xs'
    proof -
      have "mset xs = mset xs'" using rel [of vm] that by simp
      moreover have "distinct (map fst xs)" using dz map_of_SomeD [OF that(1)] by auto
      ultimately show ?thesis using map_of_mset_eq(1) by metis
    qed
    ultimately show "outstanding s' vm n = outstanding s vm n"
      using rel [of vm] by (auto simp: outstanding_def issued_of_def split: option.splits)
  qed
qed

section \<open>The freshness interface\<close>

text \<open>What the attestors rely on: issue, consume and forget with their laws.\<close>

locale freshness =
  fixes issue :: "bytes option \<Rightarrow> timestamp \<Rightarrow> string \<Rightarrow> 's \<Rightarrow> (string option \<times> 's) option"
    and consume :: "timestamp \<Rightarrow> string \<Rightarrow> string \<Rightarrow> 's \<Rightarrow> bool \<times> 's"
    and forget :: "string \<Rightarrow> 's \<Rightarrow> 's"
    and outs :: "'s \<Rightarrow> string \<Rightarrow> string \<Rightarrow> timestamp option"
    and lifetime :: "'s \<Rightarrow> duration"
    and inv :: "'s \<Rightarrow> bool"
  assumes issue_total: "inv s \<Longrightarrow> \<exists>s'. issue (Some bs) now vm s = Some (Some (hex_EncodeToString bs), s')"
    and issue_laws: "inv s \<Longrightarrow> issue (Some bs) now vm s = Some (r, s') \<Longrightarrow>
      inv s' \<and> lifetime s' = lifetime s \<and> r = Some (hex_EncodeToString bs) \<and>
      outs s' vm (hex_EncodeToString bs) = Some now"
    and issue_frame: "inv s \<Longrightarrow> issue (Some bs) now vm s = Some (r, s') \<Longrightarrow> outs s' vm' n = Some t \<Longrightarrow>
      outs s vm' n = Some t \<or> (vm' = vm \<and> n = hex_EncodeToString bs \<and> t = now)"
    and consume_iff: "fst (consume now vm n s) \<longleftrightarrow>
      (\<exists>t. outs s vm n = Some t \<and> time_Sub now t \<le> lifetime s)"
    and consume_laws: "inv s \<Longrightarrow> inv (snd (consume now vm n s)) \<and>
      lifetime (snd (consume now vm n s)) = lifetime s \<and> outs (snd (consume now vm n s)) vm n = None"
    and consume_frame: "inv s \<Longrightarrow> outs (snd (consume now vm n s)) vm' n' = Some t \<Longrightarrow>
      outs s vm' n' = Some t"
    and forget_laws: "inv s \<Longrightarrow> inv (forget vm s) \<and> lifetime (forget vm s) = lifetime s \<and>
      outs (forget vm s) vm' n = (if vm' = vm then None else outs s vm' n)"
begin

definition tracks :: "'s \<Rightarrow> nonce_event list \<Rightarrow> bool" where
  "tracks s es \<longleftrightarrow> inv s \<and> (\<forall>vm n t. outs s vm n = Some t \<longrightarrow> last_grant es vm n = Some t)"

lemma tracks_issue:
  assumes "tracks s es" "issue (Some bs) now vm s = Some (Some n, s')"
  shows "tracks s' (Issued vm n now # es) \<and> lifetime s' = lifetime s"
proof -
  have inv: "inv s" using assms(1) by (simp add: tracks_def)
  note laws = issue_laws [OF inv assms(2)] issue_frame [OF inv assms(2)]
  show ?thesis
    using assms(1) laws by (fastforce simp: tracks_def)
qed

lemma tracks_consume:
  assumes "tracks s es" "consume now vm n s = (acc, s')"
  shows "tracks s' (Consumed vm n now acc # es) \<and> lifetime s' = lifetime s"
proof -
  have inv: "inv s" using assms(1) by (simp add: tracks_def)
  note laws = consume_laws [OF inv, of now vm n] consume_frame [OF inv, of now vm n]
  show ?thesis
    using assms laws by (auto simp: tracks_def)
qed

lemma tracks_forget:
  "tracks s es \<Longrightarrow> tracks (forget vm s) (Forgot vm # es) \<and> lifetime (forget vm s) = lifetime s"
  using forget_laws [of s vm] by (auto simp: tracks_def)

lemma accepted_grant:
  assumes "tracks s es" "consume now vm n s = (True, s')"
  shows "\<exists>t. last_grant es vm n = Some t \<and> time_Sub now t \<le> lifetime s"
  using assms consume_iff [of now vm n s] by (auto simp: tracks_def)

lemma replay_rejected:
  "inv s \<Longrightarrow> \<not> fst (consume now' vm n (snd (consume now vm n s)))"
  by (simp add: consume_iff consume_laws)

lemma issued_accepted:
  assumes "inv s" "issue (Some bs) now vm s = Some (r, s')" "time_Sub now' now \<le> lifetime s"
  shows "fst (consume now' vm (hex_EncodeToString bs) s')"
  using assms issue_laws [OF assms(1,2)] by (simp add: consume_iff)

end

interpretation store: freshness Store_Issue Store_Consume Store_Forget outstanding ttl store_inv
proof
  fix s bs now vm
  assume "store_inv s"
  then show "\<exists>s'. Store_Issue (Some bs) now vm s = Some (Some (hex_EncodeToString bs), s')"
    using issue_spec by blast
qed (auto simp: issue_outstanding consume_accepts consume_inv consume_outstanding outstanding_sweep
      forget_inv forget_outstanding dest: issue_outstanding(6) split: option.splits if_splits)

lemma nonce_run_tracks:
  assumes "nonce_run opts es s"
  shows "store.tracks s es \<and> ttl s = ttl (Store_New opts) \<and> maxPerVM s = maxPerVM (Store_New opts)"
  using assms unfolding nonce_run_def
proof (rule reachable_invariant)
  fix s assume "s = Store_New opts"
  then show "store.tracks s [] \<and> ttl s = ttl (Store_New opts) \<and> maxPerVM s = maxPerVM (Store_New opts)"
    by (simp add: store.tracks_def new_inv new_outstanding)
next
  fix es s e s'
  assume tr: "store.tracks s es \<and> ttl s = ttl (Store_New opts) \<and> maxPerVM s = maxPerVM (Store_New opts)"
    and step: "nonce_step s e s'"
  have inv: "store_inv s" using tr by (simp add: store.tracks_def)
  from step show "store.tracks s' (e # es) \<and> ttl s' = ttl (Store_New opts) \<and>
      maxPerVM s' = maxPerVM (Store_New opts)"
  proof (cases rule: nonce_step.cases)
    case (step_issue bs now vm n)
    with tr store.tracks_issue [OF _ step_issue(2)] issue_outstanding(4) [OF inv step_issue(2)]
    show ?thesis by auto
  next
    case (step_consume now vm n acc)
    with tr store.tracks_consume [OF _ step_consume(2)] consume_fields [of now vm n s]
    show ?thesis by auto
  next
    case (step_forget vm)
    with tr store.tracks_forget show ?thesis by auto
  next
    case step_relist
    with tr relisted_maps [OF step_relist(2) inv] show ?thesis
      by (auto simp: store.tracks_def relisted_def)
  qed
qed

section \<open>Properties\<close>

lemma nonce_demo_run:
  "\<exists>s. nonce_run [] [Consumed ''vm'' ''01'' 10 True, Issued ''vm'' ''01'' 0] s"
proof -
  let ?s0 = "Store_New []"
  obtain s1 where s1: "Store_Issue (Some [1]) 0 ''vm'' ?s0 = Some (Some (hex_EncodeToString [1]), s1)"
    using store.issue_total [OF new_inv(1)] by blast
  have hex: "hex_EncodeToString [1] = ''01''"
    by (simp add: hex_EncodeToString_def hex_byte_def hexdigit_def)
  have "fst (Store_Consume 10 ''vm'' ''01'' s1)"
    using store.issued_accepted [OF new_inv(1) s1, of 10] hex
    by (simp add: time_Sub_def maxDuration_def minDuration_def Store_New_def DefaultTTL_def)
  then obtain s2 where s2: "Store_Consume 10 ''vm'' ''01'' s1 = (True, s2)"
    by (cases "Store_Consume 10 ''vm'' ''01'' s1") simp
  have "nonce_run [] [] ?s0" by (simp add: nonce_run_def reach_init)
  then have "nonce_run [] [Issued ''vm'' ''01'' 0] s1"
    using step_issue [OF s1 [unfolded hex]] unfolding nonce_run_def by (rule reach_step)
  then have "nonce_run [] [Consumed ''vm'' ''01'' 10 True, Issued ''vm'' ''01'' 0] s2"
    using step_consume [OF s2] unfolding nonce_run_def by (rule reach_step)
  then show ?thesis by blast
qed

text \<open>
  C16. In every run of a store built by \<open>New\<close>, under any iteration order of its
  maps, an accepted \<open>Consume\<close> of a nonce for a VM is preceded by an \<open>Issue\<close> of
  that nonce to that very VM, at most the TTL earlier, and neither a \<open>Consume\<close>
  of it nor a \<open>Forget\<close> of the VM lies between: a nonce is accepted at most once
  per issue, only for the VM it was issued to, and only while it is fresh.
\<close>

theorem nonce_accepted_fresh:
  assumes "nonce_run opts (Consumed vm n now True # es) s"
  shows "\<exists>t. last_grant es vm n = Some t \<and> time_Sub now t \<le> ttl (Store_New opts)"
proof -
  from assms obtain s0 where s0: "nonce_run opts es s0" "nonce_step s0 (Consumed vm n now True) s"
    by (auto simp: nonce_run_def elim: reachable_ConsE)
  from s0(2) have "Store_Consume now vm n s0 = (True, s)" by (rule nonce_consumeE)
  with nonce_run_tracks [OF s0(1)] store.accepted_grant show ?thesis by fastforce
qed

theorem nonce_accepted_fresh_witness:
  "\<exists>t. last_grant [Issued ''vm'' ''01'' 0] ''vm'' ''01'' = Some t \<and> time_Sub 10 t \<le> ttl (Store_New [])"
  using nonce_demo_run nonce_accepted_fresh by blast

text \<open>
  C37. In every run of a store built by \<open>New\<close> no VM has more than \<open>maxPerVM\<close>
  outstanding nonces, and the eviction loop of \<open>Issue\<close> always ends: the call
  returns the hex form of the random bytes.
\<close>

theorem nonce_store_bounded:
  assumes "nonce_run opts es s"
  shows "int (length (issued_of vm s)) \<le> maxPerVM (Store_New opts) \<and>
    (\<forall>bs now. \<exists>s'. Store_Issue (Some bs) now vm s = Some (Some (hex_EncodeToString bs), s'))"
proof -
  from nonce_run_tracks [OF assms] have inv: "store_inv s" "maxPerVM s = maxPerVM (Store_New opts)"
    by (auto simp: store.tracks_def)
  then show ?thesis
    using store_inv_issued(2) [OF inv(1), of vm] store.issue_total [OF inv(1)] by auto
qed

theorem nonce_store_bounded_witness:
  "int (length (issued_of ''vm'' (Store_New []))) \<le> maxPerVM (Store_New []) \<and>
    (\<forall>bs now. \<exists>s'. Store_Issue (Some bs) now ''vm'' (Store_New []) = Some (Some (hex_EncodeToString bs), s'))"
proof -
  have "nonce_run [] [] (Store_New [])" by (simp add: nonce_run_def reach_init)
  then show ?thesis by (rule nonce_store_bounded)
qed

text \<open>
  \<open>Issue\<close> drops an unexpired nonce only when the VM already holds the maximum,
  and then only one that is at least as old as every nonce it keeps.
\<close>

theorem nonce_issue_evicts_oldest:
  assumes "store_inv s" "\<forall>(n, t) \<in> set (issued_of vm s). n \<noteq> []"
    and "Store_Issue (Some bs) now vm s = Some (r, s')"
    and "outstanding s vm n = Some t" "time_Sub now t \<le> ttl s" "n \<noteq> hex_EncodeToString bs"
  shows "outstanding s' vm n = Some t \<or>
    (maxPerVM s \<le> int (length (issued_of vm (sweepLocked now s))) \<and>
     (\<forall>n' t'. outstanding s' vm n' = Some t' \<and> n' \<noteq> hex_EncodeToString bs \<longrightarrow> t \<le> t'))"
proof -
  let ?xs = "issued_of vm (sweepLocked now s)"
  obtain ys s1 where s1: "Store_Issue (Some bs) now vm s = Some (Some (hex_EncodeToString bs), s1)"
    "evict (maxPerVM s) ?xs = Some ys"
    "issued_of vm s1 = AList.update (hex_EncodeToString bs) now ys" "distinct (map fst ys)"
    by (rule issue_spec [OF assms(1), of bs now vm]) (rule that)
  with assms(3) have s': "issued_of vm s' = AList.update (hex_EncodeToString bs) now ys" by simp
  have m: "maxPerVM s > 0" "distinct (map fst (byVM s))" using assms(1) by (auto simp: store_inv_def)
  have d: "distinct (map fst ?xs)" by (rule store_inv_issued(1) [OF sweep_inv [OF assms(1)]])
  have mem: "(n, t) \<in> set ?xs"
    using assms(4,5) outstanding_sweep [OF assms(1), of now vm n] d by (simp add: outstanding_mem)
  have ne: "\<forall>(n, t) \<in> set ?xs. n \<noteq> []"
    using assms(2) by (auto simp: issued_of_sweep [OF m(2)] live_nonces_def)
  have keep: "(n', t') \<in> set ys"
    if "outstanding s' vm n' = Some t'" "n' \<noteq> hex_EncodeToString bs" for n' t'
    using that s' by (auto simp: outstanding_def dest: map_of_SomeD)
  show ?thesis
  proof (cases "(n, t) \<in> set ys")
    case True
    with s' s1(4) assms(6) show ?thesis by (simp add: outstanding_def)
  next
    case False
    with mem s1(2) evict_terminates [OF m(1), of ?xs] have "maxPerVM s \<le> int (length ?xs)" by force
    with keep evict_drops_oldest [OF m(1) s1(2) ne d mem False] show ?thesis by blast
  qed
qed

lemma nonce_full_store:
  defines "s \<equiv> \<lparr>ttl = 100, maxPerVM = 1, byVM = [(''vm'', [(''01'', 5)])]\<rparr>"
  shows "store_inv s" "issued_of ''vm'' s = [(''01'', 5)]" "outstanding s ''vm'' ''01'' = Some 5"
  by (simp_all add: s_def store_inv_def issued_of_def outstanding_def)

theorem nonce_issue_evicts_oldest_witness:
  "\<exists>s'. Store_Issue (Some [2]) 6 ''vm'' \<lparr>ttl = 100, maxPerVM = 1, byVM = [(''vm'', [(''01'', 5)])]\<rparr>
       = Some (Some ''02'', s') \<and>
     (outstanding s' ''vm'' ''01'' = Some 5 \<or>
      (\<forall>n' t'. outstanding s' ''vm'' n' = Some t' \<and> n' \<noteq> ''02'' \<longrightarrow> 5 \<le> t'))"
proof -
  let ?s = "\<lparr>ttl = 100, maxPerVM = 1, byVM = [(''vm'', [(''01'', 5)])]\<rparr>"
  obtain s' where s': "Store_Issue (Some [2]) 6 ''vm'' ?s = Some (Some (hex_EncodeToString [2]), s')"
    using store.issue_total [OF nonce_full_store(1)] by blast
  have hex: "hex_EncodeToString [2] = ''02''"
    by (simp add: hex_EncodeToString_def hex_byte_def hexdigit_def)
  show ?thesis
    using nonce_issue_evicts_oldest [OF nonce_full_store(1) _ s' nonce_full_store(3)] s' hex
    by (auto simp: nonce_full_store time_Sub_def maxDuration_def minDuration_def)
qed

end
