(* ===== verification/TPM_Quote.thy ===== *)
theory TPM_Quote
  imports Go_Strings
begin

text \<open>
  Decoding and checking a TPM quote: \<open>src/internal/tpmquote/tpmquote.go\<close>.  The
  structure decoding of go-tpm and the cryptographic primitives are the fields
  of \<open>tpm_lib\<close>, a parameter of the operations; the structures it returns are
  records with the fields the code reads.  The lemmas say what a quote that
  passes each check is known to satisfy, and that the decoded PCR selection is
  the ascending list of the bits set in the one selected bank.
\<close>

unbundle bit_operations_syntax

section \<open>Errors, algorithms and structures\<close>

datatype quote_error =
    ErrMalformed | ErrMagic | ErrType | ErrAKAttributes | ErrAKAlgorithm
  | ErrSignature | ErrNonce | ErrPCRDigest | ErrPCRValue | ErrBank

datatype hash = SHA1 | SHA256 | SHA384 | SHA512

definition TPMGeneratedValue :: "32 word" where "TPMGeneratedValue = 0xFF544347"
definition TPMSTAttestQuote :: "16 word" where "TPMSTAttestQuote = 0x8018"
definition TPMAlgRSA :: "16 word" where "TPMAlgRSA = 0x0001"
definition TPMAlgRSASSA :: "16 word" where "TPMAlgRSASSA = 0x0014"
definition TPMAlgRSAPSS :: "16 word" where "TPMAlgRSAPSS = 0x0016"
definition TPMAlgECDSA :: "16 word" where "TPMAlgECDSA = 0x0018"
definition TPMAlgECC :: "16 word" where "TPMAlgECC = 0x0023"
definition TPMECCNistP256 :: "16 word" where "TPMECCNistP256 = 0x0003"

lemmas tpm_alg_defs = TPMAlgRSA_def TPMAlgRSASSA_def TPMAlgRSAPSS_def TPMAlgECDSA_def
  TPMAlgECC_def TPMECCNistP256_def TPMSTAttestQuote_def

record pcr_selection =
  sel_hash :: "16 word"
  sel_bits :: bytes

record quote_info =
  qi_select :: "pcr_selection list"
  qi_digest :: bytes

record tpms_attest =
  ta_type :: "16 word"
  ta_extra :: bytes
  ta_quote :: "quote_info option"

datatype sig_body =
    SigECDSA "16 word" bytes bytes
  | SigRSASSA "16 word" bytes
  | SigRSAPSS "16 word" bytes
  | SigOther

record tpmt_signature =
  sg_alg :: "16 word"
  sg_body :: sig_body

record object_attributes =
  oa_fixedTPM :: bool
  oa_fixedParent :: bool
  oa_sensitiveDataOrigin :: bool
  oa_restricted :: bool
  oa_signEncrypt :: bool
  oa_decrypt :: bool

datatype public_params =
    ECCParms "16 word" "16 word"
  | RSAParms "16 word" "16 word"
  | OtherParms

record tpmt_public =
  pu_type :: "16 word"
  pu_attrs :: object_attributes
  pu_params :: public_params
  pu_unique :: bytes

datatype public_key = ECDSAKey bytes | RSAKey bytes | OtherKey

text \<open>The library calls: unmarshalling of the three structures (a public area
  may also come wrapped), marshalling, key conversion, algorithm lookup, hashing
  and signature verification.\<close>

record tpm_lib =
  lib_attest :: "bytes \<Rightarrow> tpms_attest option"
  lib_signature :: "bytes \<Rightarrow> tpmt_signature option"
  lib_public :: "bytes \<Rightarrow> tpmt_public option"
  lib_public2B :: "bytes \<Rightarrow> bytes option"
  lib_contents :: "bytes \<Rightarrow> tpmt_public option"
  lib_marshal :: "tpmt_public \<Rightarrow> bytes"
  lib_key :: "tpmt_public \<Rightarrow> public_key option"
  lib_algHash :: "16 word \<Rightarrow> hash option"
  lib_available :: "hash \<Rightarrow> bool"
  lib_sum :: "hash \<Rightarrow> bytes \<Rightarrow> bytes"
  lib_ecdsaVerify :: "bytes \<Rightarrow> bytes \<Rightarrow> nat \<Rightarrow> nat \<Rightarrow> bool"
  lib_pkcs1Verify :: "bytes \<Rightarrow> hash \<Rightarrow> bytes \<Rightarrow> bytes \<Rightarrow> bool"
  lib_pssVerify :: "bytes \<Rightarrow> hash \<Rightarrow> bytes \<Rightarrow> bytes \<Rightarrow> bool"

record quote =
  q_attest :: bytes
  q_signature :: tpmt_signature
  q_public :: tpmt_public
  q_akFingerprint :: string
  q_extraData :: bytes
  q_bank :: string
  q_pcrs :: "nat list"
  q_pcrDigest :: bytes
  q_hash :: hash

section \<open>Operations\<close>

definition bankNames :: "(hash, string) gomap" where
  "bankNames = [(SHA1, ''sha1''), (SHA256, ''sha256''), (SHA384, ''sha384''), (SHA512, ''sha512'')]"

definition hash_Size :: "hash \<Rightarrow> nat" where
  "hash_Size h = (case h of SHA1 \<Rightarrow> 20 | SHA256 \<Rightarrow> 32 | SHA384 \<Rightarrow> 48 | SHA512 \<Rightarrow> 64)"

definition BankHash :: "string \<Rightarrow> quote_error + hash" where
  "BankHash bank =
     (case List.find (\<lambda>(h, name). name = bank) bankNames of
        Some (h, _) \<Rightarrow> Inr h
      | None \<Rightarrow> Inl ErrBank)"

text \<open>The indexes of the bits set in a selection, from byte \<open>n\<close> on.\<close>

fun set_bits_from :: "nat \<Rightarrow> bytes \<Rightarrow> nat list" where
  "set_bits_from n [] = []"
| "set_bits_from n (b # bs) =
     map (\<lambda>k. n * 8 + k) (filter (\<lambda>k. b AND push_bit k 1 \<noteq> 0) [0..<8]) @ set_bits_from (Suc n) bs"

definition set_bits :: "bytes \<Rightarrow> nat list" where
  "set_bits bs = set_bits_from 0 bs"

fun decodeSelection_loop ::
  "tpm_lib \<Rightarrow> string \<Rightarrow> nat list \<Rightarrow> pcr_selection list \<Rightarrow> quote_error + string \<times> nat list" where
  "decodeSelection_loop lib bank pcrs [] =
     (if bank = [] then Inl ErrMalformed else Inr (bank, pcrs))"
| "decodeSelection_loop lib bank pcrs (s # ss) =
     (let idx = set_bits (sel_bits s) in
      if length idx = 0 then decodeSelection_loop lib bank pcrs ss
      else if bank \<noteq> [] then Inl ErrMalformed
      else (case lib_algHash lib (sel_hash s) of
              None \<Rightarrow> Inl ErrBank
            | Some h \<Rightarrow>
                (case map_of bankNames h of
                   None \<Rightarrow> Inl ErrBank
                 | Some name \<Rightarrow> decodeSelection_loop lib name idx ss)))"

definition decodeSelection :: "tpm_lib \<Rightarrow> pcr_selection list \<Rightarrow> quote_error + string \<times> nat list" where
  "decodeSelection lib sel = decodeSelection_loop lib [] [] sel"

definition parsePublic :: "tpm_lib \<Rightarrow> bytes \<Rightarrow> quote_error + tpmt_public" where
  "parsePublic lib akPub =
     (case lib_public lib akPub of
        Some pub \<Rightarrow> Inr pub
      | None \<Rightarrow>
          (case lib_public2B lib akPub of
             None \<Rightarrow> Inl ErrMalformed
           | Some wrapped \<Rightarrow>
               (case lib_contents lib wrapped of None \<Rightarrow> Inl ErrMalformed | Some pub \<Rightarrow> Inr pub)))"

definition checkAK :: "tpmt_public \<Rightarrow> quote_error + unit" where
  "checkAK pub =
     (let a = pu_attrs pub;
          missing = filter (\<lambda>(name, set). \<not> set)
            [(''fixedTPM'', oa_fixedTPM a), (''fixedParent'', oa_fixedParent a),
             (''sensitiveDataOrigin'', oa_sensitiveDataOrigin a), (''restricted'', oa_restricted a),
             (''sign'', oa_signEncrypt a)]
      in if length missing > 0 then Inl ErrAKAttributes
         else if oa_decrypt a then Inl ErrAKAttributes
         else if pu_type pub = TPMAlgECC then
           (case pu_params pub of
              ECCParms curve scheme \<Rightarrow>
                if curve \<noteq> TPMECCNistP256 then Inl ErrAKAlgorithm
                else if scheme \<noteq> TPMAlgECDSA then Inl ErrAKAlgorithm else Inr ()
            | _ \<Rightarrow> Inl ErrMalformed)
         else if pu_type pub = TPMAlgRSA then
           (case pu_params pub of
              RSAParms keyBits scheme \<Rightarrow>
                if keyBits \<noteq> 2048 then Inl ErrAKAlgorithm
                else if scheme \<noteq> TPMAlgRSASSA \<and> scheme \<noteq> TPMAlgRSAPSS then Inl ErrAKAlgorithm else Inr ()
            | _ \<Rightarrow> Inl ErrMalformed)
         else Inl ErrAKAlgorithm)"

definition sig_alg_hash :: "tpmt_public \<Rightarrow> tpmt_signature \<Rightarrow> quote_error + 16 word" where
  "sig_alg_hash pub sig =
     (if sg_alg sig = TPMAlgECDSA then
        if pu_type pub \<noteq> TPMAlgECC then Inl ErrSignature
        else (case sg_body sig of SigECDSA alg r s \<Rightarrow> Inr alg | _ \<Rightarrow> Inl ErrMalformed)
      else if sg_alg sig = TPMAlgRSASSA \<or> sg_alg sig = TPMAlgRSAPSS then
        if pu_type pub \<noteq> TPMAlgRSA then Inl ErrSignature
        else if sg_alg sig = TPMAlgRSAPSS
          then (case sg_body sig of SigRSAPSS alg s \<Rightarrow> Inr alg | _ \<Rightarrow> Inl ErrMalformed)
          else (case sg_body sig of SigRSASSA alg s \<Rightarrow> Inr alg | _ \<Rightarrow> Inl ErrMalformed)
      else Inl ErrSignature)"

definition signatureHash :: "tpm_lib \<Rightarrow> tpmt_public \<Rightarrow> tpmt_signature \<Rightarrow> quote_error + hash" where
  "signatureHash lib pub sig =
     bindE (sig_alg_hash pub sig) (\<lambda>alg.
       case lib_algHash lib alg of
         None \<Rightarrow> Inl ErrSignature
       | Some h \<Rightarrow> if lib_available lib h then Inr h else Inl ErrSignature)"

definition Fingerprint :: "tpm_lib \<Rightarrow> tpmt_public \<Rightarrow> string" where
  "Fingerprint lib pub = hex_EncodeToString (lib_sum lib SHA256 (lib_marshal lib pub))"

definition be_uint32 :: "bytes \<Rightarrow> 32 word" where
  "be_uint32 bs = foldl (\<lambda>a b. push_bit 8 a OR ucast b) 0 bs"

definition Parse :: "tpm_lib \<Rightarrow> bytes \<Rightarrow> bytes \<Rightarrow> bytes \<Rightarrow> quote_error + quote" where
  "Parse lib qt sig akPub =
     bindE (guardE (\<not> length qt < 4) ErrMalformed) (\<lambda>_.
     bindE (guardE (be_uint32 (take 4 qt) = TPMGeneratedValue) ErrMagic) (\<lambda>_.
     bindE (case lib_attest lib qt of None \<Rightarrow> Inl ErrMalformed | Some att \<Rightarrow> Inr att) (\<lambda>att.
     bindE (guardE (ta_type att = TPMSTAttestQuote) ErrType) (\<lambda>_.
     bindE (case ta_quote att of None \<Rightarrow> Inl ErrMalformed | Some info \<Rightarrow> Inr info) (\<lambda>info.
     bindE (decodeSelection lib (qi_select info)) (\<lambda>(bank, pcrs).
     bindE (case lib_signature lib sig of None \<Rightarrow> Inl ErrMalformed | Some s \<Rightarrow> Inr s) (\<lambda>signature.
     bindE (parsePublic lib akPub) (\<lambda>pub.
     bindE (checkAK pub) (\<lambda>_.
     bindE (signatureHash lib pub signature) (\<lambda>hash.
     Inr \<lparr>q_attest = qt, q_signature = signature, q_public = pub,
          q_akFingerprint = Fingerprint lib pub, q_extraData = ta_extra att,
          q_bank = bank, q_pcrs = pcrs, q_pcrDigest = qi_digest info, q_hash = hash\<rparr>))))))))))"

definition bytes_nat :: "bytes \<Rightarrow> nat" where
  "bytes_nat bs = foldl (\<lambda>a b. 256 * a + unat b) 0 bs"

definition VerifySignature :: "tpm_lib \<Rightarrow> quote \<Rightarrow> quote_error + unit" where
  "VerifySignature lib q =
     (case lib_key lib (q_public q) of
        None \<Rightarrow> Inl ErrAKAlgorithm
      | Some pub \<Rightarrow>
          let digest = lib_sum lib (q_hash q) (q_attest q);
              alg = sg_alg (q_signature q)
          in if alg = TPMAlgECDSA then
               (case (pub, sg_body (q_signature q)) of
                  (ECDSAKey key, SigECDSA _ r s) \<Rightarrow>
                    guardE (lib_ecdsaVerify lib key digest (bytes_nat r) (bytes_nat s)) ErrSignature
                | _ \<Rightarrow> Inl ErrSignature)
             else if alg = TPMAlgRSASSA then
               (case (pub, sg_body (q_signature q)) of
                  (RSAKey key, SigRSASSA _ s) \<Rightarrow> guardE (lib_pkcs1Verify lib key (q_hash q) digest s) ErrSignature
                | _ \<Rightarrow> Inl ErrSignature)
             else if alg = TPMAlgRSAPSS then
               (case (pub, sg_body (q_signature q)) of
                  (RSAKey key, SigRSAPSS _ s) \<Rightarrow> guardE (lib_pssVerify lib key (q_hash q) digest s) ErrSignature
                | _ \<Rightarrow> Inl ErrSignature)
             else Inl ErrSignature)"

definition VerifyNonce :: "bytes \<Rightarrow> string \<Rightarrow> quote_error + unit" where
  "VerifyNonce extraData nonce =
     (case hex_DecodeString nonce of
        None \<Rightarrow> Inl ErrNonce
      | Some want \<Rightarrow> if length want = 0 \<or> extraData \<noteq> want then Inl ErrNonce else Inr ())"

fun pcr_concat :: "(nat, bytes) gomap \<Rightarrow> bytes \<Rightarrow> nat list \<Rightarrow> quote_error + bytes" where
  "pcr_concat values d [] = Inr d"
| "pcr_concat values d (i # is) =
     (case map_of values i of
        None \<Rightarrow> Inl ErrPCRValue
      | Some v \<Rightarrow> if length v = 0 then Inl ErrPCRValue else pcr_concat values (d @ v) is)"

definition PCRDigest :: "tpm_lib \<Rightarrow> hash \<Rightarrow> nat list \<Rightarrow> (nat, bytes) gomap \<Rightarrow> quote_error + bytes" where
  "PCRDigest lib h selection values =
     bindE (pcr_concat values [] (sort selection)) (\<lambda>d. Inr (lib_sum lib h d))"

definition VerifyPCRs :: "tpm_lib \<Rightarrow> quote \<Rightarrow> (nat, bytes) gomap \<Rightarrow> quote_error + unit" where
  "VerifyPCRs lib q values =
     bindE (BankHash (q_bank q)) (\<lambda>bank.
     bindE (guardE (list_all (\<lambda>i. case map_of values i of None \<Rightarrow> True | Some v \<Rightarrow> length v = hash_Size bank) (q_pcrs q))
       ErrPCRValue) (\<lambda>_.
     bindE (PCRDigest lib (q_hash q) (q_pcrs q) values) (\<lambda>got.
     guardE (got = q_pcrDigest q) ErrPCRDigest)))"

section \<open>What the checks establish\<close>

lemma bit_and_exp: "(b :: 8 word) AND 2 ^ k \<noteq> 0 \<longleftrightarrow> bit b k"
  by (simp add: bit_iff_and_push_bit_not_eq_0)

lemma set_bits_from_iff:
  "i \<in> set (set_bits_from n bs) \<longleftrightarrow>
   n \<le> i div 8 \<and> i div 8 < n + length bs \<and> bit (bs ! (i div 8 - n)) (i mod 8)"
proof (induction bs arbitrary: n)
  case (Cons b bs)
  have first: "i \<in> (\<lambda>k. n * 8 + k) ` {k \<in> {0..<8}. bit b k} \<longleftrightarrow> i div 8 = n \<and> bit b (i mod 8)"
  proof
    assume "i div 8 = n \<and> bit b (i mod 8)"
    then show "i \<in> (\<lambda>k. n * 8 + k) ` {k \<in> {0..<8}. bit b k}"
      by (intro image_eqI [of _ _ "i mod 8"]) (auto simp: mult.commute)
  qed (auto simp: mult.commute)
  have "i \<in> set (set_bits_from n (b # bs)) \<longleftrightarrow>
      i div 8 = n \<and> bit b (i mod 8) \<or> i \<in> set (set_bits_from (Suc n) bs)"
    using first by (simp add: bit_and_exp)
  with Cons [of "Suc n"] show ?case
    by (cases "i div 8 = n") (auto simp: nth_Cons' Suc_diff_Suc)
qed simp

text \<open>Bit \<open>i mod 8\<close> of byte \<open>i div 8\<close> of the selection selects PCR \<open>i\<close>.\<close>

lemma set_bits_iff: "i \<in> set (set_bits bs) \<longleftrightarrow> i div 8 < length bs \<and> bit (bs ! (i div 8)) (i mod 8)"
  by (simp add: set_bits_def set_bits_from_iff)

lemma set_bits_from_sorted: "sorted_wrt (<) (set_bits_from n bs)"
proof (induction bs arbitrary: n)
  case (Cons b bs)
  have "n * 8 + k < i" if "k < 8" "i \<in> set (set_bits_from (Suc n) bs)" for k i
    using that by (auto simp: set_bits_from_iff)
  with Cons [of "Suc n"] show ?case
    by (auto simp: sorted_wrt_append sorted_wrt_map intro: sorted_wrt_filter)
qed simp

lemma set_bits_sorted: "sorted_wrt (<) (set_bits bs)"
  by (simp add: set_bits_def set_bits_from_sorted)

lemma decodeSelection_loop_ok:
  assumes "decodeSelection_loop lib bank pcrs sel = Inr (b, ps)"
  shows "(bank \<noteq> [] \<longrightarrow> b = bank \<and> ps = pcrs \<and> (\<forall>s \<in> set sel. set_bits (sel_bits s) = [])) \<and>
    (bank = [] \<longrightarrow> (\<exists>s \<in> set sel. ps = set_bits (sel_bits s) \<and> ps \<noteq> [] \<and>
       (\<exists>h. lib_algHash lib (sel_hash s) = Some h \<and> map_of bankNames h = Some b) \<and>
       (\<forall>s' \<in> set sel. set_bits (sel_bits s') \<noteq> [] \<longrightarrow> s' = s)))"
  using assms
proof (induction sel arbitrary: bank pcrs)
  case (Cons s sel)
  show ?case
  proof (cases "set_bits (sel_bits s) = []")
    case True
    with Cons.prems have "decodeSelection_loop lib bank pcrs sel = Inr (b, ps)" by simp
    from Cons.IH [OF this] True show ?thesis by auto
  next
    case False
    with Cons.prems obtain h name where h: "bank = []" "lib_algHash lib (sel_hash s) = Some h"
      "map_of bankNames h = Some name"
      "decodeSelection_loop lib name (set_bits (sel_bits s)) sel = Inr (b, ps)"
      by (auto simp: Let_def split: if_splits option.splits)
    from h(3) have "name \<noteq> []" by (auto simp: bankNames_def split: if_splits)
    with Cons.IH [OF h(4)] h False show ?thesis by auto
  qed
qed (auto split: if_splits)

lemma decodeSelection_ok:
  assumes "decodeSelection lib sel = Inr (bank, pcrs)"
  obtains s h where "s \<in> set sel" "pcrs = set_bits (sel_bits s)" "pcrs \<noteq> []"
    "lib_algHash lib (sel_hash s) = Some h" "map_of bankNames h = Some bank"
    "\<And>s'. s' \<in> set sel \<Longrightarrow> set_bits (sel_bits s') \<noteq> [] \<Longrightarrow> s' = s"
proof -
  have "\<exists>s \<in> set sel. pcrs = set_bits (sel_bits s) \<and> pcrs \<noteq> [] \<and>
       (\<exists>h. lib_algHash lib (sel_hash s) = Some h \<and> map_of bankNames h = Some bank) \<and>
       (\<forall>s' \<in> set sel. set_bits (sel_bits s') \<noteq> [] \<longrightarrow> s' = s)"
    using decodeSelection_loop_ok [OF assms [unfolded decodeSelection_def]] by simp
  then obtain s h where s: "s \<in> set sel" "pcrs = set_bits (sel_bits s)" "pcrs \<noteq> []"
      "lib_algHash lib (sel_hash s) = Some h" "map_of bankNames h = Some bank"
      "\<forall>s' \<in> set sel. set_bits (sel_bits s') \<noteq> [] \<longrightarrow> s' = s" by blast
  then show thesis using that [OF s(1-5)] by blast
qed

lemma checkAK_iff:
  "checkAK pub = Inr () \<longleftrightarrow>
   (let a = pu_attrs pub in
     oa_fixedTPM a \<and> oa_fixedParent a \<and> oa_sensitiveDataOrigin a \<and> oa_restricted a \<and>
     oa_signEncrypt a \<and> \<not> oa_decrypt a) \<and>
   (pu_type pub = TPMAlgECC \<and> pu_params pub = ECCParms TPMECCNistP256 TPMAlgECDSA \<or>
    pu_type pub = TPMAlgRSA \<and> (\<exists>s \<in> {TPMAlgRSASSA, TPMAlgRSAPSS}. pu_params pub = RSAParms 2048 s))"
  by (cases "pu_params pub") (auto simp: checkAK_def Let_def tpm_alg_defs)

lemma case_option_Inr: "(case x of None \<Rightarrow> Inl e | Some y \<Rightarrow> Inr y) = Inr z \<longleftrightarrow> x = Some z"
  by (simp split: option.split)

lemma Parse_Inr:
  assumes "Parse lib qt sig akPub = Inr q"
  obtains att info where "4 \<le> length qt" "be_uint32 (take 4 qt) = TPMGeneratedValue"
    "lib_attest lib qt = Some att" "ta_type att = TPMSTAttestQuote" "ta_quote att = Some info"
    "decodeSelection lib (qi_select info) = Inr (q_bank q, q_pcrs q)"
    "lib_signature lib sig = Some (q_signature q)" "parsePublic lib akPub = Inr (q_public q)"
    "checkAK (q_public q) = Inr ()" "signatureHash lib (q_public q) (q_signature q) = Inr (q_hash q)"
    "q_akFingerprint q = Fingerprint lib (q_public q)" "q_extraData q = ta_extra att"
    "q_pcrDigest q = qi_digest info" "q_attest q = qt"
proof -
  from assms show thesis
    unfolding Parse_def
    by (elim bindE_InrE) (auto simp: case_option_Inr split: prod.splits elim!: bindE_InrE intro: that)
qed

lemma VerifyNonce_iff:
  "VerifyNonce extra nonce = Inr () \<longleftrightarrow> hex_DecodeString nonce = Some extra \<and> extra \<noteq> []"
  by (auto simp: VerifyNonce_def split: option.splits)

lemma pcr_concat_iff:
  "pcr_concat values d is = Inr r \<longleftrightarrow>
   (\<forall>i \<in> set is. \<exists>v. map_of values i = Some v \<and> v \<noteq> []) \<and> r = d @ concat (map (the \<circ> map_of values) is)"
  by (induction "is" arbitrary: d) (auto split: option.splits)

lemma BankHash_name: "BankHash name = Inr h \<longleftrightarrow> map_of bankNames h = Some name"
  by (cases h) (auto simp: BankHash_def bankNames_def split: if_splits)

lemma VerifyPCRs_iff:
  "VerifyPCRs lib q values = Inr () \<longleftrightarrow>
   (\<exists>bank. BankHash (q_bank q) = Inr bank \<and>
      (\<forall>i \<in> set (q_pcrs q). \<exists>v. map_of values i = Some v \<and> length v = hash_Size bank)) \<and>
   q_pcrDigest q = lib_sum lib (q_hash q) (concat (map (the \<circ> map_of values) (sort (q_pcrs q))))"
proof -
  have pos: "hash_Size bank > 0" for bank by (cases bank) (simp_all add: hash_Size_def)
  have entry: "(case map_of values i of None \<Rightarrow> True | Some v \<Rightarrow> length v = hash_Size bank) \<and>
      (\<exists>v. map_of values i = Some v \<and> v \<noteq> []) \<longleftrightarrow>
      (\<exists>v. map_of values i = Some v \<and> length v = hash_Size bank)" for bank i
    using pos [of bank] by (cases "map_of values i") auto
  have "VerifyPCRs lib q values = Inr () \<longleftrightarrow>
     (\<exists>bank. BankHash (q_bank q) = Inr bank \<and>
       (\<forall>i \<in> set (q_pcrs q). (case map_of values i of None \<Rightarrow> True | Some v \<Rightarrow> length v = hash_Size bank) \<and>
          (\<exists>v. map_of values i = Some v \<and> v \<noteq> []))) \<and>
     q_pcrDigest q = lib_sum lib (q_hash q) (concat (map (the \<circ> map_of values) (sort (q_pcrs q))))"
    by (auto simp: VerifyPCRs_def PCRDigest_def bindE_Inr_iff pcr_concat_iff list_all_iff)
  then show ?thesis by (simp only: entry)
qed

end
