(* ===== verification/Api_Err.thy ===== *)
theory Api_Err
  imports VMM_Prelude
begin

text \<open>
  The sentinel errors of \<open>src/internal/apierr/apierr.go\<close> and the two of the VM
  service.  A wrapped error is represented by the sentinel \<open>errors.Is\<close> finds in
  it, and an error that wraps none of them by \<open>ErrOther\<close> with a label of the
  place it comes from; the message text is not kept.
\<close>

datatype error =
    ErrNotFound
  | ErrInvalid
  | ErrConflict
  | ErrUnsupported
  | ErrTimeout
  | ErrFailed
  | ErrNoPolicy
  | ErrOther string

type_synonym 'a res = "error + 'a"

text \<open>The HTTP status and code of an error, \<open>statusFor\<close> of the REST layer.\<close>

definition rest_statusFor :: "error \<Rightarrow> nat \<times> string" where
  "rest_statusFor e =
     (case e of
        ErrNotFound \<Rightarrow> (404, ''not_found'')
      | ErrInvalid \<Rightarrow> (400, ''invalid_request'')
      | ErrConflict \<Rightarrow> (409, ''conflict'')
      | ErrUnsupported \<Rightarrow> (501, ''unsupported'')
      | ErrTimeout \<Rightarrow> (504, ''timeout'')
      | ErrFailed \<Rightarrow> (500, ''vm_failed'')
      | _ \<Rightarrow> (500, ''internal_error''))"

text \<open>The status of an error, \<open>statusFor\<close> of the metadata service.\<close>

definition imds_statusFor :: "error \<Rightarrow> nat" where
  "imds_statusFor e =
     (case e of
        ErrInvalid \<Rightarrow> 400
      | ErrNotFound \<Rightarrow> 404
      | ErrConflict \<Rightarrow> 409
      | _ \<Rightarrow> 500)"

end
