(* ===== verification/IMDS_Types.thy ===== *)
theory IMDS_Types
  imports Nonce TPM_Quote Api_Err
begin

text \<open>
  The contract between the metadata service and its attestors,
  \<open>src/internal/imds/imds.go\<close>: instances, stages, quote requests and results,
  the rule that releases user-data, and the attestor that only checks nonces.
  A result message is kept as a value that names its format string and its
  arguments instead of as text.
\<close>

section \<open>Data\<close>

type_synonym stage = string

definition StageInitrd :: stage where "StageInitrd = ''initrd''"
definition StageReady :: stage where "StageReady = ''ready''"

lemmas stage_defs = StageInitrd_def StageReady_def

definition Stage_Valid :: "stage \<Rightarrow> bool" where
  "Stage_Valid s \<longleftrightarrow> s = StageInitrd \<or> s = StageReady"

record imds_instance =
  in_id :: string
  in_name :: string
  in_hostname :: string
  in_region :: string
  in_zone :: string
  in_sshAuthorizedKeys :: "string list"
  in_kubernetesVersion :: string
  in_metadata :: "(string, string) gomap"
  in_userData :: bytes
  in_userDataReleased :: bool

record quote_request =
  rq_stage :: stage
  rq_nonce :: string
  rq_akPub :: bytes
  rq_ekPub :: bytes
  rq_quote :: bytes
  rq_signature :: bytes
  rq_pcrs :: "(string, (string, string) gomap) gomap"
  rq_eventLog :: bytes
  rq_userspaceLog :: bytes

text \<open>The messages of the attestors; the mismatch entries are index, expected
  value, Kubernetes version and observed value.\<close>

datatype message =
    MsgNone
  | MsgUnknownNonce
  | MsgNoopMatched
  | MsgUnknownStage stage
  | MsgNoPolicy
  | MsgQuote quote_error
  | MsgSignature quote_error
  | MsgNonceMismatch
  | MsgBank string
  | MsgPCRLacks nat
  | MsgPCRNotHex nat
  | MsgPCRDigest quote_error
  | MsgPCRsMissing "nat list" stage "nat list"
  | MsgPinMismatch string string
  | MsgPCR11 string string string
  | MsgGoldenMismatch "(nat \<times> string \<times> string \<times> string) list" "bool option"
  | MsgNoGolden "nat list"
  | MsgNotEnrolled
  | MsgVerified string string string "(nat \<times> string) list"

record quote_result =
  qr_stage :: stage
  qr_verified :: bool
  qr_userDataReleased :: bool
  qr_message :: message

definition result_of :: "bool \<Rightarrow> message \<Rightarrow> quote_result" where
  "result_of ok msg = \<lparr>qr_stage = [], qr_verified = ok, qr_userDataReleased = False, qr_message = msg\<rparr>"

lemma result_of_simps [simp]:
  "qr_verified (result_of ok msg) = ok" "qr_message (result_of ok msg) = msg"
  by (simp_all add: result_of_def)

definition ReleasesUserData :: "stage \<Rightarrow> bool \<Rightarrow> bool" where
  "ReleasesUserData stg verified \<longleftrightarrow> verified \<and> stg = StageInitrd"

section \<open>The no-op attestor\<close>

text \<open>Its store is built on first use.\<close>

record noop_attestor =
  na_nonces :: "nonce_store option"

definition noop_store :: "noop_attestor \<Rightarrow> nonce_store" where
  "noop_store a = (case na_nonces a of None \<Rightarrow> Store_New [] | Some s \<Rightarrow> s)"

definition Noop_Nonce :: "bytes option \<Rightarrow> timestamp \<Rightarrow> string \<Rightarrow> noop_attestor \<Rightarrow> (string option \<times> noop_attestor) option" where
  "Noop_Nonce raw now vmID a =
     map_option (\<lambda>(r, s). (r, a\<lparr>na_nonces := Some s\<rparr>)) (Store_Issue raw now vmID (noop_store a))"

definition Noop_SubmitQuote :: "timestamp \<Rightarrow> string \<Rightarrow> quote_request \<Rightarrow> noop_attestor \<Rightarrow> quote_result res \<times> noop_attestor" where
  "Noop_SubmitQuote now vmID req a =
     (case Store_Consume now vmID (rq_nonce req) (noop_store a) of
        (ok, s) \<Rightarrow> (Inr (if ok then result_of True MsgNoopMatched else result_of False MsgUnknownNonce),
                    a\<lparr>na_nonces := Some s\<rparr>))"

section \<open>The attestor interface\<close>

text \<open>
  What every attestor promises its callers: a quote verifies only with a nonce
  that is outstanding for the VM and young enough, and submitting it spends the
  nonce; issuing makes nonces outstanding and nothing else does.
\<close>

locale attestor =
  fixes submit :: "timestamp \<Rightarrow> string \<Rightarrow> quote_request \<Rightarrow> 'a \<Rightarrow> quote_result res \<times> 'a"
    and issue_nonce :: "bytes option \<Rightarrow> timestamp \<Rightarrow> string \<Rightarrow> 'a \<Rightarrow> (string option \<times> 'a) option"
    and store_of :: "'a \<Rightarrow> nonce_store"
    and inv :: "'a \<Rightarrow> bool"
  assumes store_ok: "inv a \<Longrightarrow> store_inv (store_of a)"
    and submit_keeps: "inv a \<Longrightarrow> inv (snd (submit now vm req a))"
    and submit_store: "store_of (snd (submit now vm req a)) =
      snd (Store_Consume now vm (rq_nonce req) (store_of a))"
    and submit_fresh: "fst (submit now vm req a) = Inr r \<Longrightarrow> qr_verified r \<Longrightarrow>
      fst (Store_Consume now vm (rq_nonce req) (store_of a))"
    and issue_nonce_store: "issue_nonce raw now vm a = Some (i, a') \<Longrightarrow>
      Store_Issue raw now vm (store_of a) = Some (i, store_of a')"
    and issue_nonce_keeps: "inv a \<Longrightarrow> issue_nonce raw now vm a = Some (i, a') \<Longrightarrow> inv a'"
begin

text \<open>A nonce verifies at most one quote per issue.\<close>

primrec submits :: "(timestamp \<times> string \<times> quote_request) list \<Rightarrow> 'a \<Rightarrow> 'a" where
  "submits [] a = a"
| "submits (q # qs) a = submits qs (snd (submit (fst q) (fst (snd q)) (snd (snd q)) a))"

lemma spent_stays_spent:
  assumes "inv a" "outstanding (store_of a) vm n = None"
  shows "outstanding (store_of (submits qs a)) vm n = None \<and> inv (submits qs a)"
  using assms
proof (induction qs arbitrary: a)
  case (Cons q qs)
  let ?a = "snd (submit (fst q) (fst (snd q)) (snd (snd q)) a)"
  have "outstanding (store_of ?a) vm n = None"
    using Cons.prems store_ok by (simp add: submit_store consume_outstanding outstanding_sweep)
  with Cons submit_keeps show ?case by simp
qed simp

lemma no_replay:
  assumes "inv a" "fst (submit now' vm req' (submits qs (snd (submit now vm req a)))) = Inr r"
    and "rq_nonce req' = rq_nonce req"
  shows "\<not> qr_verified r"
proof
  assume v: "qr_verified r"
  let ?a = "submits qs (snd (submit now vm req a))"
  have "outstanding (store_of (snd (submit now vm req a))) vm (rq_nonce req) = None"
    using assms(1) store_ok by (simp add: submit_store consume_outstanding)
  from spent_stays_spent [OF submit_keeps [OF assms(1)] this]
  have "outstanding (store_of ?a) vm (rq_nonce req') = None" by (simp add: assms(3))
  with submit_fresh [OF assms(2) v] show False by (simp add: consume_accepts)
qed

end

definition noop_inv :: "noop_attestor \<Rightarrow> bool" where
  "noop_inv a \<longleftrightarrow> store_inv (noop_store a)"

interpretation noop: attestor Noop_SubmitQuote Noop_Nonce noop_store noop_inv
proof
  fix a now vm req r raw a'
  show "noop_inv a \<Longrightarrow> store_inv (noop_store a)" by (simp add: noop_inv_def)
  show st: "noop_store (snd (Noop_SubmitQuote now vm req a)) =
      snd (Store_Consume now vm (rq_nonce req) (noop_store a))"
    by (simp add: Noop_SubmitQuote_def noop_store_def split: prod.splits)
  show "noop_inv a \<Longrightarrow> noop_inv (snd (Noop_SubmitQuote now vm req a))"
    unfolding noop_inv_def st by (rule consume_inv)
  show "fst (Noop_SubmitQuote now vm req a) = Inr r \<Longrightarrow> qr_verified r \<Longrightarrow>
      fst (Store_Consume now vm (rq_nonce req) (noop_store a))"
    by (auto simp: Noop_SubmitQuote_def split: prod.splits if_splits)
  show iss: "Noop_Nonce raw now vm a = Some (i, a') \<Longrightarrow>
      Store_Issue raw now vm (noop_store a) = Some (i, noop_store a')" for i
    by (auto simp: Noop_Nonce_def noop_store_def)
  show "noop_inv a \<Longrightarrow> Noop_Nonce raw now vm a = Some (i, a') \<Longrightarrow> noop_inv a'" for i
    using iss [of i] issue_outstanding(2) issue_failed
    by (cases raw) (fastforce simp: noop_inv_def)+
qed

end
