(* ===== verification/IMDS_Handler.thy ===== *)
theory IMDS_Handler
  imports Go_Http IMDS_Types
begin

text \<open>
  The metadata service, \<open>src/internal/imds\<close> (\<open>keys.go\<close>, \<open>handler.go\<close>,
  \<open>userdata.go\<close>): the key table and the hwdb record made from it, the router, the
  resolution of the caller, one function per key, and the credential envelope.
  The VM service, the attestor, the report sink and the artifacts are the fields of
  \<open>deps\<close>, as in the code; they act on a state the handlers pass on.  A JSON body
  that is sent is kept as the value it encodes; decoding a body and checking that
  it is JSON are arguments.  Logging is left out.
\<close>

section \<open>Keys\<close>

definition Vendor :: string where "Vendor = ''giantswarm''"
definition Address :: string where "Address = ''169.254.169.254''"
definition BasePath :: string where "BasePath = ''/giantswarm/v1''"
definition DataURL :: string where "DataURL = ''http://'' @ Address @ BasePath"
definition HwdbMatch :: string where "HwdbMatch = ''dmi:*:svnGiantSwarm:*''"

record key =
  k_path :: string
  k_pattern :: string
  k_method :: string
  k_property :: string

definition Key_pattern :: "key \<Rightarrow> string" where
  "Key_pattern k = (if k_pattern k \<noteq> [] then k_pattern k else k_path k)"

definition Keys :: "key list" where
  "Keys =
     [\<lparr>k_path = ''/hostname'', k_pattern = [], k_method = MethodGet, k_property = ''IMDS_KEY_HOSTNAME''\<rparr>,
      \<lparr>k_path = ''/region'', k_pattern = [], k_method = MethodGet, k_property = ''IMDS_KEY_REGION''\<rparr>,
      \<lparr>k_path = ''/zone'', k_pattern = [], k_method = MethodGet, k_property = ''IMDS_KEY_ZONE''\<rparr>,
      \<lparr>k_path = ''/public-keys/0'', k_pattern = ''/public-keys/{index}'', k_method = MethodGet, k_property = ''IMDS_KEY_SSH_KEY''\<rparr>,
      \<lparr>k_path = ''/user-data'', k_pattern = [], k_method = MethodGet, k_property = []\<rparr>,
      \<lparr>k_path = ''/instance-id'', k_pattern = [], k_method = MethodGet, k_property = []\<rparr>,
      \<lparr>k_path = ''/kubernetes-version'', k_pattern = [], k_method = MethodGet, k_property = []\<rparr>,
      \<lparr>k_path = ''/public-keys/'', k_pattern = ''/public-keys/{$}'', k_method = MethodGet, k_property = []\<rparr>,
      \<lparr>k_path = ''/metadata/'', k_pattern = ''/metadata/{key}'', k_method = MethodGet, k_property = []\<rparr>,
      \<lparr>k_path = ''/attest/nonce'', k_pattern = [], k_method = MethodGet, k_property = []\<rparr>,
      \<lparr>k_path = ''/attest/quote'', k_pattern = [], k_method = MethodPost, k_property = []\<rparr>,
      \<lparr>k_path = ''/report'', k_pattern = [], k_method = MethodPost, k_property = []\<rparr>,
      \<lparr>k_path = ''/sysupdate/'', k_pattern = ''/sysupdate/{component}/{file}'', k_method = MethodGet, k_property = []\<rparr>]"

text \<open>The record after its comment header.\<close>

definition nl :: string where "nl = [CHR 0x0A]"

definition HwdbRecord :: "string \<Rightarrow> string" where
  "HwdbRecord header =
     header @ HwdbMatch @ nl @ '' IMDS_VENDOR='' @ Vendor @ nl @ '' IMDS_DATA_URL='' @ DataURL @ nl @
     '' IMDS_ADDRESS_IPV4='' @ Address @ nl @
     concat (map (\<lambda>k. if k_property k \<noteq> [] then '' '' @ k_property k @ ''='' @ k_path k @ nl else []) Keys)"

section \<open>Responses\<close>

datatype imds_body = BEmpty | BText string | BQuote quote_result | BFile bytes

type_synonym response = "imds_body http_response"

definition textPlain :: string where "textPlain = ''text/plain; charset=utf-8''"
definition applicationJSON :: string where "applicationJSON = ''application/json''"
definition octetStream :: string where "octetStream = ''application/octet-stream''"
definition maxJSONBody :: nat where "maxJSONBody = 8 * 2 ^ 20"
definition userDataGatedBody :: string where
  "userDataGatedBody = ''user-data is released after the initrd-stage attestation verifies''"
definition userDataRetryAfter :: string where "userDataRetryAfter = ''2''"

definition writeText :: "nat \<Rightarrow> string \<Rightarrow> response" where
  "writeText status body =
     \<lparr>rs_status = status, rs_header = [(''Content-Type'', textPlain), (''Content-Length'', itoa_nat (length body))],
      rs_body = BText body\<rparr>"

definition notFound :: response where
  "notFound = \<lparr>rs_status = 404, rs_header = [(''Content-Type'', textPlain), (''Content-Length'', ''0'')], rs_body = BEmpty\<rparr>"

definition noContent :: response where
  "noContent = \<lparr>rs_status = 204, rs_header = [(''Content-Type'', textPlain)], rs_body = BEmpty\<rparr>"

definition writeJSON :: "nat \<Rightarrow> quote_result \<Rightarrow> response" where
  "writeJSON status v = \<lparr>rs_status = status, rs_header = [(''Content-Type'', applicationJSON)], rs_body = BQuote v\<rparr>"

section \<open>Dependencies\<close>

datatype open_error = FsNotExist | FsInvalid | FsOther

text \<open>An open file: what \<open>Stat\<close> says of it (whether it is a directory) if it
  succeeds, and its contents.\<close>

record art_file =
  fi_isDir :: "bool option"
  fi_data :: bytes

record 's deps =
  dp_lookupByIP :: "netaddr \<Rightarrow> 's \<Rightarrow> imds_instance option"
  dp_nonce :: "string \<Rightarrow> 's \<Rightarrow> string res \<times> 's"
  dp_submitQuote :: "string \<Rightarrow> quote_request \<Rightarrow> 's \<Rightarrow> quote_result res \<times> 's"
  dp_storeReport :: "string \<Rightarrow> bytes \<Rightarrow> 's \<Rightarrow> unit res \<times> 's"
  dp_open :: "string \<Rightarrow> string \<Rightarrow> open_error + art_file"

text \<open>How bodies are read: the decoder sees at most the given bytes and whether the
  body went on.\<close>

record json_lib =
  js_quote :: "bytes \<Rightarrow> bool \<Rightarrow> quote_request option"
  js_valid :: "bytes \<Rightarrow> bool"

definition remoteAddr :: "http_request \<Rightarrow> netaddr option" where
  "remoteAddr r = Option.bind (ParseAddrPort (hq_remoteAddr r)) Unmap"

definition FSArtifacts_Open :: "(string \<Rightarrow> art_file option) \<Rightarrow> string \<Rightarrow> string \<Rightarrow> open_error + art_file" where
  "FSArtifacts_Open root component name =
     (let p = filepath_Join [component, name] in
      if \<not> ValidPath p then Inl FsInvalid
      else (case root p of None \<Rightarrow> Inl FsNotExist | Some f \<Rightarrow> Inr f))"

section \<open>Key handlers\<close>

datatype handler =
    Plain "imds_instance \<Rightarrow> string"
  | PublicKeyIndex | PublicKey | Metadata | UserData | AttestNonce | AttestQuote | Report | Sysupdate

definition routes :: "(string, handler) gomap" where
  "routes =
     [(''/hostname'', Plain (\<lambda>i. if in_hostname i \<noteq> [] then in_hostname i else in_name i)),
      (''/region'', Plain in_region), (''/zone'', Plain in_zone), (''/instance-id'', Plain in_id),
      (''/kubernetes-version'', Plain in_kubernetesVersion), (''/public-keys/'', PublicKeyIndex),
      (''/public-keys/0'', PublicKey), (''/metadata/'', Metadata), (''/user-data'', UserData),
      (''/attest/nonce'', AttestNonce), (''/attest/quote'', AttestQuote), (''/report'', Report),
      (''/sysupdate/'', Sysupdate)]"

definition plain :: "(imds_instance \<Rightarrow> string) \<Rightarrow> imds_instance \<Rightarrow> response" where
  "plain get inst = (let v = get inst in if v = [] then notFound else writeText 200 v)"

definition publicKeyIndex :: "imds_instance \<Rightarrow> response" where
  "publicKeyIndex inst = writeText 200 (Join nl (map itoa_nat [0..<length (in_sshAuthorizedKeys inst)]))"

definition publicKey :: "string \<Rightarrow> imds_instance \<Rightarrow> response" where
  "publicKey index inst =
     (case Atoi index of
        None \<Rightarrow> notFound
      | Some n \<Rightarrow>
          if n < 0 \<or> n \<ge> int (length (in_sshAuthorizedKeys inst)) then notFound
          else writeText 200 (in_sshAuthorizedKeys inst ! nat n))"

definition metadata :: "string \<Rightarrow> imds_instance \<Rightarrow> response" where
  "metadata k inst = (case map_of (in_metadata inst) k of None \<Rightarrow> notFound | Some v \<Rightarrow> writeText 200 v)"

definition userData :: "imds_instance \<Rightarrow> response" where
  "userData inst =
     (if length (in_userData inst) = 0 then noContent
      else if \<not> in_userDataReleased inst then
        let r = writeText 503 userDataGatedBody in r\<lparr>rs_header := (''Retry-After'', userDataRetryAfter) # rs_header r\<rparr>
      else writeText 200 (bytes_string (in_userData inst)))"

definition attestNonce :: "'s deps \<Rightarrow> imds_instance \<Rightarrow> 's \<Rightarrow> response \<times> 's" where
  "attestNonce d inst s =
     (case dp_nonce d (in_id inst) s of
        (Inl _, s') \<Rightarrow> (writeText 500 ''attestation unavailable'', s')
      | (Inr n, s') \<Rightarrow> (writeText 200 n, s'))"

definition QuoteRequest_validate :: "quote_request \<Rightarrow> unit res" where
  "QuoteRequest_validate q =
     (if \<not> Stage_Valid (rq_stage q) then Inl ErrInvalid
      else if rq_nonce q = [] then Inl ErrInvalid
      else if length (rq_akPub q) = 0 \<or> length (rq_quote q) = 0 \<or> length (rq_signature q) = 0 then Inl ErrInvalid
      else if length (rq_pcrs q) = 0 then Inl ErrInvalid
      else Inr ())"

definition attestQuote :: "'s deps \<Rightarrow> json_lib \<Rightarrow> bytes \<Rightarrow> imds_instance \<Rightarrow> 's \<Rightarrow> response \<times> 's" where
  "attestQuote d js body inst s =
     (case js_quote js (take maxJSONBody body) (length body > maxJSONBody) of
        None \<Rightarrow> (writeText 400 ''malformed quote'', s)
      | Some req \<Rightarrow>
          (case QuoteRequest_validate req of
             Inl _ \<Rightarrow> (writeText 400 ''invalid quote'', s)
           | Inr _ \<Rightarrow>
               (case dp_submitQuote d (in_id inst) req s of
                  (Inl e, s') \<Rightarrow> (writeText (imds_statusFor e) ''quote not processed'', s')
                | (Inr res, s') \<Rightarrow>
                    let res' = res\<lparr>qr_stage := rq_stage req,
                                   qr_userDataReleased := ReleasesUserData (rq_stage req) (qr_verified res)\<rparr>
                    in (writeJSON (if qr_verified res' then 200 else 403) res', s'))))"

definition report :: "'s deps \<Rightarrow> json_lib \<Rightarrow> bytes \<Rightarrow> imds_instance \<Rightarrow> 's \<Rightarrow> response \<times> 's" where
  "report d js body inst s =
     (if length body > maxJSONBody then (writeText 400 ''report not read'', s)
      else if \<not> js_valid js body then (writeText 400 ''report is not valid JSON'', s)
      else
        (case dp_storeReport d (in_id inst) body s of
           (Inl e, s') \<Rightarrow> (writeText (imds_statusFor e) ''report not stored'', s')
         | (Inr _, s') \<Rightarrow> (\<lparr>rs_status = 204, rs_header = [], rs_body = BEmpty\<rparr>, s')))"

definition sysupdate :: "'s deps \<Rightarrow> string \<Rightarrow> string \<Rightarrow> response" where
  "sysupdate d component name =
     (case dp_open d component name of
        Inl e \<Rightarrow> if e = FsNotExist \<or> e = FsInvalid then notFound else writeText 500 ''artifact unavailable''
      | Inr f \<Rightarrow>
          (case fi_isDir f of
             Some False \<Rightarrow>
               \<lparr>rs_status = 200,
                rs_header = [(''Content-Type'', octetStream), (''Content-Length'', itoa_nat (length (fi_data f)))],
                rs_body = BFile (fi_data f)\<rparr>
           | _ \<Rightarrow> notFound))"

text \<open>A handler with the values of its path's wildcards.\<close>

definition value_at :: "nat \<Rightarrow> string list \<Rightarrow> string" where
  "value_at n vs = (if n < length vs then vs ! n else [])"

fun serve_key :: "'s deps \<Rightarrow> json_lib \<Rightarrow> handler \<Rightarrow> string list \<Rightarrow> http_request \<Rightarrow> imds_instance \<Rightarrow> 's \<Rightarrow> response \<times> 's" where
  "serve_key d js (Plain get) vs r inst s = (plain get inst, s)"
| "serve_key d js PublicKeyIndex vs r inst s = (publicKeyIndex inst, s)"
| "serve_key d js PublicKey vs r inst s = (publicKey (value_at 0 vs) inst, s)"
| "serve_key d js Metadata vs r inst s = (metadata (value_at 0 vs) inst, s)"
| "serve_key d js UserData vs r inst s = (userData inst, s)"
| "serve_key d js AttestNonce vs r inst s = attestNonce d inst s"
| "serve_key d js AttestQuote vs r inst s = attestQuote d js (hq_body r) inst s"
| "serve_key d js Report vs r inst s = report d js (hq_body r) inst s"
| "serve_key d js Sysupdate vs r inst s = (sysupdate d (value_at 0 vs) (value_at 1 vs), s)"

section \<open>The handler\<close>

text \<open>The router \<open>Handler\<close> builds from the key table; a key without a route makes
  it panic.\<close>

definition imds_mux :: "handler route list option" where
  "imds_mux =
     those (map (\<lambda>k. map_option
       (\<lambda>h. \<lparr>rt_method = k_method k, rt_segs = parsePattern (BasePath @ Key_pattern k), rt_handler = h\<rparr>)
       (map_of routes (k_path k))) Keys)"

definition imds_resolve :: "'s deps \<Rightarrow> http_request \<Rightarrow> 's \<Rightarrow> imds_instance option" where
  "imds_resolve d r s =
     (case remoteAddr r of None \<Rightarrow> None | Some ip \<Rightarrow> dp_lookupByIP d ip s)"

definition imds_Handler :: "'s deps \<Rightarrow> json_lib \<Rightarrow> http_request \<Rightarrow> 's \<Rightarrow> imds_body http_answer \<times> 's" where
  "imds_Handler d js r s =
     (case imds_resolve d r s of
        None \<Rightarrow> (Response (writeText 403 ''forbidden: client address is not a managed VM''), s)
      | Some inst \<Rightarrow>
          (case ServeMux (the imds_mux) (hq_method r) (hq_path r) of
             Matched h vs \<Rightarrow> (case serve_key d js h vs r inst s of (resp, s') \<Rightarrow> (Response resp, s'))
           | Moved p \<Rightarrow> (Redirect_To p, s)
           | Disallowed ms \<Rightarrow> (Method_Not_Allowed ms, s)
           | NoMatch \<Rightarrow> (Page_Not_Found, s)))"

section \<open>Credentials in user-data\<close>

definition CredentialsKey :: string where "CredentialsKey = ''systemd.credentials''"

record credential =
  cd_name :: string
  cd_text :: string
  cd_data :: bytes

definition validCredentialName :: "string \<Rightarrow> unit res" where
  "validCredentialName name =
     (if name = [] \<or> name = ''.'' \<or> name = ''..'' \<or> length name > 255 then Inl ErrInvalid
      else if list_ex (\<lambda>c. ord c \<le> 32 \<or> ord c \<ge> 0x7F \<or> c = CHR ''/'' \<or> c = CHR '':'') name then Inl ErrInvalid
      else Inr ())"

text \<open>The object that is encoded.\<close>

definition UserDataCredentialsWrapper :: "string \<Rightarrow> bytes \<Rightarrow> (string, credential list) gomap res" where
  "UserDataCredentialsWrapper name payload =
     bindE (validCredentialName name) (\<lambda>_.
     bindE (guardE (length payload \<noteq> 0) ErrInvalid) (\<lambda>_.
       Inr [(CredentialsKey,
         [if utf8_Valid payload \<and> 0 \<notin> set payload
          then \<lparr>cd_name = name, cd_text = bytes_string payload, cd_data = []\<rparr>
          else \<lparr>cd_name = name, cd_text = [], cd_data = payload\<rparr>])]))"

section \<open>Routing\<close>

text \<open>Two patterns are apart when no path matches both.\<close>

fun seg_apart :: "segment \<Rightarrow> segment \<Rightarrow> bool" where
  "seg_apart (Lit a) (Lit b) \<longleftrightarrow> a \<noteq> b"
| "seg_apart (Lit a) (Wild _) \<longleftrightarrow> a = ''/''"
| "seg_apart (Wild _) (Lit b) \<longleftrightarrow> b = ''/''"
| "seg_apart (Wild _) (Wild _) \<longleftrightarrow> False"

definition apart :: "segment list \<Rightarrow> segment list \<Rightarrow> bool" where
  "apart ps qs \<longleftrightarrow> length ps \<noteq> length qs \<or> list_ex (\<lambda>(p, q). seg_apart p q) (zip ps qs)"

lemma seg_apart_ok: "seg_apart p q \<Longrightarrow> seg_ok p s \<Longrightarrow> \<not> seg_ok q s"
  by (cases p; cases q) auto

lemma apart_no_common:
  assumes "apart ps qs" "list_all2 seg_ok ps ss"
  shows "\<not> list_all2 seg_ok qs ss"
proof
  assume "list_all2 seg_ok qs ss"
  with assms have "length ps = length qs" by (metis list_all2_lengthD)
  with assms(1) obtain p q where "(p, q) \<in> set (zip ps qs)" "seg_apart p q"
    by (auto simp: apart_def list_ex_iff)
  then obtain i where "i < length ps" "i < length qs" "seg_apart (ps ! i) (qs ! i)" by (auto simp: set_zip)
  with assms(2) \<open>list_all2 seg_ok qs ss\<close> seg_apart_ok show False by (metis list_all2_nthD)
qed

definition key_segs :: "key \<Rightarrow> segment list" where
  "key_segs k = parsePattern (BasePath @ Key_pattern k)"

definition key_method :: "key \<Rightarrow> string \<Rightarrow> bool" where
  "key_method k m \<longleftrightarrow> m = k_method k \<or> m = MethodHead \<and> k_method k = MethodGet"

lemma keys_apart:
  assumes "k \<in> set Keys" "k' \<in> set Keys" "k \<noteq> k'"
  shows "apart (key_segs k) (key_segs k')"
proof -
  have "list_all (\<lambda>k. list_all (\<lambda>k'. k = k' \<or> apart (key_segs k) (key_segs k')) Keys) Keys" by code_simp
  with assms show ?thesis by (auto simp: list_all_iff)
qed

lemma keys_methods: "k \<in> set Keys \<Longrightarrow> k_method k = MethodGet \<or> k_method k = MethodPost"
  by (auto simp: Keys_def)

lemma keys_routed: "k \<in> set Keys \<Longrightarrow> map_of routes (k_path k) \<noteq> None"
  by (auto simp: Keys_def routes_def)

definition key_route :: "key \<Rightarrow> handler route" where
  "key_route k = \<lparr>rt_method = k_method k, rt_segs = key_segs k, rt_handler = the (map_of routes (k_path k))\<rparr>"

lemma those_map: "(\<And>x. x \<in> set xs \<Longrightarrow> f x = Some (g x)) \<Longrightarrow> those (map f xs) = Some (map g xs)"
  by (induction xs) auto

lemma imds_mux_eq: "imds_mux = Some (map key_route Keys)"
  unfolding imds_mux_def
  by (rule those_map) (use keys_routed in \<open>force simp: key_route_def key_segs_def\<close>)

lemma match_key:
  assumes "k \<in> set Keys" "list_all2 seg_ok (key_segs k) (path_segs p)"
  shows "match_with (map key_route Keys) (k_method k) p = Some (key_route k, wild_values (key_segs k) (path_segs p))"
proof -
  let ?ps = "[(r, rt_segs r). r \<leftarrow> map key_route Keys, rt_method r = k_method k]"
  have "(key_route k, key_segs k) \<in> set ?ps" using assms(1) by (force simp: key_route_def)
  from matchPath_complete [OF this assms(2)] obtain r vs where m: "matchPath ?ps (path_segs p) = Some (r, vs)" by auto
  from matchPath_sound [OF m] obtain k' where k': "k' \<in> set Keys" "r = key_route k'"
    "list_all2 seg_ok (key_segs k') (path_segs p)" "vs = wild_values (key_segs k') (path_segs p)"
    by (auto simp: key_route_def split: if_splits)
  with assms keys_apart apart_no_common have "k' = k" by blast
  with m k' show ?thesis by (simp add: match_with_def)
qed

lemma mux_match_key:
  assumes "k \<in> set Keys" "key_method k m" "list_all2 seg_ok (key_segs k) (path_segs p)"
  shows "mux_match (map key_route Keys) m p = Some (key_route k, wild_values (key_segs k) (path_segs p))"
proof (cases "m = k_method k")
  case True
  with match_key [OF assms(1, 3)] show ?thesis by (simp add: mux_match_def)
next
  case False
  with assms(2) have m: "m = MethodHead" "k_method k = MethodGet" by (auto simp: key_method_def)
  have "rt_method r \<noteq> MethodHead" if "r \<in> set (map key_route Keys)" for r
    using that keys_methods by (force simp: key_route_def method_defs)
  then have "match_with (map key_route Keys) MethodHead p = matchPath [] (path_segs p)"
    by (simp add: match_with_def cong: if_cong) (simp add: comp_def concat_eq_Nil_conv [THEN iffD2])
  moreover have "matchPath [] (path_segs p) = (None :: (handler route \<times> string list) option)"
    using matchPath_sound [of "[]" "path_segs p"] by (cases "matchPath [] (path_segs p) :: (handler route \<times> string list) option") auto
  ultimately show ?thesis using m match_key [OF assms(1, 3)] by (simp add: mux_match_def)
qed

lemma routing_iff:
  "ServeMux (the imds_mux) m p = Matched h vs \<longleftrightarrow>
   cleanPath p = p \<and>
   (\<exists>k. k \<in> set Keys \<and> map_of routes (k_path k) = Some h \<and> key_method k m \<and>
     list_all2 seg_ok (key_segs k) (path_segs p) \<and> vs = wild_values (key_segs k) (path_segs p))"
proof
  assume "ServeMux (the imds_mux) m p = Matched h vs"
  then show "cleanPath p = p \<and> (\<exists>k. k \<in> set Keys \<and> map_of routes (k_path k) = Some h \<and> key_method k m \<and>
     list_all2 seg_ok (key_segs k) (path_segs p) \<and> vs = wild_values (key_segs k) (path_segs p))"
  proof (rule ServeMux_matched)
    fix r
    assume r: "r \<in> set (the imds_mux)" "rt_handler r = h" "list_all2 seg_ok (rt_segs r) (path_segs p)"
      "vs = wild_values (rt_segs r) (path_segs p)" "cleanPath p = p"
      "rt_method r = m \<or> m = MethodHead \<and> rt_method r = MethodGet"
    then obtain k where k: "k \<in> set Keys" "r = key_route k" by (auto simp: imds_mux_eq)
    with r keys_routed [OF k(1)] show ?thesis
      by (intro conjI exI [of _ k]) (auto simp: key_route_def key_method_def)
  qed
next
  assume "cleanPath p = p \<and> (\<exists>k. k \<in> set Keys \<and> map_of routes (k_path k) = Some h \<and> key_method k m \<and>
     list_all2 seg_ok (key_segs k) (path_segs p) \<and> vs = wild_values (key_segs k) (path_segs p))"
  then show "ServeMux (the imds_mux) m p = Matched h vs"
    using mux_match_key by (auto simp: imds_mux_eq ServeMux_def key_route_def Let_def)
qed


text \<open>The hwdb record only names keys the router serves to a GET request.\<close>

lemma hwdb_keys_served:
  assumes "k \<in> set Keys" "k_property k \<noteq> []"
  shows "\<exists>h vs. ServeMux (the imds_mux) MethodGet (BasePath @ k_path k) = Matched h vs"
proof -
  have "list_all (\<lambda>k. k_property k = [] \<or> (k_method k = MethodGet \<and> cleanPath (BasePath @ k_path k) = BasePath @ k_path k \<and>
      list_all2 seg_ok (key_segs k) (path_segs (BasePath @ k_path k)))) Keys" by code_simp
  with assms have k: "k_method k = MethodGet" "cleanPath (BasePath @ k_path k) = BasePath @ k_path k"
      "list_all2 seg_ok (key_segs k) (path_segs (BasePath @ k_path k))" by (auto simp: list_all_iff)
  moreover obtain h where "map_of routes (k_path k) = Some h" using keys_routed [OF assms(1)] by blast
  ultimately show ?thesis
    unfolding routing_iff using assms(1) by (intro exI conjI) (auto simp: key_method_def)
qed

section \<open>Answers\<close>

lemma unknown_client:
  "imds_resolve d r s = None \<Longrightarrow>
   imds_Handler d js r s = (Response (writeText 403 ''forbidden: client address is not a managed VM''), s)"
  by (simp add: imds_Handler_def)

lemma writeText_simps [simp]:
  "rs_status (writeText n b) = n" "rs_body (writeText n b) = BText b" "rs_status notFound = 404" "rs_body notFound = BEmpty"
  "rs_status noContent = 204" "rs_body noContent = BEmpty" "rs_status (writeJSON n q) = n" "rs_body (writeJSON n q) = BQuote q"
  by (simp_all add: writeText_def notFound_def noContent_def writeJSON_def)

lemma userData_status:
  "rs_status (userData inst) =
   (if in_userData inst = [] then 204 else if in_userDataReleased inst then 200 else 503)"
  by (simp add: userData_def Let_def)

lemma userData_body:
  "in_userData inst \<noteq> [] \<Longrightarrow> in_userDataReleased inst \<Longrightarrow> rs_body (userData inst) = BText (bytes_string (in_userData inst))"
  "in_userData inst \<noteq> [] \<Longrightarrow> \<not> in_userDataReleased inst \<Longrightarrow>
     rs_body (userData inst) = BText userDataGatedBody \<and> map_of (rs_header (userData inst)) ''Retry-After'' = Some userDataRetryAfter"
  by (simp_all add: userData_def Let_def)

definition user_data_path :: string where "user_data_path = BasePath @ ''/user-data''"

lemma serve_user_data:
  assumes "m = MethodGet \<or> m = MethodHead"
  shows "ServeMux (the imds_mux) m user_data_path = Matched UserData []"
proof -
  let ?k = "\<lparr>k_path = ''/user-data'', k_pattern = [], k_method = MethodGet, k_property = []\<rparr>"
  have "?k \<in> set Keys" "map_of routes (k_path ?k) = Some UserData" by (simp_all add: Keys_def routes_def)
  moreover have "cleanPath user_data_path = user_data_path" "list_all2 seg_ok (key_segs ?k) (path_segs user_data_path)"
    "wild_values (key_segs ?k) (path_segs user_data_path) = []" by code_simp+
  ultimately show ?thesis
    unfolding routing_iff using assms by (auto simp: key_method_def intro!: exI [of _ ?k])
qed

end
