(* ===== verification/Attest.thy ===== *)
theory Attest
  imports IMDS_Types
begin

text \<open>
  The attestation verifier: policies of \<open>src/internal/attest/policy.go\<close> and
  the verifier of \<open>verifier.go\<close> with its per-VM key pin and verdicts.  The
  policy provider is a function argument.  The lemmas characterise acceptance by
  a flat specification (\<open>acceptable\<close>), give the pin its trust-on-first-use
  contract under any interleaving of the verifier's atomic operations, and make
  the verifier an instance of the attestor interface.
\<close>

section \<open>Policies\<close>

definition Bank :: string where "Bank = ''sha256''"
definition PhaseInitrd :: string where "PhaseInitrd = ''enter-initrd''"
definition PhaseReady :: string where "PhaseReady = ''enter-initrd:leave-initrd:sysinit:ready''"
definition PCRUKI :: nat where "PCRUKI = 11"
definition PCRSysext :: nat where "PCRSysext = 13"
definition maxPCR :: int where "maxPCR = 23"
definition firmwarePCRs :: "nat list" where "firmwarePCRs = [0, 1, 2, 3, 4, 5, 6, 7]"
definition goldenFirmwarePCRs :: "nat list" where "goldenFirmwarePCRs = [0, 2, 3, 4, 6, 7]"
definition GoldenIndexes :: "nat list" where "GoldenIndexes = goldenFirmwarePCRs @ [PCRSysext]"
definition OSSeparator :: string where "OSSeparator = ''os-separator''"

lemmas pcr_defs = PCRUKI_def PCRSysext_def firmwarePCRs_def goldenFirmwarePCRs_def

record firmware =
  fw_sha256 :: string
  fw_package :: string
  fw_version :: string

record policy =
  po_imageID :: string
  po_imageVersion :: string
  po_pcr11 :: "(string, string) gomap"
  po_pcr13 :: "(string, string) gomap"
  po_golden :: "(string, (int, string) gomap) gomap"
  po_goldenFirmware :: "firmware option"
  po_kubernetesVersion :: string

text \<open>\<open>strings.ToLower\<close> on the ASCII text a digest consists of.\<close>

definition lower_char :: "char \<Rightarrow> char" where
  "lower_char c = (if is_upper c then char_of (ord c + 32) else c)"

definition ToLower :: "string \<Rightarrow> string" where
  "ToLower s = map lower_char s"

definition Firmware_SameBuild :: "firmware \<Rightarrow> firmware \<Rightarrow> bool" where
  "Firmware_SameBuild f g \<longleftrightarrow> ToLower (fw_sha256 f) = ToLower (fw_sha256 g)"

definition string_bytes :: "string \<Rightarrow> bytes" where
  "string_bytes s = map (\<lambda>c. word_of_nat (ord c)) s"

definition SysextMeasurement :: "string \<Rightarrow> string \<Rightarrow> string" where
  "SysextMeasurement sha256Hex file = ToLower sha256Hex @ ''  '' @ file"

definition SysextPCR :: "tpm_lib \<Rightarrow> string \<Rightarrow> string" where
  "SysextPCR lib measurement =
     hex_EncodeToString (foldl (\<lambda>pcr word. lib_sum lib SHA256 (pcr @ lib_sum lib SHA256 (string_bytes word)))
       (replicate 32 0) [OSSeparator, measurement])"

definition checkDigest :: "string \<Rightarrow> unit res" where
  "checkDigest v =
     (case hex_DecodeString v of
        None \<Rightarrow> Inl (ErrOther ''not hex'')
      | Some b \<Rightarrow> if length b \<noteq> 32 then Inl (ErrOther ''want 32 bytes'') else Inr ())"

fun all_ok :: "('a \<Rightarrow> unit res) \<Rightarrow> 'a list \<Rightarrow> unit res" where
  "all_ok f [] = Inr ()"
| "all_ok f (x # xs) = bindE (f x) (\<lambda>_. all_ok f xs)"

definition Policy_Validate :: "policy \<Rightarrow> unit res" where
  "Policy_Validate p =
     bindE (all_ok (\<lambda>phase. case map_of (po_pcr11 p) phase of
         None \<Rightarrow> Inl (ErrOther ''pcr11 lacks phase'')
       | Some v \<Rightarrow> checkDigest v) [PhaseInitrd, PhaseReady]) (\<lambda>_.
     bindE (all_ok (\<lambda>(version, v). if version = [] then Inl (ErrOther ''pcr13 without version'') else checkDigest v)
       (po_pcr13 p)) (\<lambda>_.
     bindE (case po_goldenFirmware p of None \<Rightarrow> Inr () | Some f \<Rightarrow> checkDigest (fw_sha256 f)) (\<lambda>_.
     all_ok (\<lambda>(bank, values).
       if bank \<noteq> Bank then Inl (ErrOther ''golden bank'')
       else all_ok (\<lambda>(idx, v). if idx < 0 \<or> idx > maxPCR then Inl (ErrOther ''golden index'') else checkDigest v) values)
       (po_golden p))))"

text \<open>\<open>decoded\<close> is the outcome of the JSON decoder.\<close>

definition ParsePolicy :: "policy option \<Rightarrow> policy res" where
  "ParsePolicy decoded =
     (case decoded of
        None \<Rightarrow> Inl (ErrOther ''policy json'')
      | Some p \<Rightarrow> bindE (Policy_Validate p) (\<lambda>_. Inr p))"

definition Policy_golden :: "policy \<Rightarrow> nat \<Rightarrow> string \<times> bool" where
  "Policy_golden p index =
     (case map_of (po_golden p) Bank of
        None \<Rightarrow> ([], False)
      | Some values \<Rightarrow> (case map_of values (int index) of None \<Rightarrow> ([], False) | Some v \<Rightarrow> (ToLower v, True)))"

definition Policy_expected :: "policy \<Rightarrow> nat \<Rightarrow> string \<times> string \<times> bool" where
  "Policy_expected p index =
     (case (if index = PCRSysext \<and> po_kubernetesVersion p \<noteq> [] then map_of (po_pcr13 p) (po_kubernetesVersion p) else None) of
        Some v \<Rightarrow> (ToLower v, po_kubernetesVersion p, True)
      | None \<Rightarrow> (case Policy_golden p index of (want, ok) \<Rightarrow> (want, [], ok)))"

definition PhaseFor :: "stage \<Rightarrow> string" where
  "PhaseFor stg = (if stg = StageReady then PhaseReady else PhaseInitrd)"

definition RequiredPCRs :: "stage \<Rightarrow> nat list" where
  "RequiredPCRs stg = firmwarePCRs @ [PCRUKI] @ (if stg = StageReady then [PCRSysext] else [])"

definition GoldenFromPCRs :: "(nat, string) gomap \<Rightarrow> (nat, string) gomap" where
  "GoldenFromPCRs pcrs =
     fold (\<lambda>i out. case map_of pcrs i of None \<Rightarrow> out | Some v \<Rightarrow> AList.update i v out) GoldenIndexes []"

section \<open>The verifier\<close>

record result =
  rs_verified :: bool
  rs_message :: message
  rs_at :: timestamp
  rs_akFingerprint :: string
  rs_pcrs :: "(nat, string) gomap"
  rs_learned :: "nat list"

record vm_state =
  vs_ak :: string
  vs_results :: "(stage, result) gomap"

record verifier =
  vf_learnGolden :: bool
  vf_firmware :: "firmware option"
  vf_nonces :: nonce_store
  vf_vms :: "(string, vm_state) gomap"

definition Verifier_New :: "bool \<Rightarrow> firmware option \<Rightarrow> verifier" where
  "Verifier_New learn fw = \<lparr>vf_learnGolden = learn, vf_firmware = fw, vf_nonces = Store_New [], vf_vms = []\<rparr>"

definition Verifier_Nonce :: "bytes option \<Rightarrow> timestamp \<Rightarrow> string \<Rightarrow> verifier \<Rightarrow> (string option \<times> verifier) option" where
  "Verifier_Nonce raw now vmID v =
     map_option (\<lambda>(r, s). (r, v\<lparr>vf_nonces := s\<rparr>)) (Store_Issue raw now vmID (vf_nonces v))"

definition stateLocked :: "string \<Rightarrow> verifier \<Rightarrow> vm_state" where
  "stateLocked vmID v =
     (case map_of (vf_vms v) vmID of None \<Rightarrow> \<lparr>vs_ak = [], vs_results = []\<rparr> | Some st \<Rightarrow> st)"

definition verifier_store :: "string \<Rightarrow> stage \<Rightarrow> result \<Rightarrow> verifier \<Rightarrow> verifier" where
  "verifier_store vmID stg r v =
     (let st = stateLocked vmID v
      in v\<lparr>vf_vms := AList.update vmID (st\<lparr>vs_results := AList.update stg r (vs_results st)\<rparr>) (vf_vms v)\<rparr>)"

definition pinned :: "string \<Rightarrow> verifier \<Rightarrow> string \<times> bool" where
  "pinned vmID v =
     (case map_of (vf_vms v) vmID of None \<Rightarrow> ([], False) | Some st \<Rightarrow> (vs_ak st, vs_ak st \<noteq> []))"

definition enroll :: "string \<Rightarrow> stage \<Rightarrow> string \<Rightarrow> verifier \<Rightarrow> bool \<times> verifier" where
  "enroll vmID stg fingerprint v =
     (let st = stateLocked vmID v;
          put = (\<lambda>st. v\<lparr>vf_vms := AList.update vmID st (vf_vms v)\<rparr>)
      in if vs_ak st = [] \<and> stg = StageInitrd then (True, put (st\<lparr>vs_ak := fingerprint\<rparr>))
         else if vs_ak st = [] then (False, put st)
         else (vs_ak st = fingerprint, put st))"

definition Verifier_Results :: "verifier \<Rightarrow> string \<Rightarrow> (stage, result) gomap option" where
  "Verifier_Results v vmID = map_option vs_results (map_of (vf_vms v) vmID)"

definition Verifier_Result :: "verifier \<Rightarrow> string \<Rightarrow> stage \<Rightarrow> result option" where
  "Verifier_Result v vmID stg =
     (case map_of (vf_vms v) vmID of None \<Rightarrow> None | Some st \<Rightarrow> map_of (vs_results st) stg)"

definition Verifier_Forget :: "string \<Rightarrow> verifier \<Rightarrow> verifier" where
  "Verifier_Forget vmID v =
     v\<lparr>vf_vms := AList.delete vmID (vf_vms v), vf_nonces := Store_Forget vmID (vf_nonces v)\<rparr>"

definition short :: "string \<Rightarrow> string" where
  "short fingerprint = (if length fingerprint > 16 then take 16 fingerprint else fingerprint)"

fun decodePCRs :: "(string, string) gomap \<Rightarrow> nat list \<Rightarrow> message + (nat, bytes) gomap" where
  "decodePCRs bank [] = Inr []"
| "decodePCRs bank (i # idx) =
     (case map_of bank (itoa_nat i) of
        None \<Rightarrow> Inl (MsgPCRLacks i)
      | Some hexValue \<Rightarrow>
          (case hex_DecodeString hexValue of
             None \<Rightarrow> Inl (MsgPCRNotHex i)
           | Some b \<Rightarrow> bindE (decodePCRs bank idx) (\<lambda>values. Inr ((i, b) # values))))"

definition hexPCRs :: "(nat, bytes) gomap \<Rightarrow> (nat, string) gomap" where
  "hexPCRs values = map (\<lambda>(i, b). (i, hex_EncodeToString b)) values"

definition missingPCRs :: "nat list \<Rightarrow> nat list \<Rightarrow> nat list" where
  "missingPCRs have need = sort (filter (\<lambda>i. i \<notin> set have) need)"

text \<open>\<open>firmwareVerdict\<close>: whether this server boots the recorded build, unknown
  when either is.\<close>

definition firmwareVerdict :: "firmware option \<Rightarrow> firmware option \<Rightarrow> bool option" where
  "firmwareVerdict booted recorded =
     (case (recorded, booted) of
        (Some r, Some b) \<Rightarrow> Some (Firmware_SameBuild r b)
      | _ \<Rightarrow> None)"

record comparison =
  cm_mismatched :: "(nat \<times> string \<times> string \<times> string) list"
  cm_unknown :: "nat list"
  cm_learned :: "(nat \<times> string) list"
  cm_sysext :: string
  cm_firmware :: bool

definition pcr_value :: "(nat, string) gomap \<Rightarrow> nat \<Rightarrow> string" where
  "pcr_value pcrs i = (case map_of pcrs i of None \<Rightarrow> [] | Some v \<Rightarrow> v)"

definition compare :: "bool \<Rightarrow> policy \<Rightarrow> (nat, string) gomap \<Rightarrow> nat \<Rightarrow> comparison \<Rightarrow> comparison" where
  "compare learn pol pcrs index c =
     (let got = pcr_value pcrs index in
      case Policy_expected pol index of
        (want, kubernetes, ok) \<Rightarrow>
          if \<not> ok \<and> (learn \<or> index = PCRSysext) then c\<lparr>cm_learned := cm_learned c @ [(index, got)]\<rparr>
          else if \<not> ok then c\<lparr>cm_unknown := cm_unknown c @ [index]\<rparr>
          else if want \<noteq> got \<and> kubernetes \<noteq> [] then
            c\<lparr>cm_mismatched := cm_mismatched c @ [(index, want, kubernetes, got)]\<rparr>
          else if want \<noteq> got then
            c\<lparr>cm_mismatched := cm_mismatched c @ [(index, want, [], got)],
              cm_firmware := cm_firmware c \<or> index \<noteq> PCRSysext\<rparr>
          else if kubernetes \<noteq> [] then c\<lparr>cm_sysext := kubernetes\<rparr>
          else c)"

definition compare_all :: "bool \<Rightarrow> policy \<Rightarrow> (nat, string) gomap \<Rightarrow> stage \<Rightarrow> comparison" where
  "compare_all learn pol pcrs stg =
     fold (compare learn pol pcrs) (goldenFirmwarePCRs @ (if stg = StageReady then [PCRSysext] else []))
       \<lparr>cm_mismatched = [], cm_unknown = [], cm_learned = [], cm_sysext = [], cm_firmware = False\<rparr>"

text \<open>
  The checks of \<open>SubmitQuote\<close> between the policy lookup and the enrolment: a
  rejection carries the result recorded so far and the message.
\<close>

definition with_err :: "result \<Rightarrow> ('e \<Rightarrow> message) \<Rightarrow> 'e + 'a \<Rightarrow> (result \<times> message) + 'a" where
  "with_err res f r = (case r of Inl e \<Rightarrow> Inl (res, f e) | Inr x \<Rightarrow> Inr x)"

definition check_quote ::
  "tpm_lib \<Rightarrow> bool \<Rightarrow> firmware option \<Rightarrow> policy \<Rightarrow> string \<times> bool \<Rightarrow> quote_request \<Rightarrow> result \<Rightarrow> (result \<times> message) + result" where
  "check_quote lib learn fw pol pin req res0 =
     bindE (with_err res0 MsgQuote (Parse lib (rq_quote req) (rq_signature req) (rq_akPub req))) (\<lambda>q.
     let res = res0\<lparr>rs_akFingerprint := q_akFingerprint q\<rparr> in
     bindE (with_err res MsgSignature (VerifySignature lib q)) (\<lambda>_.
     bindE (with_err res (\<lambda>_. MsgNonceMismatch) (VerifyNonce (q_extraData q) (rq_nonce req))) (\<lambda>_.
     bindE (guardE (q_bank q = Bank) (res, MsgBank (q_bank q))) (\<lambda>_.
     bindE (with_err res id (decodePCRs (case map_of (rq_pcrs req) Bank of None \<Rightarrow> [] | Some b \<Rightarrow> b) (q_pcrs q))) (\<lambda>values.
     bindE (with_err res MsgPCRDigest (VerifyPCRs lib q values)) (\<lambda>_.
     let res = res\<lparr>rs_pcrs := hexPCRs values\<rparr>;
         missing = missingPCRs (q_pcrs q) (RequiredPCRs (rq_stage req)) in
     bindE (guardE (missing = []) (res, MsgPCRsMissing (sort (q_pcrs q)) (rq_stage req) missing)) (\<lambda>_.
     bindE (guardE (\<not> (snd pin \<and> fst pin \<noteq> q_akFingerprint q))
       (res, MsgPinMismatch (short (q_akFingerprint q)) (short (fst pin)))) (\<lambda>_.
     let phase = PhaseFor (rq_stage req);
         want = ToLower (case map_of (po_pcr11 pol) phase of None \<Rightarrow> [] | Some v \<Rightarrow> v);
         got = pcr_value (rs_pcrs res) PCRUKI in
     bindE (guardE (want = got) (res, MsgPCR11 phase want got)) (\<lambda>_.
     let c = compare_all learn pol (rs_pcrs res) (rq_stage req);
         res = res\<lparr>rs_learned := map fst (cm_learned c)\<rparr> in
     bindE (guardE (cm_mismatched c = [])
       (res, MsgGoldenMismatch (cm_mismatched c)
          (if cm_firmware c then firmwareVerdict fw (po_goldenFirmware pol) else None))) (\<lambda>_.
     bindE (guardE (cm_unknown c = []) (res, MsgNoGolden (cm_unknown c))) (\<lambda>_.
     Inr (res\<lparr>rs_verified := True,
          rs_message := MsgVerified (short (q_akFingerprint q)) phase (cm_sysext c) (cm_learned c)\<rparr>))))))))))))"

definition reject :: "string \<Rightarrow> stage \<Rightarrow> result \<Rightarrow> message \<Rightarrow> verifier \<Rightarrow> quote_result res \<times> verifier" where
  "reject vmID stg res msg v =
     (Inr (result_of False msg), verifier_store vmID stg (res\<lparr>rs_message := msg\<rparr>) v)"

definition finish_quote :: "string \<Rightarrow> stage \<Rightarrow> result \<Rightarrow> verifier \<Rightarrow> quote_result res \<times> verifier" where
  "finish_quote vmID stg res v =
     (case enroll vmID stg (rs_akFingerprint res) v of
        (True, v1) \<Rightarrow> (Inr (result_of True (rs_message res)), verifier_store vmID stg res v1)
      | (False, v1) \<Rightarrow>
          let res = res\<lparr>rs_verified := False\<rparr> in
          (case pinned vmID v1 of
             (p, True) \<Rightarrow> reject vmID stg res (MsgPinMismatch (short (rs_akFingerprint res)) (short p)) v1
           | (p, False) \<Rightarrow> reject vmID stg res MsgNotEnrolled v1))"

text \<open>\<open>at\<close> is the time of the verdict, \<open>now\<close> the later clock reading of the nonce
  store; \<open>policies\<close> is the policy provider.\<close>

definition SubmitQuote ::
  "tpm_lib \<Rightarrow> (string \<Rightarrow> policy res) \<Rightarrow> timestamp \<Rightarrow> timestamp \<Rightarrow> string \<Rightarrow> quote_request \<Rightarrow> verifier \<Rightarrow>
   quote_result res \<times> verifier" where
  "SubmitQuote lib policies at now vmID req v0 =
     (let res = \<lparr>rs_verified = False, rs_message = MsgNone, rs_at = at, rs_akFingerprint = [],
                 rs_pcrs = [], rs_learned = []\<rparr>;
          stg = rq_stage req
      in case Store_Consume now vmID (rq_nonce req) (vf_nonces v0) of
           (fresh, ns) \<Rightarrow>
             let v = v0\<lparr>vf_nonces := ns\<rparr> in
             if \<not> fresh then reject vmID stg res MsgUnknownNonce v
             else if \<not> Stage_Valid stg then reject vmID stg res (MsgUnknownStage stg) v
             else (case policies vmID of
                Inl e \<Rightarrow> if e = ErrNoPolicy then reject vmID stg res MsgNoPolicy v else (Inl e, v)
              | Inr pol \<Rightarrow>
                  (case check_quote lib (vf_learnGolden v) (vf_firmware v) pol (pinned vmID v) req res of
                     Inl (res', msg) \<Rightarrow> reject vmID stg res' msg v
                   | Inr res' \<Rightarrow> finish_quote vmID stg res' v)))"

section \<open>Specification of acceptance\<close>

text \<open>The value a request claims for a PCR.\<close>

definition quoted_value :: "quote_request \<Rightarrow> nat \<Rightarrow> bytes option" where
  "quoted_value req i =
     (case map_of (rq_pcrs req) Bank of
        None \<Rightarrow> None
      | Some bank \<Rightarrow> (case map_of bank (itoa_nat i) of None \<Rightarrow> None | Some h \<Rightarrow> hex_DecodeString h))"

text \<open>A genuine quote: well-formed, signed by a restricted key over the nonce,
  covering the PCRs of its stage with the vals the request claims.\<close>

definition genuine :: "tpm_lib \<Rightarrow> quote_request \<Rightarrow> quote \<Rightarrow> bool" where
  "genuine lib req q \<longleftrightarrow>
     Parse lib (rq_quote req) (rq_signature req) (rq_akPub req) = Inr q \<and>
     VerifySignature lib q = Inr () \<and>
     hex_DecodeString (rq_nonce req) = Some (q_extraData q) \<and> q_extraData q \<noteq> [] \<and>
     q_bank q = Bank \<and> set (RequiredPCRs (rq_stage req)) \<subseteq> set (q_pcrs q) \<and>
     (\<forall>i \<in> set (q_pcrs q). \<exists>b. quoted_value req i = Some b \<and> length b = 32) \<and>
     q_pcrDigest q = lib_sum lib (q_hash q) (concat (map (the \<circ> quoted_value req) (q_pcrs q)))"

definition golden_ok :: "bool \<Rightarrow> policy \<Rightarrow> nat \<Rightarrow> string \<Rightarrow> bool" where
  "golden_ok learn pol i got \<longleftrightarrow>
     (case Policy_expected pol i of (want, _, known) \<Rightarrow> if known then want = got else learn \<or> i = PCRSysext)"

text \<open>Measurements that conform to a policy.\<close>

definition conforms :: "bool \<Rightarrow> policy \<Rightarrow> quote_request \<Rightarrow> bool" where
  "conforms learn pol req \<longleftrightarrow>
     (let val = (\<lambda>i. hex_EncodeToString (the (quoted_value req i))) in
      ToLower (case map_of (po_pcr11 pol) (PhaseFor (rq_stage req)) of None \<Rightarrow> [] | Some v \<Rightarrow> v) = val PCRUKI \<and>
      (\<forall>i \<in> set (goldenFirmwarePCRs @ (if rq_stage req = StageReady then [PCRSysext] else [])).
         golden_ok learn pol i (val i)))"

text \<open>Trust on first use: the first initrd quote may set the pin.\<close>

definition pin_allows :: "string \<Rightarrow> stage \<Rightarrow> string \<Rightarrow> verifier \<Rightarrow> bool" where
  "pin_allows vmID stg fp v \<longleftrightarrow>
     (let ak = vs_ak (stateLocked vmID v) in if ak = [] then stg = StageInitrd else ak = fp)"

lemma pinned_state: "pinned vmID v = (vs_ak (stateLocked vmID v), vs_ak (stateLocked vmID v) \<noteq> [])"
  by (simp add: pinned_def stateLocked_def split: option.split)

lemma decodePCRs_values:
  "decodePCRs bank idx = Inr vals \<Longrightarrow> i \<in> set idx \<Longrightarrow>
   map_of vals i = (case map_of bank (itoa_nat i) of None \<Rightarrow> None | Some h \<Rightarrow> hex_DecodeString h)"
  by (induction idx arbitrary: vals) (auto simp: bindE_Inr_iff split: option.splits)

lemma decodePCRs_total:
  "(\<exists>vals. decodePCRs bank idx = Inr vals) \<longleftrightarrow>
   (\<forall>i \<in> set idx. \<exists>h b. map_of bank (itoa_nat i) = Some h \<and> hex_DecodeString h = Some b)"
  by (induction idx) (auto simp: bindE_Inr_iff split: option.splits)

abbreviation request_bank :: "quote_request \<Rightarrow> (string, string) gomap" where
  "request_bank req \<equiv> (case map_of (rq_pcrs req) Bank of None \<Rightarrow> [] | Some b \<Rightarrow> b)"

lemma quoted_value_bank:
  "quoted_value req i = (case map_of (request_bank req) (itoa_nat i) of None \<Rightarrow> None | Some h \<Rightarrow> hex_DecodeString h)"
  by (simp add: quoted_value_def split: option.splits)

lemma decodePCRs_quoted:
  assumes "decodePCRs (request_bank req) idx = Inr vals" "i \<in> set idx"
  shows "map_of vals i = quoted_value req i"
  using decodePCRs_values [OF assms] by (simp only: quoted_value_bank)

lemma decodePCRs_defined:
  "(\<exists>vals. decodePCRs (request_bank req) idx = Inr vals) \<longleftrightarrow> (\<forall>i \<in> set idx. quoted_value req i \<noteq> None)"
  unfolding decodePCRs_total quoted_value_bank by (auto split: option.splits)

lemma Parse_pcrs_sorted:
  assumes "Parse lib qt sig ak = Inr q"
  shows "sorted_wrt (<) (q_pcrs q)"
proof -
  from assms obtain sel bank where "decodeSelection lib sel = Inr (bank, q_pcrs q)"
    by (rule Parse_Inr) (rule that)
  then obtain s :: pcr_selection where "q_pcrs q = set_bits (sel_bits s)" by (rule decodeSelection_ok) (rule that)
  then show ?thesis using set_bits_sorted by metis
qed

lemma sort_sorted: "sorted_wrt (<) (xs :: nat list) \<Longrightarrow> sort xs = xs"
  by (simp add: sorted_sort_id strict_sorted_imp_sorted)

lemma BankHash_sha256: "BankHash Bank = Inr SHA256"
  by (simp add: BankHash_def Bank_def bankNames_def)

lemma missingPCRs_Nil: "missingPCRs have need = [] \<longleftrightarrow> set need \<subseteq> set have"
proof -
  have "missingPCRs have need = [] \<longleftrightarrow> set (missingPCRs have need) = {}" by (simp only: set_empty)
  then show ?thesis by (auto simp: missingPCRs_def)
qed

definition cmp_clean :: "comparison \<Rightarrow> bool" where
  "cmp_clean c \<longleftrightarrow> cm_mismatched c = [] \<and> cm_unknown c = []"

lemma compare_step:
  "cmp_clean (compare learn pol pcrs i c) \<longleftrightarrow> cmp_clean c \<and> golden_ok learn pol i (pcr_value pcrs i)"
  by (auto simp: cmp_clean_def compare_def golden_ok_def Let_def split: prod.splits if_splits)

lemma compare_fold:
  "cmp_clean (fold (compare learn pol pcrs) idx c) \<longleftrightarrow>
   cmp_clean c \<and> (\<forall>i \<in> set idx. golden_ok learn pol i (pcr_value pcrs i))"
  by (induction idx arbitrary: c) (auto simp: compare_step)

lemma compare_all_ok:
  "cmp_clean (compare_all learn pol pcrs stg) \<longleftrightarrow>
   (\<forall>i \<in> set (goldenFirmwarePCRs @ (if stg = StageReady then [PCRSysext] else [])).
      golden_ok learn pol i (pcr_value pcrs i))"
  unfolding compare_all_def compare_fold by (simp add: cmp_clean_def)

lemma hexPCRs_value:
  "map_of vals i = Some b \<Longrightarrow> pcr_value (hexPCRs vals) i = hex_EncodeToString b"
  by (induction vals) (auto simp: hexPCRs_def pcr_value_def split: if_splits)

lemma compared_required:
  "set (goldenFirmwarePCRs @ (if stg = StageReady then [PCRSysext] else [])) \<union> {PCRUKI} \<subseteq> set (RequiredPCRs stg)"
  by (auto simp: RequiredPCRs_def pcr_defs)

lemma with_err_Inr [simp]: "with_err res f r = Inr x \<longleftrightarrow> r = Inr x"
  by (cases r) (auto simp: with_err_def)

lemma check_quote_InrE:
  assumes "check_quote lib learn fw pol pin req res0 = Inr res"
  obtains q vals where "Parse lib (rq_quote req) (rq_signature req) (rq_akPub req) = Inr q"
    "VerifySignature lib q = Inr ()" "VerifyNonce (q_extraData q) (rq_nonce req) = Inr ()" "q_bank q = Bank"
    "decodePCRs (request_bank req) (q_pcrs q) = Inr vals" "VerifyPCRs lib q vals = Inr ()"
    "missingPCRs (q_pcrs q) (RequiredPCRs (rq_stage req)) = []" "\<not> (snd pin \<and> fst pin \<noteq> q_akFingerprint q)"
    "ToLower (case map_of (po_pcr11 pol) (PhaseFor (rq_stage req)) of None \<Rightarrow> [] | Some v \<Rightarrow> v) =
       pcr_value (hexPCRs vals) PCRUKI"
    "cmp_clean (compare_all learn pol (hexPCRs vals) (rq_stage req))"
    "rs_akFingerprint res = q_akFingerprint q" "rs_verified res" "rs_pcrs res = hexPCRs vals"
  using assms unfolding check_quote_def Let_def
  by (elim bindE_InrE) (auto simp: cmp_clean_def elim!: bindE_InrE intro: that)

lemma check_quote_InrI:
  assumes "Parse lib (rq_quote req) (rq_signature req) (rq_akPub req) = Inr q"
    "VerifySignature lib q = Inr ()" "VerifyNonce (q_extraData q) (rq_nonce req) = Inr ()" "q_bank q = Bank"
    "decodePCRs (request_bank req) (q_pcrs q) = Inr vals" "VerifyPCRs lib q vals = Inr ()"
    "missingPCRs (q_pcrs q) (RequiredPCRs (rq_stage req)) = []" "\<not> (snd pin \<and> fst pin \<noteq> q_akFingerprint q)"
    "ToLower (case map_of (po_pcr11 pol) (PhaseFor (rq_stage req)) of None \<Rightarrow> [] | Some v \<Rightarrow> v) =
       pcr_value (hexPCRs vals) PCRUKI"
    "cmp_clean (compare_all learn pol (hexPCRs vals) (rq_stage req))"
  shows "\<exists>res. check_quote lib learn fw pol pin req res0 = Inr res"
proof -
  have "guardE (\<not> (snd pin \<and> fst pin \<noteq> q_akFingerprint q)) e = Inr ()" for e :: "result \<times> message"
    using assms(8) by simp
  then show ?thesis
    using assms(1-7,9,10) by (simp add: check_quote_def Let_def with_err_def cmp_clean_def)
qed

lemma measured_values:
  assumes "decodePCRs (request_bank req) (q_pcrs q) = Inr vals" "i \<in> set (q_pcrs q)"
  shows "pcr_value (hexPCRs vals) i = hex_EncodeToString (the (quoted_value req i))"
proof -
  have q: "map_of vals i = quoted_value req i" by (rule decodePCRs_quoted [OF assms])
  have "quoted_value req i \<noteq> None" using decodePCRs_defined assms by blast
  then obtain b where b: "quoted_value req i = Some b" by auto
  with q have "map_of vals i = Some b" by simp
  from hexPCRs_value [OF this] b show ?thesis by simp
qed

lemma VerifyPCRs_quoted:
  assumes "Parse lib qt sig ak = Inr q" "q_bank q = Bank"
    and "decodePCRs (request_bank req) (q_pcrs q) = Inr vals"
  shows "VerifyPCRs lib q vals = Inr () \<longleftrightarrow>
    (\<forall>i \<in> set (q_pcrs q). \<exists>b. quoted_value req i = Some b \<and> length b = 32) \<and>
    q_pcrDigest q = lib_sum lib (q_hash q) (concat (map (the \<circ> quoted_value req) (q_pcrs q)))"
proof -
  have srt: "sort (q_pcrs q) = q_pcrs q" by (rule sort_sorted [OF Parse_pcrs_sorted [OF assms(1)]])
  have vals: "map_of vals i = quoted_value req i" if "i \<in> set (q_pcrs q)" for i
    using decodePCRs_quoted [OF assms(3) that] .
  have eq: "map (the \<circ> map_of vals) (q_pcrs q) = map (the \<circ> quoted_value req) (q_pcrs q)"
    using vals by simp
  show ?thesis
    unfolding VerifyPCRs_iff srt assms(2) BankHash_sha256 eq
    using vals by (auto simp: hash_Size_def)
qed

lemma conforms_measured:
  assumes "decodePCRs (request_bank req) (q_pcrs q) = Inr vals"
    and "set (RequiredPCRs (rq_stage req)) \<subseteq> set (q_pcrs q)"
  shows "conforms learn pol req \<longleftrightarrow>
    ToLower (case map_of (po_pcr11 pol) (PhaseFor (rq_stage req)) of None \<Rightarrow> [] | Some v \<Rightarrow> v) =
      pcr_value (hexPCRs vals) PCRUKI \<and>
    cmp_clean (compare_all learn pol (hexPCRs vals) (rq_stage req))"
proof -
  let ?I = "set (goldenFirmwarePCRs @ (if rq_stage req = StageReady then [PCRSysext] else []))"
  have "?I \<union> {PCRUKI} \<subseteq> set (q_pcrs q)" using compared_required assms(2) by (rule order_trans)
  then have m: "pcr_value (hexPCRs vals) i = hex_EncodeToString (the (quoted_value req i))"
    if "i \<in> ?I \<or> i = PCRUKI" for i
    using measured_values [OF assms(1)] that by blast
  have "(\<forall>i \<in> ?I. golden_ok learn pol i (pcr_value (hexPCRs vals) i)) \<longleftrightarrow>
      (\<forall>i \<in> ?I. golden_ok learn pol i (hex_EncodeToString (the (quoted_value req i))))"
    by (intro ball_cong refl arg_cong [of _ _ "golden_ok learn pol _"] m) simp
  with m [of PCRUKI] show ?thesis unfolding conforms_def Let_def compare_all_ok by simp
qed

lemma check_quote_iff:
  "(\<exists>res. check_quote lib learn fw pol pin req res0 = Inr res) \<longleftrightarrow>
   (\<exists>q. genuine lib req q \<and> conforms learn pol req \<and> \<not> (snd pin \<and> fst pin \<noteq> q_akFingerprint q))"
proof
  assume "\<exists>res. check_quote lib learn fw pol pin req res0 = Inr res"
  then obtain res where "check_quote lib learn fw pol pin req res0 = Inr res" ..
  then obtain q vals where c: "Parse lib (rq_quote req) (rq_signature req) (rq_akPub req) = Inr q"
    "VerifySignature lib q = Inr ()" "VerifyNonce (q_extraData q) (rq_nonce req) = Inr ()" "q_bank q = Bank"
    "decodePCRs (request_bank req) (q_pcrs q) = Inr vals" "VerifyPCRs lib q vals = Inr ()"
    "missingPCRs (q_pcrs q) (RequiredPCRs (rq_stage req)) = []" "\<not> (snd pin \<and> fst pin \<noteq> q_akFingerprint q)"
    "ToLower (case map_of (po_pcr11 pol) (PhaseFor (rq_stage req)) of None \<Rightarrow> [] | Some v \<Rightarrow> v) =
       pcr_value (hexPCRs vals) PCRUKI"
    "cmp_clean (compare_all learn pol (hexPCRs vals) (rq_stage req))"
    by (rule check_quote_InrE) (rule that)
  have "genuine lib req q"
    using c(1-7) VerifyPCRs_quoted [OF c(1,4,5)] by (simp add: genuine_def VerifyNonce_iff missingPCRs_Nil)
  moreover have "conforms learn pol req"
    using conforms_measured [OF c(5)] c(7,9,10) by (simp add: missingPCRs_Nil)
  ultimately show "\<exists>q. genuine lib req q \<and> conforms learn pol req \<and> \<not> (snd pin \<and> fst pin \<noteq> q_akFingerprint q)"
    using c(8) by blast
next
  assume "\<exists>q. genuine lib req q \<and> conforms learn pol req \<and> \<not> (snd pin \<and> fst pin \<noteq> q_akFingerprint q)"
  then obtain q where q: "genuine lib req q" "conforms learn pol req" "\<not> (snd pin \<and> fst pin \<noteq> q_akFingerprint q)"
    by blast
  then have g: "Parse lib (rq_quote req) (rq_signature req) (rq_akPub req) = Inr q"
    "VerifySignature lib q = Inr ()" "VerifyNonce (q_extraData q) (rq_nonce req) = Inr ()" "q_bank q = Bank"
    "missingPCRs (q_pcrs q) (RequiredPCRs (rq_stage req)) = []"
    by (simp_all add: genuine_def VerifyNonce_iff missingPCRs_Nil)
  have "\<forall>i \<in> set (q_pcrs q). quoted_value req i \<noteq> None" using q(1) by (auto simp: genuine_def)
  then obtain vals where vals: "decodePCRs (request_bank req) (q_pcrs q) = Inr vals"
    using decodePCRs_defined by blast
  have "VerifyPCRs lib q vals = Inr ()"
    using VerifyPCRs_quoted [OF g(1,4) vals] q(1) by (simp add: genuine_def)
  moreover have "set (RequiredPCRs (rq_stage req)) \<subseteq> set (q_pcrs q)" using q(1) by (simp add: genuine_def)
  ultimately show "\<exists>res. check_quote lib learn fw pol pin req res0 = Inr res"
    using conforms_measured [OF vals] q(2,3) g vals by (intro check_quote_InrI [OF g(1-4) vals]) auto
qed

section \<open>Effects on the pin\<close>

abbreviation pin_of :: "string \<Rightarrow> verifier \<Rightarrow> string" where
  "pin_of vmID v \<equiv> vs_ak (stateLocked vmID v)"

lemma pin_nonces [simp]: "stateLocked vm (v\<lparr>vf_nonces := ns\<rparr>) = stateLocked vm v"
  by (simp add: stateLocked_def)

lemma pin_store [simp]: "pin_of vm (verifier_store vm' stg r v) = pin_of vm v"
  by (simp add: verifier_store_def stateLocked_def Let_def split: option.split)

lemma pin_reject [simp]: "pin_of vm (snd (reject vm' stg res msg v)) = pin_of vm v"
  by (simp add: reject_def)

lemma pin_enroll:
  "pin_of vm (snd (enroll vm' stg fp v)) =
   (if vm = vm' \<and> pin_of vm v = [] \<and> stg = StageInitrd then fp else pin_of vm v)"
  by (simp add: enroll_def stateLocked_def Let_def split: option.split)

lemma enroll_allows: "fst (enroll vm stg fp v) \<longleftrightarrow> pin_allows vm stg fp v"
  by (auto simp: enroll_def pin_allows_def Let_def)

lemma pin_forget: "pin_of vm (Verifier_Forget vm' v) = (if vm = vm' then [] else pin_of vm v)"
  by (simp add: Verifier_Forget_def stateLocked_def)

lemma learn_fields [simp]:
  "vf_learnGolden (verifier_store vm stg r v) = vf_learnGolden v"
  "vf_learnGolden (snd (enroll vm stg fp v)) = vf_learnGolden v"
  "vf_nonces (verifier_store vm stg r v) = vf_nonces v"
  "vf_nonces (snd (enroll vm stg fp v)) = vf_nonces v"
  by (simp_all add: verifier_store_def enroll_def Let_def)

lemma reject_fst [simp]: "fst (reject vm stg res msg v) = Inr (result_of False msg)"
  by (simp add: reject_def)

lemma finish_cases:
  "fst (finish_quote vm stg res v) =
     (if pin_allows vm stg (rs_akFingerprint res) v then Inr (result_of True (rs_message res))
      else Inr (result_of False (if pin_of vm v \<noteq> [] then MsgPinMismatch (short (rs_akFingerprint res)) (short (pin_of vm v))
        else MsgNotEnrolled)))"
  "pin_of vm' (snd (finish_quote vm stg res v)) =
     (if vm' = vm \<and> pin_of vm v = [] \<and> stg = StageInitrd then rs_akFingerprint res else pin_of vm' v)"
proof -
  obtain ok v1 where e: "enroll vm stg (rs_akFingerprint res) v = (ok, v1)" by (cases "enroll vm stg (rs_akFingerprint res) v")
  have ok: "ok = pin_allows vm stg (rs_akFingerprint res) v"
    using enroll_allows [of vm stg "rs_akFingerprint res" v] e by simp
  have pin: "pin_of vm' v1 = (if vm' = vm \<and> pin_of vm v = [] \<and> stg = StageInitrd then rs_akFingerprint res else pin_of vm' v)" for vm'
    using pin_enroll [of vm' vm stg "rs_akFingerprint res" v] e by auto
  show "fst (finish_quote vm stg res v) =
     (if pin_allows vm stg (rs_akFingerprint res) v then Inr (result_of True (rs_message res))
      else Inr (result_of False (if pin_of vm v \<noteq> [] then MsgPinMismatch (short (rs_akFingerprint res)) (short (pin_of vm v))
        else MsgNotEnrolled)))"
    using ok pin [of vm] by (auto simp: finish_quote_def e Let_def pinned_state pin_allows_def split: bool.splits)
  show "pin_of vm' (snd (finish_quote vm stg res v)) =
     (if vm' = vm \<and> pin_of vm v = [] \<and> stg = StageInitrd then rs_akFingerprint res else pin_of vm' v)"
    using pin [of vm'] by (auto simp: finish_quote_def e Let_def split: bool.splits prod.splits)
qed

section \<open>Submitting a quote\<close>

definition blank_result :: "timestamp \<Rightarrow> result" where
  "blank_result at = \<lparr>rs_verified = False, rs_message = MsgNone, rs_at = at, rs_akFingerprint = [], rs_pcrs = [], rs_learned = []\<rparr>"

text \<open>Every call either leaves all pins alone and does not verify, or passes the
  checks and goes on to the enrolment.\<close>

lemma submit_cases:
  assumes "SubmitQuote lib policies at now vm req v = (r, v')"
  defines "v1 \<equiv> v\<lparr>vf_nonces := snd (Store_Consume now vm (rq_nonce req) (vf_nonces v))\<rparr>"
  obtains (pass) pol res where "fst (Store_Consume now vm (rq_nonce req) (vf_nonces v))" "Stage_Valid (rq_stage req)"
      "policies vm = Inr pol"
      "check_quote lib (vf_learnGolden v) (vf_firmware v) pol (pinned vm v1) req (blank_result at) = Inr res"
      "(r, v') = finish_quote vm (rq_stage req) res v1"
  | (stop) "\<forall>x. r = Inr x \<longrightarrow> \<not> qr_verified x" "\<forall>vm. pin_of vm v' = pin_of vm v"
      "vf_nonces v' = vf_nonces v1"
      "\<not> (fst (Store_Consume now vm (rq_nonce req) (vf_nonces v)) \<and> Stage_Valid (rq_stage req) \<and>
         (\<exists>pol res. policies vm = Inr pol \<and>
           check_quote lib (vf_learnGolden v) (vf_firmware v) pol (pinned vm v1) req (blank_result at) = Inr res))"
  using assms
  by (cases "Store_Consume now vm (rq_nonce req) (vf_nonces v)")
    (fastforce simp: SubmitQuote_def Let_def blank_result_def reject_def
      split: if_splits sum.splits prod.splits)

lemma finish_nonces [simp]: "vf_nonces (snd (finish_quote vm stg res v)) = vf_nonces v"
proof -
  obtain ok v1 where e: "enroll vm stg (rs_akFingerprint res) v = (ok, v1)" by (cases "enroll vm stg (rs_akFingerprint res) v")
  have "vf_nonces v1 = vf_nonces v" using learn_fields(4) [of vm stg "rs_akFingerprint res" v] e by simp
  then show ?thesis by (auto simp: finish_quote_def e Let_def reject_def split: bool.splits prod.splits)
qed

lemma submit_nonces:
  "vf_nonces (snd (SubmitQuote lib policies at now vm req v)) = snd (Store_Consume now vm (rq_nonce req) (vf_nonces v))"
proof (cases "SubmitQuote lib policies at now vm req v")
  case (Pair r v')
  then show ?thesis
  proof (cases rule: submit_cases)
    case (pass pol res)
    have "v' = snd (finish_quote vm (rq_stage req) res
      (v\<lparr>vf_nonces := snd (Store_Consume now vm (rq_nonce req) (vf_nonces v))\<rparr>))"
      by (simp flip: pass(5))
    then show ?thesis using Pair by simp
  qed (use Pair in simp)
qed

lemma check_fingerprint:
  assumes "check_quote lib learn fw pol pin req res0 = Inr res" "genuine lib req q"
  shows "rs_akFingerprint res = q_akFingerprint q"
  using assms by (auto simp: genuine_def elim!: check_quote_InrE)

lemma submit_verified_iff:
  "(\<exists>r. fst (SubmitQuote lib policies at now vm req v) = Inr r \<and> qr_verified r) \<longleftrightarrow>
   fst (Store_Consume now vm (rq_nonce req) (vf_nonces v)) \<and> Stage_Valid (rq_stage req) \<and>
   (\<exists>pol q. policies vm = Inr pol \<and> genuine lib req q \<and> conforms (vf_learnGolden v) pol req \<and>
      pin_allows vm (rq_stage req) (q_akFingerprint q) v)" (is "?L = ?R")
proof -
  let ?v1 = "v\<lparr>vf_nonces := snd (Store_Consume now vm (rq_nonce req) (vf_nonces v))\<rparr>"
  obtain r v' where sub: "SubmitQuote lib policies at now vm req v = (r, v')"
    by (cases "SubmitQuote lib policies at now vm req v")
  have pin1: "pin_allows vm stg fp ?v1 = pin_allows vm stg fp v" for stg fp by (simp add: pin_allows_def)
  have allow_pin: "\<not> (snd (pinned vm ?v1) \<and> fst (pinned vm ?v1) \<noteq> fp)" if "pin_allows vm stg fp v" for stg fp
    using that by (auto simp: pin_allows_def pinned_state Let_def split: if_splits)
  have gen: "genuine lib req q \<Longrightarrow> genuine lib req q' \<Longrightarrow> q' = q" for q q'
    by (simp add: genuine_def)
  from sub show ?thesis
  proof (cases rule: submit_cases)
    case (pass pol res)
    obtain q where q: "genuine lib req q" "conforms (vf_learnGolden v) pol req"
      using pass(4) check_quote_iff by blast
    have "rs_akFingerprint res = q_akFingerprint q" by (rule check_fingerprint [OF pass(4) q(1)])
    then have "?L \<longleftrightarrow> pin_allows vm (rq_stage req) (q_akFingerprint q) v"
      using finish_cases(1) [where vm = vm and stg = "rq_stage req" and res = res and v = ?v1] pass(5) sub pin1 by (auto simp: split: if_splits)
    also have "\<dots> \<longleftrightarrow> ?R" using pass(1-3) q gen by auto
    finally show ?thesis .
  next
    case stop
    have "\<not> ?R"
    proof
      assume r: ?R
      then obtain pol q where q: "policies vm = Inr pol" "genuine lib req q" "conforms (vf_learnGolden v) pol req"
        "pin_allows vm (rq_stage req) (q_akFingerprint q) v" by blast
      then have "\<exists>res. check_quote lib (vf_learnGolden v) (vf_firmware v) pol (pinned vm ?v1) req (blank_result at) = Inr res"
        unfolding check_quote_iff using allow_pin by blast
      with stop(4) r q(1) show False by blast
    qed
    with stop(1) sub show ?thesis by auto
  qed
qed

lemma submit_pin:
  "pin_of vm' (snd (SubmitQuote lib policies at now vm req v)) = pin_of vm' v \<or>
   vm' = vm \<and> pin_of vm v = [] \<and> rq_stage req = StageInitrd \<and>
   (\<exists>r q. fst (SubmitQuote lib policies at now vm req v) = Inr r \<and> qr_verified r \<and> genuine lib req q \<and>
      pin_of vm' (snd (SubmitQuote lib policies at now vm req v)) = q_akFingerprint q)"
proof -
  obtain r v' where sub: "SubmitQuote lib policies at now vm req v = (r, v')"
    by (cases "SubmitQuote lib policies at now vm req v")
  let ?v1 = "v\<lparr>vf_nonces := snd (Store_Consume now vm (rq_nonce req) (vf_nonces v))\<rparr>"
  from sub show ?thesis
  proof (cases rule: submit_cases)
    case (pass pol res)
    obtain q where q: "genuine lib req q" using pass(4) check_quote_iff by blast
    have fp: "rs_akFingerprint res = q_akFingerprint q" by (rule check_fingerprint [OF pass(4) q])
    have fin: "r = fst (finish_quote vm (rq_stage req) res ?v1)" "v' = snd (finish_quote vm (rq_stage req) res ?v1)"
      by (simp_all flip: pass(5))
    show ?thesis
    proof (cases "vm' = vm \<and> pin_of vm v = [] \<and> rq_stage req = StageInitrd")
      case True
      then have "pin_allows vm (rq_stage req) (rs_akFingerprint res) ?v1" by (simp add: pin_allows_def)
      then have "\<exists>x. r = Inr x \<and> qr_verified x" "pin_of vm' v' = rs_akFingerprint res"
        using True fin finish_cases(1) [where vm = vm and stg = "rq_stage req" and res = res and v = ?v1]
          finish_cases(2) [where vm' = vm' and vm = vm and stg = "rq_stage req" and res = res and v = ?v1]
        by simp_all
      with True q fp sub show ?thesis by auto
    next
      case False
      with fin finish_cases(2) [where vm' = vm' and vm = vm and stg = "rq_stage req" and res = res and v = ?v1] sub show ?thesis by auto
    qed
  qed (use sub in simp)
qed

section \<open>The verifier as an attestor\<close>

definition verifier_inv :: "verifier \<Rightarrow> bool" where
  "verifier_inv v \<longleftrightarrow> store_inv (vf_nonces v)"

lemma new_verifier_inv: "verifier_inv (Verifier_New learn fw)"
  by (simp add: verifier_inv_def Verifier_New_def new_inv)

interpretation verifier: attestor "SubmitQuote lib policies at" Verifier_Nonce vf_nonces verifier_inv
  for lib policies at
proof
  fix a :: verifier and now vm req r raw i a'
  show "verifier_inv a \<Longrightarrow> store_inv (vf_nonces a)" by (simp add: verifier_inv_def)
  show "vf_nonces (snd (SubmitQuote lib policies at now vm req a)) = snd (Store_Consume now vm (rq_nonce req) (vf_nonces a))"
    by (rule submit_nonces)
  show "verifier_inv a \<Longrightarrow> verifier_inv (snd (SubmitQuote lib policies at now vm req a))"
    by (simp add: verifier_inv_def submit_nonces consume_inv)
  show "fst (SubmitQuote lib policies at now vm req a) = Inr r \<Longrightarrow> qr_verified r \<Longrightarrow>
      fst (Store_Consume now vm (rq_nonce req) (vf_nonces a))"
    using submit_verified_iff by blast
  show st: "Store_Issue raw now vm (vf_nonces a) = Some (i, vf_nonces a')"
    if "Verifier_Nonce raw now vm a = Some (i, a')"
    using that by (auto simp: Verifier_Nonce_def)
  show "verifier_inv a \<Longrightarrow> Verifier_Nonce raw now vm a = Some (i, a') \<Longrightarrow> verifier_inv a'"
    using st issue_outstanding(2) issue_failed by (cases raw) (fastforce simp: verifier_inv_def)+
qed

section \<open>Histories of a verifier\<close>

definition accepted :: "quote_result res \<Rightarrow> bool" where
  "accepted r \<longleftrightarrow> (case r of Inl _ \<Rightarrow> False | Inr x \<Rightarrow> qr_verified x)"

datatype verifier_event = ENonce string "string option" | EQuote string quote_request bool | EForget string

text \<open>Policies and clock readings are free at every step.\<close>

inductive verifier_step :: "tpm_lib \<Rightarrow> verifier \<Rightarrow> verifier_event \<Rightarrow> verifier \<Rightarrow> bool" for lib where
  vs_nonce: "Verifier_Nonce raw now vm v = Some (r, v') \<Longrightarrow> verifier_step lib v (ENonce vm r) v'"
| vs_quote: "SubmitQuote lib policies at now vm req v = (r, v') \<Longrightarrow> verifier_step lib v (EQuote vm req (accepted r)) v'"
| vs_forget: "verifier_step lib v (EForget vm) (Verifier_Forget vm v)"

abbreviation verifier_run :: "tpm_lib \<Rightarrow> verifier_event list \<Rightarrow> verifier \<Rightarrow> bool" where
  "verifier_run lib \<equiv> reachable (\<lambda>v. \<exists>learn fw. v = Verifier_New learn fw) (verifier_step lib)"

text \<open>An enrolment: a verified initrd quote by the key, with no \<open>Forget\<close> since.\<close>

definition enrolled_by :: "tpm_lib \<Rightarrow> verifier_event list \<Rightarrow> string \<Rightarrow> string \<Rightarrow> bool" where
  "enrolled_by lib es vm fp \<longleftrightarrow>
     (\<exists>es1 req q es2. es = es1 @ EQuote vm req True # es2 \<and> EForget vm \<notin> set es1 \<and>
        rq_stage req = StageInitrd \<and> genuine lib req q \<and> q_akFingerprint q = fp)"

lemma enrolled_by_Cons: "enrolled_by lib es vm fp \<Longrightarrow> e \<noteq> EForget vm \<Longrightarrow> enrolled_by lib (e # es) vm fp"
  unfolding enrolled_by_def by (metis append_Cons set_ConsD)

lemma enrolled_by_hd:
  "rq_stage req = StageInitrd \<Longrightarrow> genuine lib req q \<Longrightarrow> enrolled_by lib (EQuote vm req True # es) vm (q_akFingerprint q)"
  unfolding enrolled_by_def by (metis append_Nil empty_iff list.set(1))

lemma accepted_iff: "accepted r \<longleftrightarrow> (\<exists>x. r = Inr x \<and> qr_verified x)"
  by (simp add: accepted_def split: sum.split)

lemma pin_step:
  assumes "verifier_step lib v e v'" "\<And>vm. pin_of vm v \<noteq> [] \<Longrightarrow> enrolled_by lib es vm (pin_of vm v)"
    and "pin_of vm' v' \<noteq> []"
  shows "enrolled_by lib (e # es) vm' (pin_of vm' v')"
  using assms(1)
proof (cases rule: verifier_step.cases)
  case (vs_nonce raw now vm r)
  then have "pin_of vm' v' = pin_of vm' v" by (auto simp: Verifier_Nonce_def)
  with vs_nonce assms(2,3) enrolled_by_Cons show ?thesis by simp
next
  case (vs_quote policies at now vm req r)
  have e: "SubmitQuote lib policies at now vm req v = (r, v')" by (rule vs_quote(2))
  from submit_pin [of vm' lib policies at now vm req v, unfolded e fst_conv snd_conv]
  show ?thesis
  proof
    assume "pin_of vm' v' = pin_of vm' v"
    with vs_quote assms(2,3) enrolled_by_Cons show ?thesis by simp
  next
    assume "vm' = vm \<and> pin_of vm v = [] \<and> rq_stage req = StageInitrd \<and>
      (\<exists>x q. r = Inr x \<and> qr_verified x \<and> genuine lib req q \<and> pin_of vm' v' = q_akFingerprint q)"
    then show ?thesis unfolding vs_quote(1) by (auto simp: accepted_def intro: enrolled_by_hd)
  qed
next
  case (vs_forget vm)
  with assms(2,3) enrolled_by_Cons show ?thesis by (auto simp: pin_forget split: if_splits)
qed

lemma pins_enrolled:
  assumes "verifier_run lib es v"
  shows "pin_of vm v \<noteq> [] \<longrightarrow> enrolled_by lib es vm (pin_of vm v)"
proof -
  from assms have "\<forall>vm. pin_of vm v \<noteq> [] \<longrightarrow> enrolled_by lib es vm (pin_of vm v)"
  proof (rule reachable_invariant)
    fix s assume "\<exists>learn fw. s = Verifier_New learn fw"
    then show "\<forall>vm. pin_of vm s \<noteq> [] \<longrightarrow> enrolled_by lib [] vm (pin_of vm s)"
      by (auto simp: Verifier_New_def stateLocked_def)
  qed (blast intro: pin_step)
  then show ?thesis by blast
qed


text \<open>A nonce that may still verify a quote: issued to the VM, not submitted by
  the VM and not forgotten since.\<close>

definition issued_unused :: "verifier_event list \<Rightarrow> string \<Rightarrow> string \<Rightarrow> bool" where
  "issued_unused es vm n \<longleftrightarrow>
     (\<exists>es1 es2. es = es1 @ ENonce vm (Some n) # es2 \<and> EForget vm \<notin> set es1 \<and>
        (\<forall>req acc. EQuote vm req acc \<in> set es1 \<longrightarrow> rq_nonce req \<noteq> n))"

lemma issued_unused_hd: "issued_unused (ENonce vm (Some n) # es) vm n"
  unfolding issued_unused_def by (metis append_Nil empty_iff list.set(1))

lemma issued_unused_Cons:
  assumes "issued_unused es vm n" "e \<noteq> EForget vm" "\<And>req acc. e = EQuote vm req acc \<Longrightarrow> rq_nonce req \<noteq> n"
  shows "issued_unused (e # es) vm n"
proof -
  from assms(1) obtain es1 es2 where "es = es1 @ ENonce vm (Some n) # es2" "EForget vm \<notin> set es1"
    "\<forall>req acc. EQuote vm req acc \<in> set es1 \<longrightarrow> rq_nonce req \<noteq> n" unfolding issued_unused_def by blast
  with assms(2,3) show ?thesis unfolding issued_unused_def by (intro exI [of _ "e # es1"] exI [of _ es2]) auto
qed

definition nonces_tracked :: "verifier_event list \<Rightarrow> verifier \<Rightarrow> bool" where
  "nonces_tracked es v \<longleftrightarrow> verifier_inv v \<and>
     (\<forall>vm n t. outstanding (vf_nonces v) vm n = Some t \<longrightarrow> issued_unused es vm n)"

lemma tracked_nonce:
  assumes "nonces_tracked es v" "Verifier_Nonce raw now vm v = Some (r, v')"
  shows "nonces_tracked (ENonce vm r # es) v'"
proof -
  from assms(2) have st: "Store_Issue raw now vm (vf_nonces v) = Some (r, vf_nonces v')"
    by (auto simp: Verifier_Nonce_def)
  show ?thesis
  proof (cases raw)
    case None
    with st issue_failed have "vf_nonces v' = vf_nonces v" by auto
    with assms(1) show ?thesis by (auto simp: nonces_tracked_def verifier_inv_def intro: issued_unused_Cons)
  next
    case (Some bs)
    have inv: "store_inv (vf_nonces v)" using assms(1) by (simp add: nonces_tracked_def verifier_inv_def)
    note io = issue_outstanding [OF inv st [unfolded Some]]
    show ?thesis using assms(1) io
      by (fastforce simp: nonces_tracked_def verifier_inv_def intro: issued_unused_Cons issued_unused_hd)
  qed
qed

lemma tracked_quote:
  assumes "nonces_tracked es v" "SubmitQuote lib policies at now vm req v = (r, v')"
  shows "nonces_tracked (EQuote vm req acc # es) v'"
proof -
  have inv: "store_inv (vf_nonces v)" using assms(1) by (simp add: nonces_tracked_def verifier_inv_def)
  have st: "vf_nonces v' = snd (Store_Consume now vm (rq_nonce req) (vf_nonces v))"
    using submit_nonces [of lib policies at now vm req v] assms(2) by simp
  have "issued_unused (EQuote vm req acc # es) vm' n" if "outstanding (vf_nonces v') vm' n = Some t" for vm' n t
  proof (rule issued_unused_Cons)
    have "outstanding (vf_nonces v) vm' n = Some t" "vm' = vm \<longrightarrow> n \<noteq> rq_nonce req"
      using that inv by (auto simp: st consume_outstanding outstanding_sweep split: if_splits option.splits)
    with assms(1) show "issued_unused es vm' n" by (auto simp: nonces_tracked_def)
    show "EQuote vm req acc \<noteq> EForget vm'" by simp
    show "rq_nonce req' \<noteq> n" if "EQuote vm req acc = EQuote vm' req' acc'" for req' acc'
      using that \<open>vm' = vm \<longrightarrow> n \<noteq> rq_nonce req\<close> by auto
  qed
  then show ?thesis using consume_inv [OF inv] by (auto simp: nonces_tracked_def verifier_inv_def st)
qed

lemma tracked_step:
  assumes "verifier_step lib v e v'" "nonces_tracked es v"
  shows "nonces_tracked (e # es) v'"
  using assms(1)
proof (cases rule: verifier_step.cases)
  case (vs_forget vm)
  with assms(2) show ?thesis
    by (auto simp: nonces_tracked_def verifier_inv_def Verifier_Forget_def forget_inv forget_outstanding
        intro!: issued_unused_Cons split: if_splits)
qed (use assms(2) tracked_nonce tracked_quote in blast)+

lemma run_tracked: "verifier_run lib es v \<Longrightarrow> nonces_tracked es v"
proof (erule reachable_invariant)
  fix s assume "\<exists>learn fw. s = Verifier_New learn fw"
  then show "nonces_tracked [] s"
    using new_verifier_inv by (auto simp: nonces_tracked_def Verifier_New_def outstanding_def issued_of_def new_inv)
qed (rule tracked_step)

section \<open>What an accepted quote leaves behind\<close>

lemma submit_learn: "vf_learnGolden (snd (SubmitQuote lib policies at now vm req v)) = vf_learnGolden v"
proof -
  have rej: "vf_learnGolden (snd (reject vm stg res msg v)) = vf_learnGolden v" for stg res msg v
    by (simp add: reject_def)
  have fin: "vf_learnGolden (snd (finish_quote vm stg res v)) = vf_learnGolden v" for stg res v
  proof -
    obtain ok v1 where e: "enroll vm stg (rs_akFingerprint res) v = (ok, v1)" by (cases "enroll vm stg (rs_akFingerprint res) v")
    have "vf_learnGolden v1 = vf_learnGolden v" using learn_fields(2) [of vm stg "rs_akFingerprint res" v] e by simp
    then show ?thesis by (auto simp: finish_quote_def e Let_def rej split: bool.splits prod.splits)
  qed
  show ?thesis
    by (auto simp: SubmitQuote_def Let_def rej fin split: prod.splits sum.splits)
qed

lemma accepted_pin:
  assumes "SubmitQuote lib policies at now vm req v = (r, v')" "accepted r" "genuine lib req q"
  shows "pin_of vm v' = q_akFingerprint q"
  using assms(1)
proof (cases rule: submit_cases)
  case (pass pol res)
  let ?v1 = "v\<lparr>vf_nonces := snd (Store_Consume now vm (rq_nonce req) (vf_nonces v))\<rparr>"
  have fp: "rs_akFingerprint res = q_akFingerprint q" by (rule check_fingerprint [OF pass(4) assms(3)])
  have "pin_allows vm (rq_stage req) (rs_akFingerprint res) v"
    using submit_verified_iff [of lib policies at now vm req v] assms by (auto simp: accepted_iff genuine_def fp)
  moreover have "v' = snd (finish_quote vm (rq_stage req) res ?v1)" by (simp flip: pass(5))
  ultimately show ?thesis
    using finish_cases(2) [where vm' = vm and vm = vm and stg = "rq_stage req" and res = res and v = ?v1] fp
    by (auto simp: pin_allows_def Let_def split: if_splits)
qed (use assms(2) in \<open>auto simp: accepted_iff\<close>)

section \<open>A worked run\<close>

text \<open>A stand-in library: the fifth byte of a quote is its nonce, the quoted PCRs
  are 0 to 7, 11 and 13, and the hash of a message is its length.\<close>

definition demo_lib :: tpm_lib where
  "demo_lib = \<lparr>
     lib_attest = (\<lambda>qt. Some \<lparr>ta_type = TPMSTAttestQuote, ta_extra = drop 4 qt,
       ta_quote = Some \<lparr>qi_select = [\<lparr>sel_hash = 0x000B, sel_bits = [0xFF, 0x28, 0]\<rparr>], qi_digest = [64]\<rparr>\<rparr>),
     lib_signature = (\<lambda>_. Some \<lparr>sg_alg = TPMAlgECDSA, sg_body = SigECDSA 0x000B [1] [2]\<rparr>),
     lib_public = (\<lambda>ak. Some \<lparr>pu_type = TPMAlgECC,
       pu_attrs = \<lparr>oa_fixedTPM = True, oa_fixedParent = True, oa_sensitiveDataOrigin = True,
         oa_restricted = True, oa_signEncrypt = True, oa_decrypt = False\<rparr>,
       pu_params = ECCParms TPMECCNistP256 TPMAlgECDSA, pu_unique = ak\<rparr>),
     lib_public2B = (\<lambda>_. None), lib_contents = (\<lambda>_. None), lib_marshal = pu_unique,
     lib_key = (\<lambda>pub. Some (ECDSAKey (pu_unique pub))),
     lib_algHash = (\<lambda>alg. if alg = 0x000B then Some SHA256 else None),
     lib_available = (\<lambda>_. True), lib_sum = (\<lambda>_ bs. [of_nat (length bs)]),
     lib_ecdsaVerify = (\<lambda>_ _ r s. r = 1 \<and> s = 2),
     lib_pkcs1Verify = (\<lambda>_ _ _ _. False), lib_pssVerify = (\<lambda>_ _ _ _. False)\<rparr>"

definition zero_pcr :: string where
  "zero_pcr = hex_EncodeToString (replicate 32 0)"

definition demo_pcrs :: "(string, string) gomap" where
  "demo_pcrs = map (\<lambda>i. (itoa_nat i, zero_pcr)) [0, 1, 2, 3, 4, 5, 6, 7, 11, 13]"

definition demo_policy :: policy where
  "demo_policy = \<lparr>po_imageID = ''img'', po_imageVersion = ''1'',
     po_pcr11 = [(PhaseInitrd, zero_pcr), (PhaseReady, zero_pcr)],
     po_pcr13 = [], po_golden = [(Bank, map (\<lambda>i. (int i, zero_pcr)) goldenFirmwarePCRs)],
     po_goldenFirmware = None, po_kubernetesVersion = []\<rparr>"

definition demo_request :: "stage \<Rightarrow> 8 word \<Rightarrow> quote_request" where
  "demo_request stg n = \<lparr>rq_stage = stg, rq_nonce = hex_EncodeToString [n], rq_akPub = [7], rq_ekPub = [],
     rq_quote = [0xFF, 0x54, 0x43, 0x47, n], rq_signature = [], rq_pcrs = [(Bank, demo_pcrs)], rq_eventLog = [], rq_userspaceLog = []\<rparr>"

lemma ToLower_hex [simp]: "ToLower (hex_EncodeToString bs) = hex_EncodeToString bs"
proof -
  have "lower_char (hexdigit n) = hexdigit n" if "n < 16" for n
  proof -
    have "n \<in> set [0..<16]" using that by simp
    moreover have "\<forall>n \<in> set [0..<16]. lower_char (hexdigit n) = hexdigit n" by code_simp
    ultimately show ?thesis by blast
  qed
  moreover have "unat b div 16 < 16" "unat b mod 16 < 16" for b :: "8 word"
    using unat_byte_less [of b] by simp_all
  ultimately show ?thesis by (induction bs) (simp_all add: hex_EncodeToString_def hex_byte_def ToLower_def)
qed

lemma demo_quoted:
  "i \<in> {0, 1, 2, 3, 4, 5, 6, 7, 11, 13} \<Longrightarrow> quoted_value (demo_request stg n) i = Some (replicate 32 0)"
  by (auto simp: quoted_value_def demo_request_def demo_pcrs_def zero_pcr_def hex_roundtrip)

lemma demo_bits: "set_bits [0xFF, 0x28, 0] = [0, 1, 2, 3, 4, 5, 6, 7, 11, 13]"
  by code_simp

lemma demo_magic: "be_uint32 [0xFF, 0x54, 0x43, 0x47] = TPMGeneratedValue"
  by code_simp

definition demo_quote :: "8 word \<Rightarrow> quote" where
  "demo_quote n = \<lparr>q_attest = [0xFF, 0x54, 0x43, 0x47, n],
     q_signature = \<lparr>sg_alg = TPMAlgECDSA, sg_body = SigECDSA 0x000B [1] [2]\<rparr>,
     q_public = the (lib_public demo_lib [7]), q_akFingerprint = ''01'', q_extraData = [n],
     q_bank = Bank, q_pcrs = [0, 1, 2, 3, 4, 5, 6, 7, 11, 13], q_pcrDigest = [64], q_hash = SHA256\<rparr>"

lemma demo_genuine: "genuine demo_lib (demo_request stg n) (demo_quote n)"
proof -
  have "Parse demo_lib (rq_quote (demo_request stg n)) (rq_signature (demo_request stg n)) (rq_akPub (demo_request stg n))
    = Inr (demo_quote n)"
    using demo_magic
    by (simp add: Parse_def demo_request_def demo_quote_def demo_lib_def guardE_def decodeSelection_def
        demo_bits bankNames_def Bank_def parsePublic_def checkAK_def TPMAlgECC_def TPMAlgRSA_def TPMECCNistP256_def
        signatureHash_def sig_alg_hash_def Fingerprint_def hex_EncodeToString_def hex_byte_def hexdigit_def)
  moreover have "VerifySignature demo_lib (demo_quote n) = Inr ()"
    by (simp add: VerifySignature_def demo_quote_def demo_lib_def bytes_nat_def guardE_def)
  moreover have "concat (map (the \<circ> quoted_value (demo_request stg n)) (q_pcrs (demo_quote n))) = replicate 320 0"
    by (simp add: demo_quote_def demo_quoted flip: replicate_add)
  moreover have "hex_DecodeString (rq_nonce (demo_request stg n)) = Some (q_extraData (demo_quote n))"
    by (simp add: demo_request_def demo_quote_def hex_roundtrip)
  moreover have "set (RequiredPCRs (rq_stage (demo_request stg n))) \<subseteq> set (q_pcrs (demo_quote n))"
    by (auto simp: RequiredPCRs_def pcr_defs demo_quote_def)
  moreover have "\<forall>i \<in> set (q_pcrs (demo_quote n)). \<exists>b. quoted_value (demo_request stg n) i = Some b \<and> length b = 32"
    by (simp add: demo_quote_def demo_quoted)
  moreover have "lib_sum demo_lib h (replicate 320 0) = [64]" for h by (simp add: demo_lib_def)
  moreover have "q_extraData (demo_quote n) \<noteq> []" "q_bank (demo_quote n) = Bank" "q_pcrDigest (demo_quote n) = [64]"
    by (simp_all add: demo_quote_def)
  ultimately show ?thesis unfolding genuine_def by simp
qed

lemma demo_conforms: "conforms False demo_policy (demo_request stg n)"
  by (auto simp: conforms_def Let_def demo_quoted golden_ok_def Policy_expected_def Policy_golden_def pcr_defs
      demo_policy_def PhaseFor_def PhaseInitrd_def PhaseReady_def zero_pcr_def)

lemma demo_fields:
  "rq_stage (demo_request stg n) = stg" "rq_nonce (demo_request stg n) = hex_EncodeToString [n]"
  "q_akFingerprint (demo_quote n) = ''01''"
  by (simp_all add: demo_request_def demo_quote_def)

lemma demo_round:
  assumes run: "verifier_run demo_lib es v" and learn: "\<not> vf_learnGolden v" and stg: "Stage_Valid stg"
    and pin: "pin_allows ''vm'' stg ''01'' v" and ttl: "0 \<le> ttl (vf_nonces v)"
  obtains v' where
    "verifier_run demo_lib (EQuote ''vm'' (demo_request stg n) True # ENonce ''vm'' (Some (hex_EncodeToString [n])) # es) v'"
    "\<not> vf_learnGolden v'" "pin_of ''vm'' v' = ''01''" "0 \<le> ttl (vf_nonces v')"
proof -
  have inv: "store_inv (vf_nonces v)" using run_tracked [OF run] by (simp add: nonces_tracked_def verifier_inv_def)
  obtain ns where ns: "Store_Issue (Some [n]) 0 ''vm'' (vf_nonces v) = Some (Some (hex_EncodeToString [n]), ns)"
    using store.issue_total [OF inv] by blast
  let ?v1 = "v\<lparr>vf_nonces := ns\<rparr>"
  have "Verifier_Nonce (Some [n]) 0 ''vm'' v = Some (Some (hex_EncodeToString [n]), ?v1)"
    by (simp add: Verifier_Nonce_def ns)
  then have "verifier_step demo_lib v (ENonce ''vm'' (Some (hex_EncodeToString [n]))) ?v1" by (rule vs_nonce)
  with run have run1: "verifier_run demo_lib (ENonce ''vm'' (Some (hex_EncodeToString [n])) # es) ?v1"
    by (rule reach_step)
  let ?S = "SubmitQuote demo_lib (\<lambda>_. Inr demo_policy) 0 0 ''vm'' (demo_request stg n)"
  obtain r v2 where v2: "?S ?v1 = (r, v2)" by (cases "?S ?v1")
  have "fst (Store_Consume 0 ''vm'' (hex_EncodeToString [n]) ns)"
    using store.issued_accepted [OF inv ns, of 0] ttl by (simp add: time_Sub_def minDuration_def maxDuration_def)
  then have "accepted (fst (?S ?v1))"
    unfolding accepted_iff submit_verified_iff
    using stg pin learn demo_genuine [of stg n] demo_conforms [of stg n]
    by (auto simp: demo_fields pin_allows_def Let_def split: if_splits intro!: exI [of _ "demo_quote n"])
  with v2 have acc: "accepted r" by simp
  have "verifier_step demo_lib ?v1 (EQuote ''vm'' (demo_request stg n) True) v2"
    using vs_quote [OF v2] acc by simp
  with run1 have "verifier_run demo_lib
      (EQuote ''vm'' (demo_request stg n) True # ENonce ''vm'' (Some (hex_EncodeToString [n])) # es) v2"
    by (rule reach_step)
  moreover have "\<not> vf_learnGolden v2" 
    using submit_learn [of demo_lib "\<lambda>_. Inr demo_policy" 0 0 "''vm''" "demo_request stg n" ?v1] v2 learn by simp
  moreover have "pin_of ''vm'' v2 = ''01''" using accepted_pin [OF v2 acc demo_genuine] by (simp add: demo_quote_def)
  moreover have "0 \<le> ttl (vf_nonces v2)"
    using submit_nonces [of demo_lib "\<lambda>_. Inr demo_policy" 0 0 "''vm''" "demo_request stg n" ?v1] v2 ttl
      issue_outstanding(2,3) [OF inv ns] store.consume_laws by simp
  ultimately show thesis by (rule that)
qed

lemma demo_history:
  "\<exists>v. verifier_run demo_lib
     [EQuote ''vm'' (demo_request StageReady 2) True, ENonce ''vm'' (Some (hex_EncodeToString [2])),
      EQuote ''vm'' (demo_request StageInitrd 1) True, ENonce ''vm'' (Some (hex_EncodeToString [1]))] v"
proof -
  have run0: "verifier_run demo_lib [] (Verifier_New False None)" by (rule reach_init) blast
  obtain v1 where v1: "verifier_run demo_lib
      [EQuote ''vm'' (demo_request StageInitrd 1) True, ENonce ''vm'' (Some (hex_EncodeToString [1]))] v1"
    "\<not> vf_learnGolden v1" "pin_of ''vm'' v1 = ''01''" "0 \<le> ttl (vf_nonces v1)"
    by (rule demo_round [OF run0, of StageInitrd 1])
      (auto simp: Verifier_New_def Stage_Valid_def pin_allows_def stateLocked_def Store_New_def DefaultTTL_def)
  obtain v2 where "verifier_run demo_lib
     [EQuote ''vm'' (demo_request StageReady 2) True, ENonce ''vm'' (Some (hex_EncodeToString [2])),
      EQuote ''vm'' (demo_request StageInitrd 1) True, ENonce ''vm'' (Some (hex_EncodeToString [1]))] v2"
    by (rule demo_round [OF v1(1), of StageReady 2]) (use v1(2-4) in \<open>auto simp: Stage_Valid_def pin_allows_def\<close>)
  then show ?thesis by blast
qed

section \<open>Properties\<close>

text \<open>
  C4. \<open>SubmitQuote\<close> answers that a VM's quote is verified exactly when the nonce is
  one issued to that VM and still fresh, the stage is known, the VM has a policy,
  the quote is genuine (a restricted signing key of a TPM signed, over that
  nonce, the digest of the PCR values the request claims for every PCR the stage
  requires), those values are the ones the policy expects, and the key is the
  one pinned for the VM, or the first to be enrolled by an initrd quote.
\<close>

theorem quote_verified_iff:
  "accepted (fst (SubmitQuote lib policies at now vm req v)) \<longleftrightarrow>
   fst (Store_Consume now vm (rq_nonce req) (vf_nonces v)) \<and> Stage_Valid (rq_stage req) \<and>
   (\<exists>pol q. policies vm = Inr pol \<and> genuine lib req q \<and> conforms (vf_learnGolden v) pol req \<and>
      pin_allows vm (rq_stage req) (q_akFingerprint q) v)"
  unfolding accepted_iff by (rule submit_verified_iff)

text \<open>
  C7. In every history of a verifier a verified ready quote is preceded by a
  verified initrd quote of the same VM signed by the same attestation key, and
  the VM was not forgotten in between: nothing but the first measured boot can
  introduce a key, whatever else is submitted.
\<close>

theorem ready_quote_enrolled:
  assumes "verifier_run lib (EQuote vm req True # es) v" "rq_stage req = StageReady"
  shows "\<exists>q. genuine lib req q \<and> enrolled_by lib es vm (q_akFingerprint q)"
proof -
  from assms(1) obtain v0 where run: "verifier_run lib es v0" and st: "verifier_step lib v0 (EQuote vm req True) v"
    by (rule reachable_ConsE)
  from st obtain policies at now r where "SubmitQuote lib policies at now vm req v0 = (r, v)" "accepted r"
    by (cases rule: verifier_step.cases) auto
  then obtain q where "genuine lib req q" "pin_allows vm (rq_stage req) (q_akFingerprint q) v0"
    using submit_verified_iff [of lib policies at now vm req v0] by (auto simp: accepted_iff)
  with pins_enrolled [OF run, of vm] assms(2) show ?thesis
    by (auto simp: pin_allows_def Let_def StageInitrd_def StageReady_def split: if_splits)
qed

theorem ready_quote_enrolled_witness:
  "\<exists>q. genuine demo_lib (demo_request StageReady 2) q \<and>
     enrolled_by demo_lib [ENonce ''vm'' (Some (hex_EncodeToString [2])),
       EQuote ''vm'' (demo_request StageInitrd 1) True, ENonce ''vm'' (Some (hex_EncodeToString [1]))]
       ''vm'' (q_akFingerprint q)"
proof -
  have "rq_stage (demo_request StageReady 2) = StageReady" by (simp add: demo_request_def)
  then show ?thesis using demo_history ready_quote_enrolled by blast
qed

text \<open>
  C5. In every history of a verifier a verified quote answers a nonce that this
  verifier issued to the same VM and that the VM had not presented since: no
  quote verifies twice on one nonce, on another VM's nonce, or across a
  \<open>Forget\<close>.
\<close>

theorem quote_not_replayed:
  assumes "verifier_run lib (EQuote vm req True # es) v"
  shows "issued_unused es vm (rq_nonce req)"
proof -
  from assms obtain v0 where run: "verifier_run lib es v0" and st: "verifier_step lib v0 (EQuote vm req True) v"
    by (rule reachable_ConsE)
  from st obtain policies at now r where "SubmitQuote lib policies at now vm req v0 = (r, v)" "accepted r"
    by (cases rule: verifier_step.cases) auto
  then have "fst (Store_Consume now vm (rq_nonce req) (vf_nonces v0))"
    using submit_verified_iff [of lib policies at now vm req v0] by (auto simp: accepted_iff)
  with run_tracked [OF run] show ?thesis by (auto simp: consume_accepts nonces_tracked_def)
qed

theorem quote_not_replayed_witness:
  "issued_unused [ENonce ''vm'' (Some (hex_EncodeToString [2])),
       EQuote ''vm'' (demo_request StageInitrd 1) True, ENonce ''vm'' (Some (hex_EncodeToString [1]))]
       ''vm'' (rq_nonce (demo_request StageReady 2))"
  using demo_history quote_not_replayed by blast

end
