(* ===== verification/Net_Addr.thy ===== *)
theory Net_Addr
  imports Go_Netip Api_Err
begin

text \<open>
  Addressing of a network, \<open>src/internal/network/addr.go\<close>: validation of a
  specification, the reserved addresses, the pool \<open>Attach\<close> hands out and its
  enumeration, and the MAC derived from an address.  The lemmas read a resolved
  layout as an interval of 32-bit addresses with four reserved ones, from which
  the size and the enumeration of the pool follow.
\<close>

section \<open>Definitions\<close>

definition IMDSIP :: string where "IMDSIP = ''169.254.169.254''"
definition minPrefixBits :: nat where "minPrefixBits = 16"
definition maxPrefixBits :: nat where "maxPrefixBits = 29"

definition linkLocal :: ipprefix where
  "linkLocal = \<lparr>pfx_addr = 0xA9FE0000, pfx_bits = 16\<rparr>"

record net_spec =
  sp_name :: string
  sp_cidr :: string
  sp_gatewayIP :: string
  sp_dnsSearchDomain :: string
  sp_enableIMDS :: bool
  sp_enableHostAlias :: bool

record layout =
  ly_prefix :: ipprefix
  ly_network :: ipv4
  ly_gateway :: ipv4
  ly_host :: ipv4
  ly_broadcast :: ipv4

text \<open>\<open>nameRE\<close>: a letter or digit, and after it at most 62 letters, digits or
  hyphens of which the last is no hyphen.\<close>

definition label_char :: "char \<Rightarrow> bool" where
  "label_char c \<longleftrightarrow> is_lower c \<or> is_digit c"

definition nameRE_match :: "string \<Rightarrow> bool" where
  "nameRE_match s \<longleftrightarrow> s \<noteq> [] \<and> length s \<le> 63 \<and> label_char (hd s) \<and> label_char (last s) \<and>
     list_all (\<lambda>c. label_char c \<or> c = CHR ''-'') s"

definition lastAddr :: "ipprefix \<Rightarrow> ipv4" where
  "lastAddr p = AddrFrom4 (map2 (\<lambda>a m. a OR NOT m) (As4 (pfx_addr p)) (CIDRMask (pfx_bits p)))"

definition resolve :: "net_spec \<Rightarrow> layout res" where
  "resolve spec =
     (if \<not> nameRE_match (sp_name spec) then Inl ErrInvalid
      else (case ParsePrefix (sp_cidr spec) of
        None \<Rightarrow> Inl ErrInvalid
      | Some (P6 _) \<Rightarrow> Inl ErrInvalid
      | Some (P4 p) \<Rightarrow>
          if pfx_bits p < minPrefixBits \<or> pfx_bits p > maxPrefixBits then Inl ErrInvalid
          else let prefix = Prefix_Masked p in
            if Prefix_Overlaps prefix linkLocal then Inl ErrInvalid
            else let net = pfx_addr prefix;
                     bcast = lastAddr prefix;
                     host = bcast - 1;
                     l = \<lparr>ly_prefix = prefix, ly_network = net, ly_gateway = net + 1,
                          ly_host = host, ly_broadcast = bcast\<rparr>
              in if sp_gatewayIP spec = [] then Inr l
                 else (case ParseAddr (sp_gatewayIP spec) of
                    Some (V4 gw) \<Rightarrow>
                      if \<not> Prefix_Contains prefix gw \<or> gw = net \<or> gw = bcast \<or> gw = host
                      then Inl ErrInvalid else Inr (l\<lparr>ly_gateway := gw\<rparr>)
                  | _ \<Rightarrow> Inl ErrInvalid)))"

definition poolContains :: "layout \<Rightarrow> ipv4 \<Rightarrow> bool" where
  "poolContains l ip \<longleftrightarrow> Prefix_Contains (ly_prefix l) ip \<and> ip \<noteq> ly_network l \<and>
     ip \<noteq> ly_gateway l \<and> ip \<noteq> ly_host l \<and> ip \<noteq> ly_broadcast l"

definition poolSize :: "layout \<Rightarrow> int" where
  "poolSize l = 2 ^ (32 - pfx_bits (ly_prefix l)) - 4"

lemma unat_next_below: "(ip :: ipv4) < b \<Longrightarrow> unat (ip + 1) = Suc (unat ip)"
  using unsigned_less [of b, where ?'a = nat] by (simp add: word_less_nat_alt unat_plus_if')

text \<open>
  \<open>eachPool\<close> with its callback as a state transformer that also says whether to
  go on.  The address below the broadcast address has a successor, so \<open>ip + 1\<close>
  is \<open>ip.Next()\<close> and does not wrap.
\<close>

function eachPool_from :: "layout \<Rightarrow> (ipv4 \<Rightarrow> 's \<Rightarrow> bool \<times> 's) \<Rightarrow> ipv4 \<Rightarrow> 's \<Rightarrow> 's" where
  "eachPool_from l fn ip s =
     (if ip < ly_broadcast l then
        if \<not> poolContains l ip then eachPool_from l fn (ip + 1) s
        else (case fn ip s of (go, s') \<Rightarrow> if go then eachPool_from l fn (ip + 1) s' else s')
      else s)"
  by pat_completeness auto

termination
  by (relation "measure (\<lambda>(l, fn, ip, s). unat (ly_broadcast l) - unat ip)")
    (auto simp: unat_next_below word_less_nat_alt)

declare eachPool_from.simps [simp del]

definition eachPool :: "layout \<Rightarrow> (ipv4 \<Rightarrow> 's \<Rightarrow> bool \<times> 's) \<Rightarrow> 's \<Rightarrow> 's" where
  "eachPool l fn s = eachPool_from l fn (ly_network l + 1) s"

definition fnv32a :: "string \<Rightarrow> 32 word" where
  "fnv32a s = foldl (\<lambda>h c. (h XOR word_of_nat (ord c)) * 16777619) 2166136261 s"

definition macFor :: "string \<Rightarrow> ipv4 \<Rightarrow> bytes" where
  "macFor networkName ip = [0x02, ucast (fnv32a networkName)] @ As4 ip"

definition HardwareAddr_String :: "bytes \<Rightarrow> string" where
  "HardwareAddr_String mac = Join '':'' (map hex_byte mac)"

section \<open>Resolved layouts\<close>

text \<open>A layout whose addresses are where \<open>resolve\<close> puts them.\<close>

definition layout_wf :: "layout \<Rightarrow> bool" where
  "layout_wf l \<longleftrightarrow> (let k = host_bits (ly_prefix l); n = unat (ly_network l) in
     16 \<le> pfx_bits (ly_prefix l) \<and> pfx_bits (ly_prefix l) \<le> 29 \<and>
     pfx_addr (ly_prefix l) = ly_network l \<and> 2 ^ k dvd n \<and>
     unat (ly_broadcast l) = n + 2 ^ k - 1 \<and> unat (ly_host l) = n + 2 ^ k - 2 \<and>
     Prefix_Contains (ly_prefix l) (ly_gateway l) \<and>
     ly_gateway l \<noteq> ly_network l \<and> ly_gateway l \<noteq> ly_host l \<and> ly_gateway l \<noteq> ly_broadcast l)"

lemma lastAddr_or: "lastAddr p = pfx_addr p OR mask (host_bits p)"
proof (rule bit_word_eqI)
  fix n assume "n < LENGTH(32)"
  then show "bit (lastAddr p) n = bit (pfx_addr p OR mask (host_bits p)) n"
    by (cases "n < 8"; cases "n < 16"; cases "n < 24")
      (auto simp: lastAddr_def CIDRMask_def As4_def bit_or_iff bit_not_iff bit_push_bit_iff bit_ucast_iff
        bit_drop_bit_eq bit_mask_iff)
qed

lemma Contains_interval:
  assumes "2 ^ host_bits p dvd unat (pfx_addr p)"
  shows "Prefix_Contains p ip \<longleftrightarrow>
    unat (pfx_addr p) \<le> unat ip \<and> unat ip < unat (pfx_addr p) + 2 ^ host_bits p"
proof -
  obtain q where q: "unat (pfx_addr p) = 2 ^ host_bits p * q" using assms by (auto elim: dvdE)
  have "unat ip div 2 ^ host_bits p = q \<longleftrightarrow> 2 ^ host_bits p * q \<le> unat ip \<and> unat ip < 2 ^ host_bits p * q + 2 ^ host_bits p"
    by (metis add.commute div_nat_eqI div_mult_self1_is_m dividend_less_div_times mult.commute
        mult_Suc_right times_div_less_eq_dividend zero_less_numeral zero_less_power)
  then show ?thesis using q by (simp add: Prefix_Contains_div)
qed

lemma overlaps_wf [simp]: "pfx_bits (Prefix_Masked p) = pfx_bits p"
  by (simp add: Prefix_Masked_def)

lemma masked_dvd: "2 ^ host_bits p dvd unat (pfx_addr (Prefix_Masked p))"
  by (simp add: Prefix_Masked_def unat_and_not_mask)

lemma power_host_bits: "16 \<le> b \<Longrightarrow> b \<le> 29 \<Longrightarrow> (8::nat) \<le> 2 ^ (32 - b)"
proof -
  assume "16 \<le> b" "b \<le> 29"
  then have "(2::nat) ^ 3 \<le> 2 ^ (32 - b)" by (intro power_increasing) auto
  then show ?thesis by simp
qed

lemma masked_layout:
  assumes "16 \<le> pfx_bits p" "pfx_bits p \<le> 29"
  defines "q \<equiv> Prefix_Masked p"
  shows "unat (lastAddr q) = unat (pfx_addr q) + 2 ^ host_bits p - 1"
    and "unat (lastAddr q - 1) = unat (pfx_addr q) + 2 ^ host_bits p - 2"
    and "unat (pfx_addr q + 1) = unat (pfx_addr q) + 1"
proof -
  have k: "(8::nat) \<le> 2 ^ host_bits p" by (rule power_host_bits [OF assms(1,2)])
  have last: "unat (lastAddr q) = unat (pfx_addr q) + (2 ^ host_bits p - 1)"
    using masked_dvd [of p] by (simp add: lastAddr_or q_def unat_or_mask)
  with k show "unat (lastAddr q) = unat (pfx_addr q) + 2 ^ host_bits p - 1" by simp
  have "1 \<le> lastAddr q" using last k by (simp add: word_le_nat_alt)
  then have "unat (lastAddr q - 1) = unat (lastAddr q) - 1" by (simp add: unat_minus_one word_le_nat_alt unat_gt_0 [symmetric] del: unat_gt_0)
  with last k show "unat (lastAddr q - 1) = unat (pfx_addr q) + 2 ^ host_bits p - 2" by simp
  have "pfx_addr q < lastAddr q" using last k by (simp add: word_less_nat_alt)
  then show "unat (pfx_addr q + 1) = unat (pfx_addr q) + 1" by (simp add: unat_next_below)
qed

lemma resolve_wf:
  assumes "resolve spec = Inr l"
  shows "layout_wf l"
proof -
  from assms obtain p where p: "ParsePrefix (sp_cidr spec) = Some (P4 p)"
      "16 \<le> pfx_bits p" "pfx_bits p \<le> 29"
    by (auto simp: resolve_def minPrefixBits_def maxPrefixBits_def Let_def not_less
        split: if_splits option.splits netprefix.splits)
  let ?q = "Prefix_Masked p"
  note lay = masked_layout [OF p(2,3)] and dvd = masked_dvd [of p]
  have k: "(8::nat) \<le> 2 ^ host_bits p" by (rule power_host_bits [OF p(2,3)])
  have gw: "Prefix_Contains ?q (pfx_addr ?q + 1)" "pfx_addr ?q + 1 \<noteq> pfx_addr ?q"
      "pfx_addr ?q + 1 \<noteq> lastAddr ?q" "pfx_addr ?q + 1 \<noteq> lastAddr ?q - 1"
    using lay dvd k by (auto simp: Contains_interval word_unat_eq_iff)
  from assms p obtain g where l: "l = \<lparr>ly_prefix = ?q, ly_network = pfx_addr ?q, ly_gateway = g,
        ly_host = lastAddr ?q - 1, ly_broadcast = lastAddr ?q\<rparr>"
      "g = pfx_addr ?q + 1 \<or> (Prefix_Contains ?q g \<and> g \<noteq> pfx_addr ?q \<and> g \<noteq> lastAddr ?q \<and> g \<noteq> lastAddr ?q - 1)"
    by (auto simp: resolve_def Let_def split: if_splits option.splits netaddr.splits)
  from l(2) gw have "Prefix_Contains ?q g \<and> g \<noteq> pfx_addr ?q \<and> g \<noteq> lastAddr ?q \<and> g \<noteq> lastAddr ?q - 1"
    by auto
  with l(1) lay dvd p show ?thesis by (simp add: layout_wf_def Let_def)
qed

section \<open>The pool\<close>

definition pool_addrs :: "layout \<Rightarrow> ipv4 list" where
  "pool_addrs l = filter (poolContains l) (map word_of_nat [Suc (unat (ly_network l)) ..< unat (ly_broadcast l)])"

lemma eachPool_from_fold:
  "eachPool_from l fn ip s =
   fold_until fn (filter (poolContains l) (map word_of_nat [unat ip ..< unat (ly_broadcast l)])) s"
proof (induction l fn ip s rule: eachPool_from.induct)
  case (1 l fn ip s)
  show ?case
  proof (cases "ip < ly_broadcast l")
    case True
    then have "[unat ip ..< unat (ly_broadcast l)] = unat ip # [unat (ip + 1) ..< unat (ly_broadcast l)]"
      by (simp add: unat_next_below word_less_nat_alt upt_conv_Cons)
    with True 1 show ?thesis
      by (subst eachPool_from.simps) (auto split: prod.splits)
  next
    case False
    then show ?thesis by (subst eachPool_from.simps) (simp add: word_less_nat_alt)
  qed
qed

lemma layout_wf_bounds:
  assumes "layout_wf l"
  defines "n \<equiv> unat (ly_network l)" and "k \<equiv> host_bits (ly_prefix l)"
  shows "(8::nat) \<le> 2 ^ k" "unat (ly_broadcast l) = n + 2 ^ k - 1" "unat (ly_host l) = n + 2 ^ k - 2"
    "n + 2 ^ k - 1 < 2 ^ 32" "unat (ly_network l + 1) = Suc n"
proof -
  show k: "(8::nat) \<le> 2 ^ k" and b: "unat (ly_broadcast l) = n + 2 ^ k - 1"
    "unat (ly_host l) = n + 2 ^ k - 2"
    using assms power_host_bits by (auto simp: layout_wf_def Let_def)
  show "n + 2 ^ k - 1 < 2 ^ 32" using b unat_ipv4_less [of "ly_broadcast l"] by simp
  have "ly_network l < ly_broadcast l" using b k by (simp add: word_less_nat_alt n_def)
  then show "unat (ly_network l + 1) = Suc n" by (simp add: unat_next_below n_def)
qed

lemma eachPool_fold:
  assumes "layout_wf l"
  shows "eachPool l fn s = fold_until fn (pool_addrs l) s"
  using layout_wf_bounds(5) [OF assms] by (simp add: eachPool_def eachPool_from_fold pool_addrs_def)

lemma poolContains_interval:
  assumes "layout_wf l"
  shows "poolContains l ip \<longleftrightarrow> unat (ly_network l) < unat ip \<and>
    unat ip < unat (ly_network l) + 2 ^ host_bits (ly_prefix l) - 2 \<and> ip \<noteq> ly_gateway l"
proof -
  define m :: nat where "m = 2 ^ host_bits (ly_prefix l)"
  note b = layout_wf_bounds [OF assms, folded m_def]
  have "Prefix_Contains (ly_prefix l) ip \<longleftrightarrow> unat (ly_network l) \<le> unat ip \<and>
      unat ip < unat (ly_network l) + m"
    using assms Contains_interval [of "ly_prefix l" ip] by (simp add: layout_wf_def Let_def m_def)
  then have "poolContains l ip \<longleftrightarrow> unat (ly_network l) < unat ip \<and>
      unat ip < unat (ly_network l) + m - 2 \<and> ip \<noteq> ly_gateway l"
    using b(1-3) unfolding poolContains_def word_unat_eq_iff [of ip] by linarith
  then show ?thesis by (simp add: m_def)
qed

lemma set_pool_addrs:
  assumes "layout_wf l"
  shows "set (pool_addrs l) = {ip. poolContains l ip}"
proof -
  note b = layout_wf_bounds [OF assms]
  have "ip \<in> set (pool_addrs l)" if "poolContains l ip" for ip
  proof -
    define m :: nat where "m = 2 ^ host_bits (ly_prefix l)"
    have "unat ip \<in> {Suc (unat (ly_network l)) ..< unat (ly_broadcast l)}"
      using that b(1,2) by (auto simp: poolContains_interval [OF assms] simp flip: m_def)
    then have "(word_of_nat (unat ip) :: ipv4) \<in> word_of_nat ` {Suc (unat (ly_network l)) ..< unat (ly_broadcast l)}"
      by (rule imageI)
    with that show ?thesis by (simp add: pool_addrs_def)
  qed
  then show ?thesis by (auto simp: pool_addrs_def)
qed

lemma sorted_word_of_nat:
  "b \<le> 2 ^ 32 \<Longrightarrow> sorted_wrt (<) (map (word_of_nat :: nat \<Rightarrow> ipv4) [a ..< b])"
proof (induction b)
  case (Suc b)
  then have "x < y" if "x \<in> word_of_nat ` {a..<b}" "y = word_of_nat b" for x y :: ipv4
    using that by (auto simp: word_less_nat_alt unsigned_of_nat take_bit_nat_eq_self)
  with Suc show ?case by (auto simp: sorted_wrt_append)
qed simp

lemma pool_addrs_sorted:
  assumes "layout_wf l"
  shows "sorted_wrt (<) (pool_addrs l)"
  using layout_wf_bounds [OF assms] unfolding pool_addrs_def
  by (intro sorted_wrt_filter sorted_word_of_nat) simp

lemma card_pool:
  assumes "layout_wf l"
  shows "int (card {ip. poolContains l ip}) = poolSize l"
proof -
  define m :: nat where "m = 2 ^ host_bits (ly_prefix l)"
  let ?n = "unat (ly_network l)"
  let ?I = "{Suc ?n ..< ?n + m - 2}"
  note b = layout_wf_bounds [OF assms, folded m_def]
    and pool = poolContains_interval [OF assms, folded m_def]
  have gw: "unat (ly_gateway l) \<in> ?I"
  proof -
    have "Prefix_Contains (ly_prefix l) (ly_gateway l)" "ly_gateway l \<noteq> ly_network l"
      "ly_gateway l \<noteq> ly_host l" "ly_gateway l \<noteq> ly_broadcast l" "2 ^ host_bits (ly_prefix l) dvd ?n"
      "pfx_addr (ly_prefix l) = ly_network l"
      using assms by (auto simp: layout_wf_def Let_def)
    with b Contains_interval [of "ly_prefix l" "ly_gateway l", folded m_def] show ?thesis
      by (auto simp: word_unat_eq_iff simp flip: m_def)
  qed
  have "unat ` {ip. poolContains l ip} = ?I - {unat (ly_gateway l)}"
  proof (intro equalityI subsetI)
    fix x assume x: "x \<in> ?I - {unat (ly_gateway l)}"
    then have "x < 2 ^ 32" using b by auto
    then have "unat (word_of_nat x :: ipv4) = x" by (simp add: unsigned_of_nat take_bit_nat_eq_self)
    with x show "x \<in> unat ` {ip. poolContains l ip}"
      by (intro image_eqI [of _ _ "word_of_nat x"]) (auto simp: pool)
  qed (auto simp: pool word_unat_eq_iff)
  then have "card {ip. poolContains l ip} = card (?I - {unat (ly_gateway l)})"
    by (metis (mono_tags) card_image inj_onI word_unat_eq_iff)
  also have "\<dots> = m - 4" using gw b by simp
  finally show ?thesis using b(1) by (simp add: poolSize_def m_def of_nat_diff)
qed

end
