(* ===== verification/Network.thy ===== *)
theory Network
  imports Net_Addr
begin

text \<open>
  Networks and their manager: \<open>src/internal/network/network.go\<close>,
  \<open>manager.go\<close> and the checks of \<open>forward.go\<close>.  The gateway stack
  (gvisor-tap-vsock) is outside the model: the configuration built for it is a
  value, and the outcome of the calls into it, into the file system and into
  the socket layer is an argument (\<open>net_io\<close>).  The lemmas give the lease
  invariant, the exact result of \<open>Attach\<close> on every branch, the agreement of
  the static DHCP table with the attachments, and the round trip of the
  persisted state.
\<close>

section \<open>Constants and data\<close>

definition SocketName :: string where "SocketName = ''qemu.sock''"
definition netdevID :: string where "netdevID = ''net0''"
definition reconnectMS :: nat where "reconnectMS = 1000"
definition mtu :: nat where "mtu = 1500"
definition loopback :: string where "loopback = ''127.0.0.1''"
definition maxSocketPath :: nat where "maxSocketPath = 107"

record attachment =
  at_vmID :: string
  at_mac :: string
  at_ip :: ipv4
  at_socketPath :: string

record lease =
  le_vmID :: string
  le_mac :: string
  le_ip :: ipv4

record net_stats =
  st_bytesSent :: "64 word"
  st_bytesReceived :: "64 word"
  st_attachments :: int

record net_state =
  ns_spec :: net_spec
  ns_leases :: "(string, string) gomap"

record network =
  nw_spec :: net_spec
  nw_layout :: layout
  nw_dir :: string
  nw_socket :: string
  nw_sent :: "64 word"
  nw_received :: "64 word"
  nw_leases :: "(string, ipv4) gomap"
  nw_conns :: "nat list"
  nw_closed :: bool

datatype tap_protocol = QemuProtocol

record tap_config =
  cfg_mtu :: nat
  cfg_subnet :: string
  cfg_gatewayIP :: string
  cfg_gatewayMac :: string
  cfg_virtualIPs :: "string list"
  cfg_static :: "(string, string) gomap"
  cfg_protocol :: tap_protocol
  cfg_nat :: "(string, string) gomap"
  cfg_dnsSearch :: "string list"

text \<open>Outcomes of the operating system and gateway calls of one operation.\<close>

record net_io =
  io_mkdir :: bool
  io_vn :: bool
  io_remove :: bool
  io_listen :: bool
  io_lnClose :: bool
  io_removeAll :: bool

section \<open>Networks\<close>

text \<open>\<open>qemuEscape\<close> doubles commas.\<close>

fun qemuEscape :: "string \<Rightarrow> string" where
  "qemuEscape [] = []"
| "qemuEscape (c # s) = (if c = CHR '','' then '',,'' @ qemuEscape s else c # qemuEscape s)"

definition Attachment_QEMUArgs :: "attachment \<Rightarrow> string list" where
  "Attachment_QEMUArgs a =
     [''-netdev'', ''stream,id='' @ netdevID @ '',addr.type=unix,addr.path='' @ qemuEscape (at_socketPath a)
        @ '',reconnect-ms='' @ itoa_nat reconnectMS,
      ''-device'', ''virtio-net-pci,netdev='' @ netdevID @ '',mac='' @ at_mac a]"

definition countingConn_Read :: "nat \<Rightarrow> network \<Rightarrow> network" where
  "countingConn_Read n nw = nw\<lparr>nw_received := nw_received nw + word_of_nat n\<rparr>"

definition countingConn_Write :: "nat \<Rightarrow> network \<Rightarrow> network" where
  "countingConn_Write n nw = nw\<lparr>nw_sent := nw_sent nw + word_of_nat n\<rparr>"

fun parseLeases_loop ::
  "layout \<Rightarrow> (string, ipv4) gomap \<Rightarrow> (ipv4, string) gomap \<Rightarrow> (string, string) gomap \<Rightarrow> (string, ipv4) gomap res" where
  "parseLeases_loop l out used [] = Inr out"
| "parseLeases_loop l out used ((vmID, s) # rest) =
     (if vmID = [] then Inl ErrInvalid
      else (case ParseAddr s of
        Some (V4 ip) \<Rightarrow>
          if \<not> poolContains l ip then Inl ErrInvalid
          else (case map_of used ip of
                  Some other \<Rightarrow> Inl ErrInvalid
                | None \<Rightarrow> parseLeases_loop l (AList.update vmID ip out) (AList.update ip vmID used) rest)
      | _ \<Rightarrow> Inl ErrInvalid))"

definition parseLeases :: "layout \<Rightarrow> (string, string) gomap \<Rightarrow> (string, ipv4) gomap res" where
  "parseLeases l leases = parseLeases_loop l [] [] leases"

definition configuration :: "net_spec \<Rightarrow> layout \<Rightarrow> tap_config" where
  "configuration spec l =
     (let mac = (\<lambda>ip. HardwareAddr_String (macFor (sp_name spec) ip));
          pool = eachPool l (\<lambda>ip m. (True, AList.update (Addr_String ip) (mac ip) m)) [];
          static = AList.update (Addr_String (ly_broadcast l)) (mac (ly_broadcast l))
                     (AList.update (Addr_String (ly_host l)) (mac (ly_host l)) pool)
      in \<lparr>cfg_mtu = mtu,
          cfg_subnet = Prefix_String (ly_prefix l),
          cfg_gatewayIP = Addr_String (ly_gateway l),
          cfg_gatewayMac = mac (ly_gateway l),
          cfg_virtualIPs = Addr_String (ly_host l) # (if sp_enableIMDS spec then [IMDSIP] else []),
          cfg_static = static,
          cfg_protocol = QemuProtocol,
          cfg_nat = (if sp_enableHostAlias spec then [(Addr_String (ly_host l), loopback)] else []),
          cfg_dnsSearch = (if sp_dnsSearchDomain spec \<noteq> [] then [sp_dnsSearchDomain spec] else [])\<rparr>)"

definition newNetwork :: "net_io \<Rightarrow> string \<Rightarrow> net_spec \<Rightarrow> (string, string) gomap \<Rightarrow> (network \<times> tap_config) res" where
  "newNetwork io dir spec leases =
     bindE (resolve spec) (\<lambda>l.
     bindE (parseLeases l leases) (\<lambda>restored.
     let socket = filepath_Join [dir, SocketName] in
     bindE (guardE (length socket \<le> maxSocketPath) ErrInvalid) (\<lambda>_.
     bindE (guardE (io_mkdir io) (ErrOther ''create network dir'')) (\<lambda>_.
     bindE (guardE (io_vn io) (ErrOther ''create virtual network'')) (\<lambda>_.
     bindE (guardE (io_remove io) (ErrOther ''remove stale socket'')) (\<lambda>_.
     bindE (guardE (io_listen io) (ErrOther ''listen'')) (\<lambda>_.
     Inr (\<lparr>nw_spec = spec, nw_layout = l, nw_dir = dir, nw_socket = socket, nw_sent = 0,
           nw_received = 0, nw_leases = restored, nw_conns = [], nw_closed = False\<rparr>,
          configuration spec l))))))))"

text \<open>One turn of the accept loop: \<open>None\<close> is an error of \<open>Accept\<close>.\<close>

datatype serve_next = ServeStop | ServeAgain

definition track :: "nat \<Rightarrow> network \<Rightarrow> bool \<times> network" where
  "track conn n = (if nw_closed n then (False, n) else (True, n\<lparr>nw_conns := List.insert conn (nw_conns n)\<rparr>))"

definition untrack :: "nat \<Rightarrow> network \<Rightarrow> network" where
  "untrack conn n = n\<lparr>nw_conns := removeAll conn (nw_conns n)\<rparr>"

definition serve :: "nat option \<Rightarrow> bool \<Rightarrow> network \<Rightarrow> serve_next \<times> network" where
  "serve accepted stopped n =
     (case accepted of
        None \<Rightarrow> (if stopped then ServeStop else ServeAgain, n)
      | Some conn \<Rightarrow> (case track conn n of (ok, n') \<Rightarrow> (if ok then ServeAgain else ServeStop, n')))"

definition Network_State :: "network \<Rightarrow> net_state" where
  "Network_State n = \<lparr>ns_spec = nw_spec n, ns_leases = map (\<lambda>(vm, ip). (vm, Addr_String ip)) (nw_leases n)\<rparr>"

definition freeAddrLocked :: "network \<Rightarrow> ipv4 option" where
  "freeAddrLocked n =
     (let used = map snd (nw_leases n)
      in eachPool (nw_layout n) (\<lambda>ip free. if ip \<in> set used then (True, free) else (False, Some ip)) None)"

definition network_attachment :: "network \<Rightarrow> string \<Rightarrow> ipv4 \<Rightarrow> attachment" where
  "network_attachment n vmID ip =
     \<lparr>at_vmID = vmID, at_mac = HardwareAddr_String (macFor (sp_name (nw_spec n)) ip), at_ip = ip,
      at_socketPath = nw_socket n\<rparr>"

definition Network_Attach :: "error option \<Rightarrow> string \<Rightarrow> network \<Rightarrow> attachment res \<times> network" where
  "Network_Attach ctxErr vmID n =
     (case ctxErr of
        Some e \<Rightarrow> (Inl e, n)
      | None \<Rightarrow>
        if vmID = [] then (Inl ErrInvalid, n)
        else if nw_closed n then (Inl ErrConflict, n)
        else (case map_of (nw_leases n) vmID of
                Some ip \<Rightarrow> (Inr (network_attachment n vmID ip), n)
              | None \<Rightarrow>
                  (case freeAddrLocked n of
                     None \<Rightarrow> (Inl ErrConflict, n)
                   | Some ip \<Rightarrow> (Inr (network_attachment n vmID ip),
                                 n\<lparr>nw_leases := AList.update vmID ip (nw_leases n)\<rparr>))))"

definition Network_Detach :: "string \<Rightarrow> network \<Rightarrow> unit res \<times> network" where
  "Network_Detach vmID n =
     (case map_of (nw_leases n) vmID of
        None \<Rightarrow> (Inl ErrNotFound, n)
      | Some ip \<Rightarrow> (Inr (), n\<lparr>nw_leases := AList.delete vmID (nw_leases n)\<rparr>))"

definition Network_Leases :: "network \<Rightarrow> lease list" where
  "Network_Leases n = sort_key le_ip
     (map (\<lambda>(vm, ip). \<lparr>le_vmID = vm, le_mac = HardwareAddr_String (macFor (sp_name (nw_spec n)) ip), le_ip = ip\<rparr>)
       (nw_leases n))"

definition Network_Stats :: "network \<Rightarrow> net_stats" where
  "Network_Stats n = \<lparr>st_bytesSent = nw_sent n, st_bytesReceived = nw_received n,
     st_attachments = int (length (nw_leases n))\<rparr>"

definition Network_Dial :: "network \<Rightarrow> 'c res \<Rightarrow> 'c res" where
  "Network_Dial n dialed = (if nw_closed n then Inl ErrConflict else dialed)"

definition ListenIMDS :: "network \<Rightarrow> 'l res \<Rightarrow> 'l res" where
  "ListenIMDS n listened =
     (if \<not> sp_enableIMDS (nw_spec n) then Inl ErrUnsupported
      else if nw_closed n then Inl ErrConflict else listened)"

text \<open>After the listener and the connections are closed, \<open>Close\<close> waits for the
  goroutines, each of which untracks its connection.\<close>

definition Network_Close :: "net_io \<Rightarrow> network \<Rightarrow> unit res \<times> network" where
  "Network_Close io n =
     (if nw_closed n then (Inr (), n)
      else ((if io_lnClose io \<and> io_remove io then Inr () else Inl (ErrOther ''close network'')),
            n\<lparr>nw_closed := True, nw_conns := []\<rparr>))"

record port_forward =
  pf_target :: string

definition Network_Forward :: "network \<Rightarrow> bool \<Rightarrow> string \<Rightarrow> int \<Rightarrow> port_forward res" where
  "Network_Forward n listens vmIP port =
     (case ParseAddr vmIP of
        Some (V4 ip) \<Rightarrow>
          if \<not> Prefix_Contains (ly_prefix (nw_layout n)) ip then Inl ErrInvalid
          else if port < 1 \<or> port > 65535 then Inl ErrInvalid
          else if nw_closed n then Inl ErrConflict
          else if \<not> listens then Inl (ErrOther ''listen'')
          else Inr \<lparr>pf_target = Addr_String ip @ '':'' @ Itoa port\<rparr>
      | _ \<Rightarrow> Inl ErrInvalid)"

section \<open>The manager\<close>

record manager =
  mg_stateDir :: string
  mg_nets :: "(string, network) gomap"

definition networksDir :: string where "networksDir = ''networks''"

definition NewManager :: "string \<Rightarrow> manager" where
  "NewManager stateDir = \<lparr>mg_stateDir = stateDir, mg_nets = []\<rparr>"

definition Manager_Dir :: "manager \<Rightarrow> string \<Rightarrow> string" where
  "Manager_Dir m name = filepath_Join [mg_stateDir m, networksDir, name]"

definition Manager_add ::
  "error option \<Rightarrow> net_io \<Rightarrow> net_spec \<Rightarrow> (string, string) gomap \<Rightarrow> manager \<Rightarrow> network res \<times> manager" where
  "Manager_add ctxErr io spec leases m =
     (case ctxErr of
        Some e \<Rightarrow> (Inl e, m)
      | None \<Rightarrow>
        if sp_name spec \<in> fst ` set (mg_nets m) then (Inl ErrConflict, m)
        else (case newNetwork io (Manager_Dir m (sp_name spec)) spec leases of
                Inl e \<Rightarrow> (Inl e, m)
              | Inr (n, cfg) \<Rightarrow> (Inr n, m\<lparr>mg_nets := AList.update (sp_name spec) n (mg_nets m)\<rparr>)))"

definition Manager_Create :: "error option \<Rightarrow> net_io \<Rightarrow> net_spec \<Rightarrow> manager \<Rightarrow> network res \<times> manager" where
  "Manager_Create ctxErr io spec m = Manager_add ctxErr io spec [] m"

fun Manager_Restore :: "error option \<Rightarrow> (string \<Rightarrow> net_io) \<Rightarrow> net_state list \<Rightarrow> manager \<Rightarrow> unit res \<times> manager" where
  "Manager_Restore ctxErr io [] m = (Inr (), m)"
| "Manager_Restore ctxErr io (s # ss) m =
     (case Manager_add ctxErr (io (sp_name (ns_spec s))) (ns_spec s) (ns_leases s) m of
        (Inl e, m') \<Rightarrow> (Inl e, m')
      | (Inr n, m') \<Rightarrow> Manager_Restore ctxErr io ss m')"

definition Manager_Get :: "manager \<Rightarrow> string \<Rightarrow> network res" where
  "Manager_Get m name = (case map_of (mg_nets m) name of None \<Rightarrow> Inl ErrNotFound | Some n \<Rightarrow> Inr n)"

definition Manager_List :: "manager \<Rightarrow> network list" where
  "Manager_List m = sort_key (\<lambda>n. sp_name (nw_spec n)) (map snd (mg_nets m))"

definition Manager_States :: "manager \<Rightarrow> net_state list" where
  "Manager_States m = map Network_State (Manager_List m)"

definition Manager_Delete :: "error option \<Rightarrow> net_io \<Rightarrow> string \<Rightarrow> manager \<Rightarrow> unit res \<times> manager" where
  "Manager_Delete ctxErr io name m =
     (case ctxErr of
        Some e \<Rightarrow> (Inl e, m)
      | None \<Rightarrow>
        (case map_of (mg_nets m) name of
           None \<Rightarrow> (Inl ErrNotFound, m)
         | Some n \<Rightarrow>
             if length (Network_Leases n) > 0 then (Inl ErrConflict, m)
             else (case Network_Close io n of
                     (closed, _) \<Rightarrow>
                       ((if closed = Inr () \<and> io_removeAll io then Inr () else Inl (ErrOther ''delete network'')),
                        m\<lparr>mg_nets := AList.delete name (mg_nets m)\<rparr>))))"

definition Manager_Close :: "(string \<Rightarrow> net_io) \<Rightarrow> manager \<Rightarrow> unit res \<times> manager" where
  "Manager_Close io m =
     ((if list_all (\<lambda>(name, n). fst (Network_Close (io name) n) = Inr ()) (mg_nets m)
       then Inr () else Inl (ErrOther ''close networks'')),
      m\<lparr>mg_nets := []\<rparr>)"

section \<open>The lease invariant\<close>

definition lease_ok :: "layout \<Rightarrow> (string, ipv4) gomap \<Rightarrow> bool" where
  "lease_ok l leases \<longleftrightarrow> distinct (map fst leases) \<and> distinct (map snd leases) \<and>
     list_all (\<lambda>(vm, ip). vm \<noteq> [] \<and> poolContains l ip) leases"

definition net_inv :: "network \<Rightarrow> bool" where
  "net_inv n \<longleftrightarrow> resolve (nw_spec n) = Inr (nw_layout n) \<and> lease_ok (nw_layout n) (nw_leases n) \<and>
     nw_socket n = filepath_Join [nw_dir n, SocketName] \<and> length (nw_socket n) \<le> maxSocketPath"

lemma net_inv_wf: "net_inv n \<Longrightarrow> layout_wf (nw_layout n)"
  by (auto simp: net_inv_def intro: resolve_wf)

lemma AList_update_notin: "k \<notin> fst ` set xs \<Longrightarrow> AList.update k v xs = xs @ [(k, v)]"
  by (induction xs) auto

lemma lease_ok_update:
  assumes "lease_ok l m" "vm \<noteq> []" "poolContains l ip" "ip \<notin> snd ` set m" "vm \<notin> fst ` set m"
  shows "lease_ok l (AList.update vm ip m)"
  using assms by (auto simp: lease_ok_def AList_update_notin)

lemma lease_ok_delete:
  assumes "lease_ok l m"
  shows "lease_ok l (AList.delete vm m)"
  using assms by (auto simp: lease_ok_def list_all_iff AList.delete_eq distinct_map_filter)

lemma lease_ok_append:
  "lease_ok l (m @ [(vm, ip)]) \<longleftrightarrow>
   lease_ok l m \<and> vm \<noteq> [] \<and> poolContains l ip \<and> ip \<notin> snd ` set m \<and> vm \<notin> fst ` set m"
  by (auto simp: lease_ok_def)

lemma parseLeases_loop_ok:
  assumes "parseLeases_loop l out used leases = Inr m" "lease_ok l out"
    and "\<forall>ip. map_of used ip = None \<longrightarrow> ip \<notin> snd ` set out"
    and "distinct (map fst leases)" "fst ` set out \<inter> fst ` set leases = {}"
  shows "lease_ok l m"
  using assms
proof (induction leases arbitrary: out used)
  case (Cons e leases)
  obtain vm s where e: "e = (vm, s)" by (cases e)
  from Cons.prems(1) e obtain ip where ip: "vm \<noteq> []" "poolContains l ip" "map_of used ip = None"
    "parseLeases_loop l (AList.update vm ip out) (AList.update ip vm used) leases = Inr m"
    by (auto split: if_splits option.splits netaddr.splits)
  have fresh: "vm \<notin> fst ` set out" "ip \<notin> snd ` set out" using Cons.prems(3,5) e ip(3) by auto
  show ?case
  proof (rule Cons.IH [OF ip(4)])
    show "lease_ok l (AList.update vm ip out)" by (rule lease_ok_update) (use fresh ip Cons.prems in auto)
    show "\<forall>ip'. map_of (AList.update ip vm used) ip' = None \<longrightarrow> ip' \<notin> snd ` set (AList.update vm ip out)"
      using Cons.prems(3) fresh by (auto simp: AList_update_notin)
  qed (use Cons.prems e fresh in \<open>auto simp: AList_update_notin\<close>)
qed simp

lemma parseLeases_ok:
  "parseLeases l leases = Inr m \<Longrightarrow> distinct (map fst leases) \<Longrightarrow> lease_ok l m"
  unfolding parseLeases_def by (erule parseLeases_loop_ok) (auto simp: lease_ok_def)

lemma newNetwork_inv:
  assumes "newNetwork io dir spec leases = Inr (n, cfg)" "distinct (map fst leases)"
  shows "net_inv n" "nw_spec n = spec" "nw_dir n = dir" "cfg = configuration spec (nw_layout n)"
  using assms by (auto simp: newNetwork_def bindE_Inr_iff Let_def net_inv_def intro: parseLeases_ok)

lemma freeAddr_find:
  assumes "layout_wf (nw_layout n)"
  shows "freeAddrLocked n = List.find (\<lambda>ip. ip \<notin> snd ` set (nw_leases n)) (pool_addrs (nw_layout n))"
  unfolding freeAddrLocked_def Let_def eachPool_fold [OF assms] fold_until_find
  by (simp split: option.splits)

lemma freeAddr_Some:
  assumes "layout_wf (nw_layout n)" "freeAddrLocked n = Some ip"
  shows "poolContains (nw_layout n) ip" "ip \<notin> snd ` set (nw_leases n)"
    and "poolContains (nw_layout n) ip' \<Longrightarrow> ip' < ip \<Longrightarrow> ip' \<in> snd ` set (nw_leases n)"
proof -
  let ?xs = "pool_addrs (nw_layout n)"
  from assms obtain i where i: "i < length ?xs" "ip \<notin> snd ` set (nw_leases n)" "?xs ! i = ip"
    "\<forall>j<i. ?xs ! j \<in> snd ` set (nw_leases n)"
    by (auto simp: freeAddr_find find_Some_iff)
  then show "ip \<notin> snd ` set (nw_leases n)" "poolContains (nw_layout n) ip"
    using set_pool_addrs [OF assms(1)] nth_mem by auto
  show "ip' \<in> snd ` set (nw_leases n)" if "poolContains (nw_layout n) ip'" "ip' < ip"
  proof -
    from that(1) set_pool_addrs [OF assms(1)] obtain j where j: "j < length ?xs" "?xs ! j = ip'"
      by (metis in_set_conv_nth mem_Collect_eq)
    have "j < i"
      using sorted_wrt_nth_less [OF pool_addrs_sorted [OF assms(1)], of i j] j i that(2)
      by (metis linorder_neqE_nat order_less_asym order_less_irrefl)
    with i j show ?thesis by auto
  qed
qed

lemma lease_card:
  assumes "layout_wf l" "lease_ok l m"
  shows "int (length m) \<le> poolSize l" "int (length m) = poolSize l \<longleftrightarrow> snd ` set m = {ip. poolContains l ip}"
proof -
  let ?P = "{ip. poolContains l ip}"
  have len: "length m = card (snd ` set m)"
    using assms(2) distinct_card [of "map snd m"] by (simp add: lease_ok_def)
  have sub: "snd ` set m \<subseteq> ?P" using assms(2) by (auto simp: lease_ok_def list_all_iff)
  have fin: "finite ?P" by simp
  show "int (length m) \<le> poolSize l"
    using len card_mono [OF fin sub] card_pool [OF assms(1)] by simp
  have "int (length m) = poolSize l \<longleftrightarrow> card (snd ` set m) = card ?P"
    using len card_pool [OF assms(1)] by (metis of_nat_eq_iff)
  then show "int (length m) = poolSize l \<longleftrightarrow> snd ` set m = ?P"
    using card_subset_eq [OF fin sub] by metis
qed

lemma freeAddr_None:
  assumes "net_inv n"
  shows "freeAddrLocked n = None \<longleftrightarrow> int (length (nw_leases n)) = poolSize (nw_layout n)"
proof -
  have wf: "layout_wf (nw_layout n)" using assms by (rule net_inv_wf)
  have ok: "lease_ok (nw_layout n) (nw_leases n)" using assms by (simp add: net_inv_def)
  have "freeAddrLocked n = None \<longleftrightarrow> {ip. poolContains (nw_layout n) ip} \<subseteq> snd ` set (nw_leases n)"
    using set_pool_addrs [OF wf] by (auto simp: freeAddr_find [OF wf] find_None_iff)
  also have "\<dots> \<longleftrightarrow> snd ` set (nw_leases n) = {ip. poolContains (nw_layout n) ip}"
    using ok by (auto simp: lease_ok_def list_all_iff)
  also have "\<dots> \<longleftrightarrow> int (length (nw_leases n)) = poolSize (nw_layout n)"
    using lease_card(2) [OF wf ok] by simp
  finally show ?thesis .
qed

lemma attach_inv [inv_intros]: "net_inv n \<Longrightarrow> net_inv (snd (Network_Attach c vm n))"
  by (auto simp: Network_Attach_def net_inv_def intro!: lease_ok_update
      dest: freeAddr_Some [OF resolve_wf] split: option.splits simp: map_of_eq_None_iff)

lemma detach_inv [inv_intros]: "net_inv n \<Longrightarrow> net_inv (snd (Network_Detach vm n))"
  by (auto simp: Network_Detach_def net_inv_def lease_ok_delete split: option.splits)

lemma close_inv [inv_intros]: "net_inv n \<Longrightarrow> net_inv (snd (Network_Close io n))"
  by (auto simp: Network_Close_def net_inv_def)

section \<open>Hardware addresses and the static lease table\<close>

lemma hex_byte_inject: "hex_byte x = hex_byte y \<longleftrightarrow> x = y"
  using hex_EncodeToString_inject [of "[x]" "[y]"] by (auto simp: hex_EncodeToString_def)

lemma hex_byte_colon: "CHR '':'' \<notin> set (hex_byte b)"
proof -
  have "\<forall>n \<in> set [0..<16]. hexdigit n \<noteq> CHR '':''" by code_simp
  moreover have "unat b div 16 < 16" "unat b mod 16 < 16" using unat_byte_less [of b] by simp_all
  ultimately have "hexdigit (unat b div 16) \<noteq> CHR '':''" "hexdigit (unat b mod 16) \<noteq> CHR '':''"
    by (simp_all only: set_upt atLeastLessThan_iff) auto
  then show ?thesis by (auto simp: hex_byte_def)
qed

lemma HardwareAddr_String_inject:
  assumes "HardwareAddr_String xs = HardwareAddr_String ys" "xs \<noteq> []" "ys \<noteq> []"
  shows "xs = ys"
proof -
  have "Split (CHR '':'') (Join '':'' (map hex_byte zs)) = map hex_byte zs" if "zs \<noteq> []" for zs
    using that by (intro Split_Join) (simp_all add: list_all_iff hex_byte_colon)
  with assms have "map hex_byte xs = map hex_byte ys" by (metis HardwareAddr_String_def)
  moreover have "inj hex_byte" by (simp add: inj_def hex_byte_inject)
  ultimately show ?thesis by (simp add: inj_map_eq_map)
qed

abbreviation mac_string :: "string \<Rightarrow> ipv4 \<Rightarrow> string" where
  "mac_string name ip \<equiv> HardwareAddr_String (macFor name ip)"

lemma mac_string_inject [simp]: "mac_string name ip = mac_string name ip' \<longleftrightarrow> ip = ip'"
  by (auto dest!: HardwareAddr_String_inject simp: macFor_def dest: As4_inject)

lemma map_of_fold_update:
  assumes "inj f"
  shows "map_of (fold (\<lambda>x m. AList.update (f x) (g x) m) xs m0) (f y) =
    (if y \<in> set xs then Some (g y) else map_of m0 (f y))"
  using assms by (induction xs arbitrary: m0) (auto simp: inj_eq)

lemma fold_update_keys:
  "fst ` set (fold (\<lambda>x m. AList.update (f x) (g x) m) xs m0) = f ` set xs \<union> fst ` set m0"
  by (induction xs arbitrary: m0) (auto simp: dom_map_of_conv_image_fst [symmetric])

text \<open>The table leases every pool address, the host alias and the broadcast
  address to its own MAC and holds nothing else.\<close>

lemma static_table:
  assumes "layout_wf l"
  shows "map_of (cfg_static (configuration spec l)) s = Some mac \<longleftrightarrow>
    (\<exists>ip. s = Addr_String ip \<and> mac = mac_string (sp_name spec) ip \<and>
      (poolContains l ip \<or> ip = ly_host l \<or> ip = ly_broadcast l))"
proof -
  let ?mac = "mac_string (sp_name spec)"
  let ?t = "fold (\<lambda>ip m. AList.update (Addr_String ip) (?mac ip) m) (pool_addrs l) []"
  have inj: "inj Addr_String" by (simp add: inj_def Addr_String_inject)
  have cfg: "cfg_static (configuration spec l) =
      AList.update (Addr_String (ly_broadcast l)) (?mac (ly_broadcast l))
        (AList.update (Addr_String (ly_host l)) (?mac (ly_host l)) ?t)"
    by (simp add: configuration_def Let_def eachPool_fold [OF assms] fold_until_all)
  have "map_of ?t s = Some mac \<longleftrightarrow> (\<exists>ip. s = Addr_String ip \<and> mac = ?mac ip \<and> poolContains l ip)"
  proof (cases "s \<in> range Addr_String")
    case True
    then obtain ip where "s = Addr_String ip" by auto
    then show ?thesis
      using set_pool_addrs [OF assms] by (auto simp: map_of_fold_update [OF inj] Addr_String_inject)
  next
    case False
    then have "s \<notin> fst ` set ?t" by (auto simp: fold_update_keys)
    with False show ?thesis by (auto simp: map_of_eq_None_iff [symmetric])
  qed
  then show ?thesis unfolding cfg by (auto simp: Addr_String_inject)
qed

section \<open>Restoring persisted state\<close>

lemma parseLeases_loop_State:
  assumes "lease_ok l (out @ ls)" "\<forall>ip. map_of used ip = None \<longleftrightarrow> ip \<notin> snd ` set out"
  shows "parseLeases_loop l out used (map (\<lambda>(vm, ip). (vm, Addr_String ip)) ls) = Inr (out @ ls)"
  using assms
proof (induction ls arbitrary: out used)
  case (Cons e ls)
  obtain vm ip where e: "e = (vm, ip)" by (cases e)
  have ok: "lease_ok l (out @ [(vm, ip)])" "lease_ok l ((out @ [(vm, ip)]) @ ls)"
    using Cons.prems(1) e by (auto simp: lease_ok_def)
  then have fresh: "vm \<noteq> []" "poolContains l ip" "ip \<notin> snd ` set out" "vm \<notin> fst ` set out"
    by (auto simp: lease_ok_append)
  have "parseLeases_loop l (out @ [(vm, ip)]) (AList.update ip vm used)
      (map (\<lambda>(vm, ip). (vm, Addr_String ip)) ls) = Inr ((out @ [(vm, ip)]) @ ls)"
    using ok(2) by (rule Cons.IH) (use Cons.prems(2) in auto)
  moreover have "map_of used ip = None" using Cons.prems(2) fresh(3) by blast
  ultimately show ?case using e fresh by (simp add: AList_update_notin)
qed simp

lemma State_spec [simp]: "ns_spec (Network_State n) = nw_spec n"
  by (simp add: Network_State_def)

lemma parseLeases_State:
  "net_inv n \<Longrightarrow> parseLeases (nw_layout n) (ns_leases (Network_State n)) = Inr (nw_leases n)"
  by (simp add: parseLeases_def Network_State_def parseLeases_loop_State net_inv_def)

definition io_ok :: "net_io \<Rightarrow> bool" where
  "io_ok io \<longleftrightarrow> io_mkdir io \<and> io_vn io \<and> io_remove io \<and> io_listen io"

lemma newNetwork_State:
  assumes "net_inv n" "io_ok io"
  obtains n' where "newNetwork io (nw_dir n) (nw_spec n) (ns_leases (Network_State n)) =
      Inr (n', configuration (nw_spec n) (nw_layout n))"
    "nw_spec n' = nw_spec n" "nw_leases n' = nw_leases n" "nw_dir n' = nw_dir n" "net_inv n'"
proof -
  let ?n = "\<lparr>nw_spec = nw_spec n, nw_layout = nw_layout n, nw_dir = nw_dir n, nw_socket = nw_socket n,
    nw_sent = 0, nw_received = 0, nw_leases = nw_leases n, nw_conns = [], nw_closed = False\<rparr>"
  have sock: "length (filepath_Join [nw_dir n, SocketName]) \<le> maxSocketPath"
    and res: "resolve (nw_spec n) = Inr (nw_layout n)"
    and eq: "nw_socket n = filepath_Join [nw_dir n, SocketName]"
    using assms(1) by (metis net_inv_def)+
  have "newNetwork io (nw_dir n) (nw_spec n) (ns_leases (Network_State n)) =
      Inr (?n, configuration (nw_spec n) (nw_layout n))"
    using assms(2) parseLeases_State [OF assms(1)] sock
    by (simp add: newNetwork_def io_ok_def Let_def res eq guardE_def)
  moreover have "net_inv ?n" using assms(1) sock by (simp add: net_inv_def)
  ultimately show thesis by (intro that [of ?n]) simp_all
qed

definition mgr_inv :: "manager \<Rightarrow> bool" where
  "mgr_inv m \<longleftrightarrow> distinct (map fst (mg_nets m)) \<and>
     list_all (\<lambda>(name, n). name = sp_name (nw_spec n) \<and> net_inv n \<and> nw_dir n = Manager_Dir m name) (mg_nets m)"

text \<open>What of a network survives a restart.\<close>

definition durable :: "network \<Rightarrow> net_spec \<times> (string, ipv4) gomap" where
  "durable n = (nw_spec n, nw_leases n)"

lemma durable_spec: "durable n' = durable n \<Longrightarrow> nw_spec n' = nw_spec n"
  by (simp add: durable_def)

lemma add_inv [inv_intros]:
  assumes "mgr_inv m" "distinct (map fst leases)"
  shows "mgr_inv (snd (Manager_add c io spec leases m))"
proof (cases "snd (Manager_add c io spec leases m) = m")
  case False
  then obtain n cfg where n: "newNetwork io (Manager_Dir m (sp_name spec)) spec leases = Inr (n, cfg)"
      "sp_name spec \<notin> fst ` set (mg_nets m)"
      "snd (Manager_add c io spec leases m) = m\<lparr>mg_nets := AList.update (sp_name spec) n (mg_nets m)\<rparr>"
    by (auto simp: Manager_add_def split: option.splits if_splits sum.splits prod.splits)
  from newNetwork_inv [OF n(1) assms(2)] assms(1) n(2,3) show ?thesis
    by (auto simp: mgr_inv_def Manager_Dir_def AList_update_notin list_all_iff)
qed (use assms in simp)

lemma delete_inv [inv_intros]: "mgr_inv m \<Longrightarrow> mgr_inv (snd (Manager_Delete c io name m))"
  by (auto simp: Manager_Delete_def mgr_inv_def Manager_Dir_def list_all_iff AList.delete_eq
      split: option.splits prod.splits)

lemma Restore_networks:
  assumes "list_all (\<lambda>n. net_inv n \<and> nw_dir n = Manager_Dir m (sp_name (nw_spec n))) ns"
    and "distinct (map (sp_name \<circ> nw_spec) ns)" "\<forall>n \<in> set ns. sp_name (nw_spec n) \<notin> fst ` set (mg_nets m)"
    and "\<forall>name. io_ok (io name)"
  shows "\<exists>ns'. Manager_Restore None io (map Network_State ns) m =
      (Inr (), m\<lparr>mg_nets := mg_nets m @ map (\<lambda>n. (sp_name (nw_spec n), n)) ns'\<rparr>) \<and>
      map durable ns' = map durable ns"
  using assms
proof (induction ns arbitrary: m)
  case (Cons n ns)
  from Cons.prems have n: "net_inv n" "nw_dir n = Manager_Dir m (sp_name (nw_spec n))" by auto
  from Cons.prems(4) have "io_ok (io (sp_name (nw_spec n)))" by blast
  from newNetwork_State [OF n(1) this] obtain n' where n':
    "newNetwork (io (sp_name (nw_spec n))) (nw_dir n) (nw_spec n) (ns_leases (Network_State n)) =
      Inr (n', configuration (nw_spec n) (nw_layout n))" "durable n' = durable n"
    by (metis durable_def)
  let ?m = "m\<lparr>mg_nets := mg_nets m @ [(sp_name (nw_spec n), n')]\<rparr>"
  have dir: "Manager_Dir ?m = Manager_Dir m" by (simp add: Manager_Dir_def fun_eq_iff)
  have add: "Manager_add None (io (sp_name (nw_spec n))) (nw_spec n) (ns_leases (Network_State n)) m = (Inr n', ?m)"
    using n' n(2) Cons.prems(3) by (simp add: Manager_add_def AList_update_notin)
  from Cons.prems have "\<exists>ns'. Manager_Restore None io (map Network_State ns) ?m =
      (Inr (), ?m\<lparr>mg_nets := mg_nets ?m @ map (\<lambda>n. (sp_name (nw_spec n), n)) ns'\<rparr>) \<and>
      map durable ns' = map durable ns"
    by (intro Cons.IH) (auto simp: dir dest: image_eqI [OF sym, of _ "sp_name \<circ> nw_spec"])
  then obtain ns' where "Manager_Restore None io (map Network_State ns) ?m =
      (Inr (), m\<lparr>mg_nets := mg_nets m @ (sp_name (nw_spec n), n') # map (\<lambda>n. (sp_name (nw_spec n), n)) ns'\<rparr>)"
      "map durable ns' = map durable ns" by auto
  with add n'(2) show ?case
    by (intro exI [of _ "n' # ns'"]) (simp add: durable_spec [OF n'(2)])
qed simp

section \<open>The lease interface\<close>

text \<open>What the VM service relies on: an address belongs to one VM, and stays
  with it until that VM is detached.\<close>

datatype lease_op = OpAttach string | OpDetach string

locale lease_table =
  fixes attach :: "string \<Rightarrow> 'n \<Rightarrow> 'n"
    and detach :: "string \<Rightarrow> 'n \<Rightarrow> 'n"
    and held :: "'n \<Rightarrow> string \<Rightarrow> 'ip option"
    and inv :: "'n \<Rightarrow> bool"
  assumes attach_keeps: "inv n \<Longrightarrow> inv (attach vm n)"
    and detach_keeps: "inv n \<Longrightarrow> inv (detach vm n)"
    and held_unique: "inv n \<Longrightarrow> held n a = Some ip \<Longrightarrow> held n b = Some ip \<Longrightarrow> a = b"
    and attach_frame: "inv n \<Longrightarrow> held n a = Some ip \<Longrightarrow> held (attach vm n) a = Some ip"
    and detach_frame: "inv n \<Longrightarrow> a \<noteq> vm \<Longrightarrow> held (detach vm n) a = held n a"
begin

primrec apply_op :: "lease_op \<Rightarrow> 'n \<Rightarrow> 'n" where
  "apply_op (OpAttach vm) n = attach vm n"
| "apply_op (OpDetach vm) n = detach vm n"

lemma apply_op_keeps: "inv n \<Longrightarrow> inv (apply_op p n)"
  by (cases p) (simp_all add: attach_keeps detach_keeps)

lemma held_stable:
  assumes "inv n" "held n a = Some ip" "OpDetach a \<notin> set ops"
  shows "held (fold apply_op ops n) a = Some ip \<and> inv (fold apply_op ops n)"
  using assms
proof (induction ops arbitrary: n)
  case (Cons p ops)
  have "held (apply_op p n) a = Some ip"
    using Cons.prems by (cases p) (auto simp: attach_frame detach_frame)
  with Cons apply_op_keeps show ?case by simp
qed simp

lemma held_exclusive:
  assumes "inv n" "held n a = Some ip" "OpDetach a \<notin> set ops" "b \<noteq> a"
  shows "held (fold apply_op ops n) b \<noteq> Some ip"
  using held_stable [OF assms(1-3)] held_unique assms(4) by blast

end

abbreviation net_attach :: "string \<Rightarrow> network \<Rightarrow> network" where
  "net_attach vm n \<equiv> snd (Network_Attach None vm n)"

abbreviation net_detach :: "string \<Rightarrow> network \<Rightarrow> network" where
  "net_detach vm n \<equiv> snd (Network_Detach vm n)"

abbreviation net_held :: "network \<Rightarrow> string \<Rightarrow> ipv4 option" where
  "net_held n \<equiv> map_of (nw_leases n)"

lemma lease_ok_inject:
  assumes "lease_ok l m" "map_of m a = Some ip" "map_of m b = Some ip"
  shows "a = b"
proof -
  have "inj_on snd (set m)" using assms(1) by (simp add: lease_ok_def distinct_map)
  moreover have "(a, ip) \<in> set m" "(b, ip) \<in> set m" using assms(2,3) by (auto dest: map_of_SomeD)
  ultimately have "(a, ip) = (b, ip)" by (metis inj_onD snd_conv)
  then show ?thesis by simp
qed

primrec net_op :: "lease_op \<Rightarrow> network \<Rightarrow> network" where
  "net_op (OpAttach vm) n = snd (Network_Attach None vm n)"
| "net_op (OpDetach vm) n = snd (Network_Detach vm n)"

interpretation net_leases: lease_table net_attach net_detach net_held net_inv
proof
  fix n a b ip vm
  assume inv: "net_inv n"
  show "net_inv (net_attach vm n)" "net_inv (net_detach vm n)"
    by (rule attach_inv [OF inv], rule detach_inv [OF inv])
  show "a = b" if "net_held n a = Some ip" "net_held n b = Some ip"
    using inv that lease_ok_inject by (auto simp: net_inv_def)
  show "net_held (net_attach vm n) a = Some ip" if "net_held n a = Some ip"
    using that by (auto simp: Network_Attach_def split: option.splits)
  show "net_held (net_detach vm n) a = net_held n a" if "a \<noteq> vm"
    using that by (auto simp: Network_Detach_def split: option.splits)
qed

section \<open>Runs of a network\<close>

datatype net_event =
    EvAttach string "attachment res"
  | EvDetach string "unit res"
  | EvServe serve_next
  | EvUntrack nat
  | EvTraffic
  | EvClose "unit res"

inductive net_step :: "network \<Rightarrow> net_event \<Rightarrow> network \<Rightarrow> bool" where
  net_attach: "Network_Attach c vm n = (r, n') \<Longrightarrow> net_step n (EvAttach vm r) n'"
| net_detach: "Network_Detach vm n = (r, n') \<Longrightarrow> net_step n (EvDetach vm r) n'"
| net_serve: "serve accepted stopped n = (r, n') \<Longrightarrow> net_step n (EvServe r) n'"
| net_untrack: "net_step n (EvUntrack conn) (untrack conn n)"
| net_read: "net_step n EvTraffic (countingConn_Read k n)"
| net_write: "net_step n EvTraffic (countingConn_Write k n)"
| net_close: "Network_Close io n = (r, n') \<Longrightarrow> net_step n (EvClose r) n'"

inductive_simps net_step_attach: "net_step n (EvAttach vm r) n'"

definition net_started :: "network \<Rightarrow> bool" where
  "net_started n \<longleftrightarrow> (\<exists>io dir spec leases cfg.
     newNetwork io dir spec leases = Inr (n, cfg) \<and> distinct (map fst leases))"

lemma net_step_inv:
  assumes "net_step n e n'" "net_inv n"
  shows "net_inv n'"
  using assms
proof (cases rule: net_step.cases)
  case (net_attach c vm r)
  then show ?thesis using attach_inv [OF assms(2), of c vm] by simp
next
  case (net_detach vm r)
  then show ?thesis using detach_inv [OF assms(2), of vm] by simp
next
  case (net_close io r)
  then show ?thesis using close_inv [OF assms(2), of io] by simp
qed (use assms(2) in \<open>auto simp: net_inv_def serve_def track_def untrack_def countingConn_Read_def
  countingConn_Write_def split: option.splits if_splits prod.splits\<close>)

lemma net_run_inv:
  assumes "reachable net_started net_step es n"
  shows "net_inv n"
  using assms
  by (rule reachable_invariant) (auto simp: net_started_def intro: newNetwork_inv net_step_inv)

section \<open>Example network\<close>

definition demo_spec :: net_spec where
  "demo_spec = \<lparr>sp_name = ''default'', sp_cidr = ''10.0.0.0/29'', sp_gatewayIP = [],
     sp_dnsSearchDomain = [], sp_enableIMDS = True, sp_enableHostAlias = False\<rparr>"

definition demo_layout :: layout where
  "demo_layout = \<lparr>ly_prefix = \<lparr>pfx_addr = 0x0A000000, pfx_bits = 29\<rparr>, ly_network = 0x0A000000,
     ly_gateway = 0x0A000001, ly_host = 0x0A000006, ly_broadcast = 0x0A000007\<rparr>"

definition demo_net :: network where
  "demo_net = \<lparr>nw_spec = demo_spec, nw_layout = demo_layout, nw_dir = ''/run/n'',
     nw_socket = ''/run/n/qemu.sock'', nw_sent = 0, nw_received = 0,
     nw_leases = [(''a'', 0x0A000002), (''b'', 0x0A000004)], nw_conns = [], nw_closed = False\<rparr>"

lemma demo_resolve: "resolve demo_spec = Inr demo_layout"
  by code_simp

lemma demo_inv: "net_inv demo_net"
proof -
  have "lease_ok (nw_layout demo_net) (nw_leases demo_net)" by code_simp
  moreover have "nw_socket demo_net = filepath_Join [nw_dir demo_net, SocketName]" by code_simp
  moreover have "length (nw_socket demo_net) \<le> maxSocketPath" by code_simp
  moreover have "resolve (nw_spec demo_net) = Inr (nw_layout demo_net)"
    by (simp add: demo_net_def demo_resolve)
  ultimately show ?thesis by (simp add: net_inv_def)
qed

section \<open>Properties\<close>

text \<open>
  C25. For every specification \<open>resolve\<close> accepts, \<open>eachPool\<close> visits exactly the
  addresses \<open>poolContains\<close> admits, each once and in ascending order, and there are
  \<open>poolSize\<close> of them, which is at least four.
\<close>

theorem pool_enumeration:
  assumes "resolve spec = Inr l"
  defines "visited \<equiv> eachPool l (\<lambda>ip acc. (True, acc @ [ip])) []"
  shows "sorted_wrt (<) visited \<and> set visited = {ip. poolContains l ip} \<and>
    int (length visited) = poolSize l \<and> 4 \<le> poolSize l"
proof -
  have wf: "layout_wf l" using assms(1) by (rule resolve_wf)
  have "fold (\<lambda>ip acc. acc @ [ip]) xs acc = acc @ xs" for xs acc :: "ipv4 list"
    by (induction xs arbitrary: acc) auto
  then have v: "visited = pool_addrs l"
    unfolding visited_def eachPool_fold [OF wf] fold_until_all by simp
  have "length visited = card (set visited)"
    using pool_addrs_sorted [OF wf] v by (metis distinct_card strict_sorted_iff)
  then have "int (length visited) = poolSize l"
    using card_pool [OF wf] set_pool_addrs [OF wf] v by simp
  moreover have "4 \<le> poolSize l"
    using layout_wf_bounds(1) [OF wf] unfolding poolSize_def
    by (metis add.commute le_diff_eq numeral_Bit0 numeral_le_iff of_nat_le_iff of_nat_numeral of_nat_power)
  ultimately show ?thesis using v pool_addrs_sorted [OF wf] set_pool_addrs [OF wf] by simp
qed

theorem pool_enumeration_witness:
  "sorted_wrt (<) (eachPool demo_layout (\<lambda>ip acc. (True, acc @ [ip])) []) \<and> 4 \<le> poolSize demo_layout"
  using pool_enumeration [OF demo_resolve] by simp

text \<open>
  \<open>Attach\<close> on a network that satisfies the invariant, for a live context and
  a VM id: it fails with a conflict when the network is closed; it gives a VM its
  own lease back and changes nothing; otherwise it gives the lowest pool address
  no VM holds and records it, and it fails with a conflict exactly when the pool
  is exhausted.
\<close>

theorem attach_lowest_free:
  assumes "net_inv n" "vm \<noteq> []"
  shows "if nw_closed n then Network_Attach None vm n = (Inl ErrConflict, n)
    else case map_of (nw_leases n) vm of
      Some ip \<Rightarrow> Network_Attach None vm n = (Inr (network_attachment n vm ip), n)
    | None \<Rightarrow>
        if int (length (nw_leases n)) = poolSize (nw_layout n)
        then Network_Attach None vm n = (Inl ErrConflict, n)
        else \<exists>ip. Network_Attach None vm n =
              (Inr (network_attachment n vm ip), n\<lparr>nw_leases := AList.update vm ip (nw_leases n)\<rparr>) \<and>
            poolContains (nw_layout n) ip \<and> ip \<notin> snd ` set (nw_leases n) \<and>
            (\<forall>ip'. poolContains (nw_layout n) ip' \<and> ip' < ip \<longrightarrow> ip' \<in> snd ` set (nw_leases n))"
proof -
  note free = freeAddr_Some [OF net_inv_wf [OF assms(1)]] and none = freeAddr_None [OF assms(1)]
  show ?thesis
  proof (cases "freeAddrLocked n")
    case None
    with assms(2) none show ?thesis by (auto simp: Network_Attach_def split: option.split)
  next
    case (Some ip)
    with none have "int (length (nw_leases n)) \<noteq> poolSize (nw_layout n)" by simp
    with Some assms(2) free [OF Some] show ?thesis
      by (auto simp: Network_Attach_def split: option.split intro!: exI [of _ ip])
  qed
qed

theorem attach_lowest_free_witness:
  "\<exists>ip. Network_Attach None ''c'' demo_net =
      (Inr (network_attachment demo_net ''c'' ip),
       demo_net\<lparr>nw_leases := AList.update ''c'' ip (nw_leases demo_net)\<rparr>) \<and>
    poolContains (nw_layout demo_net) ip"
proof -
  have "\<not> nw_closed demo_net" "map_of (nw_leases demo_net) ''c'' = None"
    "int (length (nw_leases demo_net)) \<noteq> poolSize (nw_layout demo_net)" by code_simp+
  with attach_lowest_free [OF demo_inv, of "''c''"] show ?thesis by auto
qed

text \<open>
  C17. At every point of a network's life, after any interleaving of attaches,
  detaches, connections, traffic and a close, every lease is a pool address (so
  never the network, gateway, host-alias or broadcast address), no two VMs hold
  the same one, and there are at most \<open>poolSize\<close> leases.
\<close>

theorem leases_valid:
  assumes "reachable net_started net_step es n"
  shows "(\<forall>vm ip. map_of (nw_leases n) vm = Some ip \<longrightarrow> poolContains (nw_layout n) ip) \<and>
    (\<forall>a b ip. map_of (nw_leases n) a = Some ip \<and> map_of (nw_leases n) b = Some ip \<longrightarrow> a = b) \<and>
    int (length (nw_leases n)) \<le> poolSize (nw_layout n)"
proof -
  have inv: "net_inv n" using assms by (rule net_run_inv)
  then have ok: "lease_ok (nw_layout n) (nw_leases n)" by (simp add: net_inv_def)
  from ok have "poolContains (nw_layout n) ip" if "map_of (nw_leases n) vm = Some ip" for vm ip
    using map_of_SomeD [OF that] by (auto simp: lease_ok_def list_all_iff)
  with ok lease_ok_inject [OF ok] lease_card(1) [OF net_inv_wf [OF inv] ok] show ?thesis by blast
qed

lemma demo_started: "net_started (demo_net\<lparr>nw_leases := []\<rparr>)"
proof -
  let ?io = "\<lparr>io_mkdir = True, io_vn = True, io_remove = True, io_listen = True, io_lnClose = True, io_removeAll = True\<rparr>"
  have "filepath_Join [''/run/n'', SocketName] = ''/run/n/qemu.sock''" by code_simp
  then have "newNetwork ?io ''/run/n'' demo_spec [] = Inr (demo_net\<lparr>nw_leases := []\<rparr>, configuration demo_spec demo_layout)"
    by (simp add: newNetwork_def demo_resolve parseLeases_def demo_net_def maxSocketPath_def)
  then show ?thesis unfolding net_started_def by fastforce
qed

theorem leases_valid_witness:
  "\<exists>es n. reachable net_started net_step es n \<and> map_of (nw_leases n) ''c'' \<noteq> None \<and>
    int (length (nw_leases n)) \<le> poolSize (nw_layout n)"
proof -
  let ?n0 = "demo_net\<lparr>nw_leases := []\<rparr>"
  obtain a n where a: "Network_Attach None ''c'' ?n0 = (Inr a, n)" and l: "map_of (nw_leases n) ''c'' \<noteq> None"
  proof -
    have "fst (Network_Attach None ''c'' ?n0) \<noteq> Inl ErrConflict \<and> isl (fst (Network_Attach None ''c'' ?n0)) = False"
      "map_of (nw_leases (snd (Network_Attach None ''c'' ?n0))) ''c'' \<noteq> None" by code_simp+
    then show thesis using that by (cases "Network_Attach None ''c'' ?n0"; cases "fst (Network_Attach None ''c'' ?n0)") auto
  qed
  have "reachable net_started net_step [] ?n0" by (rule reach_init) (rule demo_started)
  then have "reachable net_started net_step [EvAttach ''c'' (Inr a)] n"
    using net_step.net_attach [OF a] by (rule reach_step)
  with l leases_valid show ?thesis by blast
qed

text \<open>
  An address stays with its VM: through any sequence of \<open>Attach\<close> and \<open>Detach\<close>
  calls that does not detach the VM itself, the VM keeps its address and no other
  VM holds it, which is what lets the metadata service name a VM by its address.
\<close>

theorem lease_stable:
  assumes "net_inv n" "map_of (nw_leases n) vm = Some ip" "OpDetach vm \<notin> set ops"
  defines "n' \<equiv> fold net_op ops n"
  shows "map_of (nw_leases n') vm = Some ip \<and> (\<forall>other. map_of (nw_leases n') other = Some ip \<longrightarrow> other = vm)"
proof -
  have "net_op p = net_leases.apply_op p" for p
    by (rule ext, cases p) simp_all
  then have "net_op = net_leases.apply_op" by (rule ext)
  then have "n' = fold net_leases.apply_op ops n" by (simp add: n'_def)
  with net_leases.held_stable [OF assms(1-3)] net_leases.held_exclusive [OF assms(1-3)] show ?thesis
    by auto
qed

theorem lease_stable_witness:
  "map_of (nw_leases (fold net_op [OpDetach ''a'', OpAttach ''c''] demo_net)) ''b'' = Some 0x0A000004"
proof -
  have "map_of (nw_leases demo_net) ''b'' = Some 0x0A000004" by code_simp
  from lease_stable [OF demo_inv this, of "[OpDetach ''a'', OpAttach ''c'']"] show ?thesis by simp
qed

text \<open>
  The static DHCP table agrees with the attachments: the MAC \<open>Attach\<close> gives a
  VM is the one the table leases the VM's address to, no other address is leased
  to it, and it is not the gateway's.
\<close>

theorem attachment_static_lease:
  assumes "net_inv n" "Network_Attach c vm n = (Inr a, n')"
  defines "cfg \<equiv> configuration (nw_spec n) (nw_layout n)"
  shows "map_of (cfg_static cfg) (Addr_String (at_ip a)) = Some (at_mac a) \<and>
    (\<forall>s. map_of (cfg_static cfg) s = Some (at_mac a) \<longrightarrow> s = Addr_String (at_ip a)) \<and>
    cfg_gatewayMac cfg \<noteq> at_mac a"
proof -
  have wf: "layout_wf (nw_layout n)" using assms(1) by (rule net_inv_wf)
  from assms(2) obtain ip where a: "a = network_attachment n vm ip"
    "map_of (nw_leases n) vm = Some ip \<or> freeAddrLocked n = Some ip"
    by (auto simp: Network_Attach_def split: option.splits if_splits)
  then have pool: "poolContains (nw_layout n) ip"
    using assms(1) freeAddr_Some(1) [OF wf]
    by (auto simp: net_inv_def lease_ok_def list_all_iff dest!: map_of_SomeD)
  have "cfg_gatewayMac cfg = mac_string (sp_name (nw_spec n)) (ly_gateway (nw_layout n))"
    by (simp add: cfg_def configuration_def Let_def)
  moreover have "ip \<noteq> ly_gateway (nw_layout n)" using pool by (simp add: poolContains_def)
  ultimately show ?thesis
    using pool a(1) unfolding cfg_def static_table [OF wf] by (auto simp: network_attachment_def)
qed

theorem attachment_static_lease_witness:
  "map_of (cfg_static (configuration demo_spec demo_layout)) ''10.0.0.2'' =
     Some (at_mac (network_attachment demo_net ''a'' 0x0A000002))"
proof -
  have a: "Network_Attach None ''a'' demo_net = (Inr (network_attachment demo_net ''a'' 0x0A000002), demo_net)"
    by (simp add: Network_Attach_def demo_net_def)
  have "Addr_String 0x0A000002 = ''10.0.0.2''" by code_simp
  with attachment_static_lease [OF demo_inv a] show ?thesis
    by (simp add: network_attachment_def demo_net_def)
qed

text \<open>
  Persisted state restores: a manager's \<open>States\<close> handed to \<open>Restore\<close> of a
  fresh manager over the same state directory, with the file system and the
  gateway stack cooperating, succeeds and brings back every network under its
  name with its specification and exactly its leases.
\<close>

theorem restore_states:
  assumes "mgr_inv m" "\<forall>name. io_ok (io name)"
  shows "\<exists>m'. Manager_Restore None io (Manager_States m) (NewManager (mg_stateDir m)) = (Inr (), m') \<and>
    (\<forall>name. map_option durable (map_of (mg_nets m') name) = map_option durable (map_of (mg_nets m) name))"
proof -
  let ?ns = "Manager_List m" and ?m0 = "NewManager (mg_stateDir m)"
  let ?key = "\<lambda>n. (sp_name (nw_spec n), n)"
  have nets: "mg_nets m = map ?key (map snd (mg_nets m))"
    using assms(1) by (auto simp: mgr_inv_def list_all_iff intro!: map_idI [symmetric])
  have perm: "mset ?ns = mset (map snd (mg_nets m))" by (simp add: Manager_List_def)
  have names: "map fst (mg_nets m) = map (sp_name \<circ> nw_spec) (map snd (mg_nets m))"
    using assms(1) by (auto simp: mgr_inv_def list_all_iff)
  have dist: "distinct (map (sp_name \<circ> nw_spec) ?ns)"
    using assms(1) names perm by (metis mgr_inv_def mset_eq_imp_distinct_iff mset_map)
  have all: "list_all (\<lambda>n. net_inv n \<and> nw_dir n = Manager_Dir ?m0 (sp_name (nw_spec n))) ?ns"
    using assms(1) mset_eq_setD [OF perm]
    by (auto simp: mgr_inv_def list_all_iff Manager_Dir_def NewManager_def)
  have "\<forall>n \<in> set ?ns. sp_name (nw_spec n) \<notin> fst ` set (mg_nets ?m0)" by (simp add: NewManager_def)
  from Restore_networks [OF all dist this assms(2)] obtain ns' where ns':
    "Manager_Restore None io (Manager_States m) ?m0 = (Inr (), ?m0\<lparr>mg_nets := map ?key ns'\<rparr>)"
    "map durable ns' = map durable ?ns"
    by (auto simp: Manager_States_def NewManager_def)
  have key: "map_option durable (map_of (map ?key xs) name) =
      map_of (map (\<lambda>d. (sp_name (fst d), d)) (map durable xs)) name" for xs name
    by (induction xs) (auto simp: durable_def)
  have eq: "map_of (map ?key ?ns) = map_of (map ?key (map snd (mg_nets m)))"
    using dist by (intro map_of_mset_eq(1)) (simp_all add: comp_def perm [simplified] image_mset.compositionality)
  have "map_option durable (map_of (map ?key ns') name) = map_option durable (map_of (mg_nets m) name)" for name
    by (subst nets) (simp only: eq [symmetric] key ns'(2))
  with ns'(1) show ?thesis by auto
qed

theorem restore_states_witness:
  "\<exists>m'. Manager_Restore None (\<lambda>_. \<lparr>io_mkdir = True, io_vn = True, io_remove = True, io_listen = True,
        io_lnClose = True, io_removeAll = True\<rparr>)
      (Manager_States \<lparr>mg_stateDir = ''/run'', mg_nets = [(''default'', demo_net\<lparr>nw_dir := ''/run/networks/default'',
         nw_socket := ''/run/networks/default/qemu.sock''\<rparr>)]\<rparr>)
      (NewManager ''/run'') = (Inr (), m') \<and>
    map_option durable (map_of (mg_nets m') ''default'') = Some (demo_spec, nw_leases demo_net)"
proof -
  let ?n = "demo_net\<lparr>nw_dir := ''/run/networks/default'', nw_socket := ''/run/networks/default/qemu.sock''\<rparr>"
  let ?m = "\<lparr>mg_stateDir = ''/run'', mg_nets = [(''default'', ?n)]\<rparr>"
  have "filepath_Join [''/run/networks/default'', SocketName] = ''/run/networks/default/qemu.sock''" by code_simp
  then have "net_inv ?n"
    using demo_inv by (simp add: net_inv_def maxSocketPath_def demo_net_def)
  moreover have "Manager_Dir ?m ''default'' = ''/run/networks/default''" by code_simp
  moreover have "sp_name (nw_spec ?n) = ''default''" by (simp add: demo_net_def demo_spec_def)
  ultimately have "mgr_inv ?m" by (simp add: mgr_inv_def)
  moreover have "io_ok \<lparr>io_mkdir = True, io_vn = True, io_remove = True, io_listen = True,
        io_lnClose = True, io_removeAll = True\<rparr>" by (simp add: io_ok_def)
  ultimately obtain m' where "Manager_Restore None (\<lambda>_. \<lparr>io_mkdir = True, io_vn = True, io_remove = True,
        io_listen = True, io_lnClose = True, io_removeAll = True\<rparr>) (Manager_States ?m) (NewManager ''/run'') = (Inr (), m')"
      "\<forall>name. map_option durable (map_of (mg_nets m') name) = map_option durable (map_of (mg_nets ?m) name)"
    using restore_states [of ?m "\<lambda>_. \<lparr>io_mkdir = True, io_vn = True, io_remove = True, io_listen = True,
        io_lnClose = True, io_removeAll = True\<rparr>"] by auto
  moreover from this(2) have "map_option durable (map_of (mg_nets m') ''default'') = Some (demo_spec, nw_leases demo_net)"
    by (simp add: durable_def demo_net_def)
  ultimately show ?thesis by blast
qed

end
