(* ===== verification/QEMU_Spec.thy ===== *)
theory QEMU_Spec
  imports Go_Strings Api_Err
begin

text \<open>
  The QEMU command line, \<open>src/internal/runtime/qemu/spec.go\<close>: the spec of one VM,
  its validation and the argument list.  The reference for the argument list is
  a list of options with their fields; an option value is the fields joined by
  commas, a comma inside a field doubled, and \<open>qemu_fields\<close> reads such a value
  back the way QEMU does.  The main result is that no field of a valid spec can
  be read as anything but the one field it was written as.
\<close>

section \<open>Data\<close>

datatype phase = PhaseUnset | PhaseInstall | PhaseBoot

definition SerialInstaller :: string where "SerialInstaller = ''installer''"
definition SerialTarget :: string where "SerialTarget = ''target''"
definition DefaultManufacturer :: string where "DefaultManufacturer = ''GiantSwarm''"
definition DefaultProduct :: string where "DefaultProduct = ''vm-manager''"
definition CredentialNotifySocket :: string where "CredentialNotifySocket = ''vmm.notify_socket''"
definition CredentialInstallTarget :: string where "CredentialInstallTarget = ''vm.install-target''"
definition CredentialMachineID :: string where "CredentialMachineID = ''system.machine_id''"
definition CredentialHostname :: string where "CredentialHostname = ''firstboot.hostname''"
definition CredentialSSHAuthorizedKeysRoot :: string where
  "CredentialSSHAuthorizedKeysRoot = ''ssh.authorized_keys.root''"
definition InstallTargetDevice :: string where
  "InstallTargetDevice = ''/dev/disk/by-id/virtio-'' @ SerialTarget"
definition MinCID :: "32 word" where "MinCID = 3"
definition MaxCID :: "32 word" where "MaxCID = 0xFFFFFFFE"
definition credentialPrefix :: string where "credentialPrefix = ''io.systemd.credential:''"
definition credentialBinaryPrefix :: string where "credentialBinaryPrefix = ''io.systemd.credential.binary:''"
definition cmdlineExtraPrefix :: string where "cmdlineExtraPrefix = ''io.systemd.stub.kernel-cmdline-extra=''"
definition virtioSerialMax :: nat where "virtioSerialMax = 20"
definition MaxUnixSocketPath :: nat where "MaxUnixSocketPath = 107"

record drive =
  dr_path :: string
  dr_serial :: string
  dr_format :: string
  dr_readOnly :: bool

record netdev =
  nd_id :: string
  nd_backend :: string
  nd_mac :: string

record smbios =
  sm_manufacturer :: string
  sm_product :: string
  sm_version :: string
  sm_serial :: string

record qemu_spec =
  qs_id :: string
  qs_phase :: phase
  qs_cpus :: int
  qs_memoryMiB :: int
  qs_uki :: string
  qs_installer :: string
  qs_target :: string
  qs_extraDrives :: "drive list"
  qs_netdevs :: "netdev list"
  qs_smbios :: smbios
  qs_credentials :: "(string, string) gomap"
  qs_kernelCmdlineExtra :: string
  qs_vsockCID :: "32 word"
  qs_tpmSocket :: string
  qs_ovmfCode :: string
  qs_ovmfVars :: string
  qs_serialLog :: string
  qs_qmpSocket :: string
  qs_processLog :: string
  qs_noReboot :: bool

section \<open>Validation\<close>

definition serial_char :: "char \<Rightarrow> bool" where
  "serial_char c \<longleftrightarrow> is_lower c \<or> is_upper c \<or> is_digit c \<or> c \<in> {CHR ''.'', CHR ''_'', CHR ''-''}"

definition serialPattern :: "string \<Rightarrow> bool" where
  "serialPattern s \<longleftrightarrow> s \<noteq> [] \<and> list_all serial_char s"

text \<open>\<open>^[a-z][a-z0-9-]*(,[A-Za-z0-9_.-]+=.*)?$\<close>: the classes exclude the comma and
  the equals sign, so the match can only split at the first of each.\<close>

definition netdevBackendPattern :: "string \<Rightarrow> bool" where
  "netdevBackendPattern s \<longleftrightarrow>
     (case Cut (CHR '','') s of (ty, opts, found) \<Rightarrow>
        ty \<noteq> [] \<and> is_lower (hd ty) \<and> list_all (\<lambda>c. is_lower c \<or> is_digit c \<or> c = CHR ''-'') (tl ty) \<and>
        (found \<longrightarrow>
          (case Cut (CHR ''='') opts of (key, val, eq) \<Rightarrow>
             eq \<and> serialPattern key \<and> list_all (\<lambda>c. ord c \<noteq> 10) val)))"

text \<open>\<open>net.ParseMAC\<close> accepting six bytes: three notations.\<close>

definition is_hex :: "char \<Rightarrow> bool" where
  "is_hex c \<longleftrightarrow> fromHexChar c \<noteq> None"

definition mac48 :: "string \<Rightarrow> bool" where
  "mac48 s \<longleftrightarrow>
     (length s = 17 \<and> s ! 2 \<in> {CHR '':'', CHR ''-''} \<and>
        list_all (\<lambda>i. if i mod 3 = 2 then s ! i = s ! 2 else is_hex (s ! i)) [0..<17]) \<or>
     (length s = 14 \<and> s ! 2 \<notin> {CHR '':'', CHR ''-''} \<and>
        list_all (\<lambda>i. if i mod 5 = 4 then s ! i = CHR ''.'' else is_hex (s ! i)) [0..<14])"

definition validateDrive :: "drive \<Rightarrow> string list \<Rightarrow> string list res" where
  "validateDrive d seen =
     (if dr_path d = [] then Inl ErrInvalid
      else if dr_format d \<noteq> [] \<and> dr_format d \<notin> {''raw'', ''qcow2''} then Inl ErrInvalid
      else if dr_serial d = [] \<or> length (dr_serial d) > virtioSerialMax \<or> \<not> serialPattern (dr_serial d)
        then Inl ErrInvalid
      else if dr_serial d \<in> set seen then Inl ErrInvalid
      else Inr (dr_serial d # seen))"

definition validateNetdev :: "netdev \<Rightarrow> string list \<Rightarrow> string list res" where
  "validateNetdev n seen =
     (if nd_id n = [] \<or> \<not> serialPattern (nd_id n) then Inl ErrInvalid
      else if nd_id n \<in> set seen then Inl ErrInvalid
      else if nd_backend n = [] \<or> Contains (nd_backend n) ''id='' then Inl ErrInvalid
      else if \<not> netdevBackendPattern (nd_backend n) then Inl ErrInvalid
      else if \<not> mac48 (nd_mac n) then Inl ErrInvalid
      else Inr (nd_id n # seen))"

definition validateCredentialName :: "string \<Rightarrow> unit res" where
  "validateCredentialName name =
     (if name = [] \<or> name = ''.'' \<or> name = ''..'' \<or> length name > 255 then Inl ErrInvalid
      else if list_ex (\<lambda>c. ord c < 32 \<or> ord c > 126 \<or> c \<in> {CHR ''/'', CHR '':'', CHR ''=''}) name
        then Inl ErrInvalid
      else Inr ())"

fun validate_all :: "('a \<Rightarrow> 's \<Rightarrow> 's res) \<Rightarrow> 'a list \<Rightarrow> 's \<Rightarrow> 's res" where
  "validate_all f [] s = Inr s"
| "validate_all f (x # xs) s = bindE (f x s) (validate_all f xs)"

definition qemu_validate :: "qemu_spec \<Rightarrow> unit res" where
  "qemu_validate s =
     (if qs_id s = [] then Inl ErrInvalid
      else if qs_phase s \<noteq> PhaseInstall \<and> qs_phase s \<noteq> PhaseBoot then Inl ErrInvalid
      else if qs_cpus s < 1 then Inl ErrInvalid
      else if qs_memoryMiB s < 1 then Inl ErrInvalid
      else if qs_phase s = PhaseInstall \<and> qs_uki s = [] then Inl ErrInvalid
      else if qs_phase s = PhaseInstall \<and> qs_installer s = [] then Inl ErrInvalid
      else if qs_target s = [] then Inl ErrInvalid
      else if qs_vsockCID s < MinCID \<or> qs_vsockCID s > MaxCID then Inl ErrInvalid
      else if qs_ovmfCode s = [] \<or> qs_ovmfVars s = [] then Inl ErrInvalid
      else if qs_serialLog s = [] then Inl ErrInvalid
      else if qs_qmpSocket s = [] then Inl ErrInvalid
      else if length (qs_qmpSocket s) > MaxUnixSocketPath then Inl ErrInvalid
      else if length (qs_tpmSocket s) > MaxUnixSocketPath then Inl ErrInvalid
      else bindE (validate_all validateDrive (qs_extraDrives s)
             (SerialTarget # (if qs_phase s = PhaseInstall then [SerialInstaller] else []))) (\<lambda>_.
           bindE (validate_all validateNetdev (qs_netdevs s) []) (\<lambda>_.
           bindE (validate_all (\<lambda>(n, _) _. validateCredentialName n) (qs_credentials s) ()) (\<lambda>_.
           if list_ex (\<lambda>c. ord c = 10 \<or> ord c = 0) (qs_kernelCmdlineExtra s) then Inl ErrInvalid else Inr ()))))"

section \<open>Rendering\<close>

definition EscapeOption :: "string \<Rightarrow> string" where
  "EscapeOption v = concat (map (\<lambda>c. if c = CHR '','' then '',,'' else [c]) v)"

definition driveArgs :: "drive \<Rightarrow> int \<Rightarrow> string list" where
  "driveArgs d bootindex =
     (let format = (if dr_format d = [] then ''raw'' else dr_format d);
          drive = ''if=none,id='' @ dr_serial d @ '',format='' @ format @ '',file='' @ EscapeOption (dr_path d) @
            (if dr_readOnly d then '',readonly=on'' else '',discard=unmap'');
          dev = ''virtio-blk-pci,drive='' @ dr_serial d @ '',serial='' @ dr_serial d @
            (if bootindex \<ge> 0 then '',bootindex='' @ Itoa bootindex else [])
      in [''-drive'', drive, ''-device'', dev])"

definition smbiosType1 :: "qemu_spec \<Rightarrow> string" where
  "smbiosType1 s =
     (let m = qs_smbios s;
          manufacturer = (if sm_manufacturer m = [] then DefaultManufacturer else sm_manufacturer m);
          product = (if sm_product m = [] then DefaultProduct else sm_product m);
          serial = (if sm_serial m = [] then qs_id s else sm_serial m)
      in ''type=1,manufacturer='' @ EscapeOption manufacturer @ '',product='' @ EscapeOption product @
         (if sm_version m \<noteq> [] then '',version='' @ EscapeOption (sm_version m) else []) @
         '',serial='' @ EscapeOption serial)"

text \<open>\<open>base64.StdEncoding\<close>.\<close>

definition b64_char :: "nat \<Rightarrow> char" where
  "b64_char n = ''ABCDEFGHIJKLMNOPQRSTUVWXYZabcdefghijklmnopqrstuvwxyz0123456789+/'' ! n"

fun base64 :: "nat list \<Rightarrow> string" where
  "base64 [] = []"
| "base64 [a] = [b64_char (a div 4), b64_char (a mod 4 * 16), CHR ''='', CHR ''='']"
| "base64 [a, b] = [b64_char (a div 4), b64_char (a mod 4 * 16 + b div 16), b64_char (b mod 16 * 4), CHR ''='']"
| "base64 (a # b # c # cs) =
     b64_char (a div 4) # b64_char (a mod 4 * 16 + b div 16) # b64_char (b mod 16 * 4 + c div 64) #
     b64_char (c mod 64) # base64 cs"

text \<open>\<open>unicode.IsPrint\<close> beyond ASCII is a table, the argument \<open>uni\<close>; no credential
  the VM service passes depends on it.\<close>

definition printable :: "(string \<Rightarrow> bool) \<Rightarrow> string \<Rightarrow> bool" where
  "printable uni v \<longleftrightarrow>
     (if list_all (\<lambda>c. ord c < 128) v then list_all (\<lambda>c. 32 \<le> ord c \<and> ord c < 127) v else uni v)"

definition renderCredential :: "(string \<Rightarrow> bool) \<Rightarrow> string \<Rightarrow> string \<Rightarrow> string" where
  "renderCredential uni n v =
     (if printable uni v then credentialPrefix @ n @ ''='' @ v
      else credentialBinaryPrefix @ n @ ''='' @ base64 (map ord v))"

text \<open>\<open>slices.Sort\<close> on strings: lexicographic by byte.\<close>

fun str_le :: "string \<Rightarrow> string \<Rightarrow> bool" where
  "str_le [] t = True"
| "str_le (c # cs) [] = False"
| "str_le (c # cs) (d # ds) = (ord c < ord d \<or> (ord c = ord d \<and> str_le cs ds))"

fun insert_name :: "string \<Rightarrow> string list \<Rightarrow> string list" where
  "insert_name n [] = [n]"
| "insert_name n (m # ms) = (if str_le n m then n # m # ms else m # insert_name n ms)"

definition sort_names :: "string list \<Rightarrow> string list" where
  "sort_names ns = foldr insert_name ns []"

definition renderCredentials :: "(string \<Rightarrow> bool) \<Rightarrow> (string, string) gomap \<Rightarrow> string list" where
  "renderCredentials uni creds =
     map (\<lambda>n. renderCredential uni n (case map_of creds n of None \<Rightarrow> [] | Some v \<Rightarrow> v)) (sort_names (map fst creds))"

definition Command :: "(string \<Rightarrow> bool) \<Rightarrow> qemu_spec \<Rightarrow> string list res" where
  "Command uni s =
     bindE (qemu_validate s) (\<lambda>_.
       let install = (qs_phase s = PhaseInstall);
           bootindex = (if install then -1 else 0)
       in Inr (
         [''-name'', ''guest='' @ EscapeOption (qs_id s),
          ''-machine'', ''q35'', ''-accel'', ''kvm'', ''-cpu'', ''host'',
          ''-smp'', Itoa (qs_cpus s), ''-m'', Itoa (qs_memoryMiB s) @ ''M'',
          ''-nodefaults'', ''-display'', ''none'',
          ''-serial'', ''file:'' @ EscapeOption (qs_serialLog s),
          ''-qmp'', ''unix:'' @ EscapeOption (qs_qmpSocket s) @ '',server=on,wait=off'',
          ''-drive'', ''if=pflash,format=raw,unit=0,readonly=on,file='' @ EscapeOption (qs_ovmfCode s),
          ''-drive'', ''if=pflash,format=raw,unit=1,file='' @ EscapeOption (qs_ovmfVars s)] @
         (if install then [''-kernel'', qs_uki s] @
            driveArgs \<lparr>dr_path = qs_installer s, dr_serial = SerialInstaller, dr_format = [], dr_readOnly = True\<rparr> (-1)
          else []) @
         driveArgs \<lparr>dr_path = qs_target s, dr_serial = SerialTarget, dr_format = [], dr_readOnly = False\<rparr> bootindex @
         concat (map (\<lambda>d. driveArgs d (-1)) (qs_extraDrives s)) @
         concat (map (\<lambda>n. [''-netdev'', nd_backend n @ '',id='' @ nd_id n,
                           ''-device'', ''virtio-net-pci,netdev='' @ nd_id n @ '',mac='' @ nd_mac n]) (qs_netdevs s)) @
         [''-device'', ''vhost-vsock-pci,id=vsock0,guest-cid='' @ itoa_nat (unat (qs_vsockCID s))] @
         (if qs_tpmSocket s \<noteq> [] then
            [''-chardev'', ''socket,id=chrtpm,path='' @ EscapeOption (qs_tpmSocket s),
             ''-tpmdev'', ''emulator,id=tpm0,chardev=chrtpm'', ''-device'', ''tpm-crb,tpmdev=tpm0'']
          else []) @
         [''-smbios'', smbiosType1 s] @
         concat (map (\<lambda>c. [''-smbios'', ''type=11,value='' @ EscapeOption c]) (renderCredentials uni (qs_credentials s))) @
         (if qs_kernelCmdlineExtra s \<noteq> [] then
            [''-smbios'', ''type=11,value='' @ EscapeOption (cmdlineExtraPrefix @ qs_kernelCmdlineExtra s)] else []) @
         (if qs_noReboot s then [''-no-reboot''] else [])))"

section \<open>How QEMU reads an option value\<close>

text \<open>Fields end at a comma that is not doubled; a doubled comma is one comma of
  the field.\<close>

fun qemu_fields_from :: "string \<Rightarrow> string \<Rightarrow> string list" where
  "qemu_fields_from acc [] = [rev acc]"
| "qemu_fields_from acc [c] = (if c = CHR '','' then [rev acc, []] else [rev (c # acc)])"
| "qemu_fields_from acc (c # d # cs) =
     (if c \<noteq> CHR '','' then qemu_fields_from (c # acc) (d # cs)
      else if d = CHR '','' then qemu_fields_from (c # acc) cs
      else rev acc # qemu_fields_from [] (d # cs))"

definition qemu_fields :: "string \<Rightarrow> string list" where
  "qemu_fields v = qemu_fields_from [] v"

definition option_text :: "string list \<Rightarrow> string" where
  "option_text fs = Join '','' (map EscapeOption fs)"

definition good_field :: "string \<Rightarrow> bool" where
  "good_field f \<longleftrightarrow> f \<noteq> [] \<and> hd f \<noteq> CHR '',''"

lemma EscapeOption_simps [simp]:
  "EscapeOption [] = []"
  "EscapeOption (c # v) = (if c = CHR '','' then '',,'' else [c]) @ EscapeOption v"
  "EscapeOption (v @ w) = EscapeOption v @ EscapeOption w"
  by (simp_all add: EscapeOption_def)

lemma EscapeOption_id: "CHR '','' \<notin> set v \<Longrightarrow> EscapeOption v = v"
  by (induction v) auto

lemma EscapeOption_Nil_iff [simp]: "EscapeOption v = [] \<longleftrightarrow> v = []"
  by (cases v) auto

lemma hd_EscapeOption: "hd (EscapeOption v) = hd v"
  by (cases v) auto

lemma qemu_fields_escape:
  assumes "\<And>c r. rest = c # r \<Longrightarrow> c = CHR '','' \<and> r \<noteq> [] \<and> hd r \<noteq> CHR '',''"
  shows "qemu_fields_from acc (EscapeOption f @ rest) = qemu_fields_from (rev f @ acc) rest"
proof (induction f arbitrary: acc)
  case (Cons c f)
  show ?case
  proof (cases "c = CHR '',''")
    case False
    have "qemu_fields_from acc (c # t) = qemu_fields_from (c # acc) t" for t
      using False by (cases t) auto
    with False Cons show ?thesis by simp
  qed (use Cons in simp)
qed simp

lemma Join_escape_hd: "list_all good_field fs \<Longrightarrow> fs \<noteq> [] \<Longrightarrow>
    option_text fs \<noteq> [] \<and> hd (option_text fs) \<noteq> CHR '',''"
  by (induction "'',''" "map EscapeOption fs" arbitrary: fs rule: Join.induct)
    (auto simp: option_text_def good_field_def hd_EscapeOption hd_append split: if_splits)

lemma qemu_fields_option_text:
  "list_all good_field fs \<Longrightarrow> fs \<noteq> [] \<Longrightarrow> qemu_fields (option_text fs) = fs"
proof (induction fs)
  case (Cons f fs)
  show ?case
  proof (cases fs)
    case Nil
    then show ?thesis
      using qemu_fields_escape [of "[]" "[]" f] by (simp add: qemu_fields_def option_text_def)
  next
    case (Cons g gs)
    let ?r = "option_text fs"
    have r: "?r \<noteq> []" "hd ?r \<noteq> CHR '',''" using Join_escape_hd [of fs] Cons.prems Cons by auto
    have "option_text (f # fs) = EscapeOption f @ CHR '','' # ?r" by (simp add: option_text_def Cons)
    moreover have "qemu_fields_from [] (EscapeOption f @ CHR '','' # ?r) = qemu_fields_from (rev f) (CHR '','' # ?r)"
      using qemu_fields_escape [of "CHR '','' # ?r" "[]" f] r by simp
    moreover have "\<dots> = f # qemu_fields_from [] ?r" using r by (cases ?r) auto
    ultimately show ?thesis using Cons.IH Cons.prems Cons by (simp add: qemu_fields_def)
  qed
qed simp

section \<open>The intended options\<close>

datatype qopt = QFlag string | QRaw string string | QOpts string "string list"

fun render :: "qopt \<Rightarrow> string list" where
  "render (QFlag n) = [n]"
| "render (QRaw n v) = [n, v]"
| "render (QOpts n fs) = [n, option_text fs]"

fun unambiguous :: "qopt \<Rightarrow> bool" where
  "unambiguous (QOpts n fs) = (qemu_fields (option_text fs) = fs)"
| "unambiguous o' = True"

definition drive_opts :: "drive \<Rightarrow> int \<Rightarrow> qopt list" where
  "drive_opts d bootindex =
     [QOpts ''-drive'' [''if=none'', ''id='' @ dr_serial d,
        ''format='' @ (if dr_format d = [] then ''raw'' else dr_format d), ''file='' @ dr_path d,
        if dr_readOnly d then ''readonly=on'' else ''discard=unmap''],
      QOpts ''-device'' ([''virtio-blk-pci'', ''drive='' @ dr_serial d, ''serial='' @ dr_serial d] @
        (if bootindex \<ge> 0 then [''bootindex='' @ Itoa bootindex] else []))]"

definition netdev_opts :: "netdev \<Rightarrow> qopt list" where
  "netdev_opts n =
     [QOpts ''-netdev'' (qemu_fields (nd_backend n) @ [''id='' @ nd_id n]),
      QOpts ''-device'' [''virtio-net-pci'', ''netdev='' @ nd_id n, ''mac='' @ nd_mac n]]"

definition smbios_fields :: "qemu_spec \<Rightarrow> string list" where
  "smbios_fields s =
     (let m = qs_smbios s in
      [''type=1'', ''manufacturer='' @ (if sm_manufacturer m = [] then DefaultManufacturer else sm_manufacturer m),
       ''product='' @ (if sm_product m = [] then DefaultProduct else sm_product m)] @
      (if sm_version m \<noteq> [] then [''version='' @ sm_version m] else []) @
      [''serial='' @ (if sm_serial m = [] then qs_id s else sm_serial m)])"

definition intended :: "(string \<Rightarrow> bool) \<Rightarrow> qemu_spec \<Rightarrow> qopt list" where
  "intended uni s =
     [QOpts ''-name'' [''guest='' @ qs_id s], QRaw ''-machine'' ''q35'', QRaw ''-accel'' ''kvm'',
      QRaw ''-cpu'' ''host'', QRaw ''-smp'' (Itoa (qs_cpus s)), QRaw ''-m'' (Itoa (qs_memoryMiB s) @ ''M''),
      QFlag ''-nodefaults'', QRaw ''-display'' ''none'',
      QOpts ''-serial'' [''file:'' @ qs_serialLog s],
      QOpts ''-qmp'' [''unix:'' @ qs_qmpSocket s, ''server=on'', ''wait=off''],
      QOpts ''-drive'' [''if=pflash'', ''format=raw'', ''unit=0'', ''readonly=on'', ''file='' @ qs_ovmfCode s],
      QOpts ''-drive'' [''if=pflash'', ''format=raw'', ''unit=1'', ''file='' @ qs_ovmfVars s]] @
     (if qs_phase s = PhaseInstall then QRaw ''-kernel'' (qs_uki s) #
        drive_opts \<lparr>dr_path = qs_installer s, dr_serial = SerialInstaller, dr_format = [], dr_readOnly = True\<rparr> (-1)
      else []) @
     drive_opts \<lparr>dr_path = qs_target s, dr_serial = SerialTarget, dr_format = [], dr_readOnly = False\<rparr>
       (if qs_phase s = PhaseInstall then -1 else 0) @
     concat (map (\<lambda>d. drive_opts d (-1)) (qs_extraDrives s)) @
     concat (map netdev_opts (qs_netdevs s)) @
     [QOpts ''-device'' [''vhost-vsock-pci'', ''id=vsock0'', ''guest-cid='' @ itoa_nat (unat (qs_vsockCID s))]] @
     (if qs_tpmSocket s \<noteq> [] then
        [QOpts ''-chardev'' [''socket'', ''id=chrtpm'', ''path='' @ qs_tpmSocket s],
         QOpts ''-tpmdev'' [''emulator'', ''id=tpm0'', ''chardev=chrtpm''],
         QOpts ''-device'' [''tpm-crb'', ''tpmdev=tpm0'']]
      else []) @
     [QOpts ''-smbios'' (smbios_fields s)] @
     map (\<lambda>c. QOpts ''-smbios'' [''type=11'', ''value='' @ c]) (renderCredentials uni (qs_credentials s)) @
     (if qs_kernelCmdlineExtra s \<noteq> [] then
        [QOpts ''-smbios'' [''type=11'', ''value='' @ cmdlineExtraPrefix @ qs_kernelCmdlineExtra s]] else []) @
     (if qs_noReboot s then [QFlag ''-no-reboot''] else [])"

text \<open>The documented duty of the builders of a backend: every embedded value went
  through \<open>EscapeOption\<close>.\<close>

definition escaped_backend :: "netdev \<Rightarrow> bool" where
  "escaped_backend n \<longleftrightarrow>
     list_all good_field (qemu_fields (nd_backend n)) \<and> option_text (qemu_fields (nd_backend n)) = nd_backend n"

section \<open>Validated values carry no comma\<close>

lemma serialPattern_no_comma: "serialPattern v \<Longrightarrow> CHR '','' \<notin> set v"
proof -
  have "\<not> serial_char CHR '',''" by code_simp
  then show "serialPattern v \<Longrightarrow> ?thesis" by (auto simp: serialPattern_def list_all_iff)
qed

lemma mac48_no_comma: "mac48 v \<Longrightarrow> CHR '','' \<notin> set v"
proof
  assume m: "mac48 v" "CHR '','' \<in> set v"
  from m(2) obtain i where i: "i < length v" "v ! i = CHR '',''" by (auto simp: in_set_conv_nth)
  have nohex: "\<not> is_hex CHR '',''" by (simp add: is_hex_def fromHexChar_def)
  have each: "P i" if "list_all P [0..<length v]" for P using that i(1) by (simp add: list_all_iff)
  consider
      "v ! 2 \<in> {CHR '':'', CHR ''-''}" "list_all (\<lambda>i. if i mod 3 = 2 then v ! i = v ! 2 else is_hex (v ! i)) [0..<length v]"
    | "list_all (\<lambda>i. if i mod 5 = 4 then v ! i = CHR ''.'' else is_hex (v ! i)) [0..<length v]"
    using m(1) unfolding mac48_def by (elim disjE conjE) (auto simp only:)
  then show False
  proof cases
    case 1
    from each [OF 1(2)] 1(1) i(2) nohex show False by (auto split: if_splits)
  next
    case 2
    from each [OF 2] i(2) nohex show False by (auto split: if_splits)
  qed
qed

lemma digits_no_comma: "list_all is_digit v \<Longrightarrow> CHR '','' \<notin> set v"
proof -
  have "\<not> is_digit CHR '',''" by code_simp
  then show "list_all is_digit v \<Longrightarrow> ?thesis" by (auto simp: list_all_iff)
qed

lemma itoa_no_comma [simp]: "CHR '','' \<notin> set (itoa_nat n)" "EscapeOption (itoa_nat n) = itoa_nat n"
  using itoa_nat_digits [of n] digits_no_comma EscapeOption_id by blast+

lemma Itoa_escape [simp]: "EscapeOption (Itoa i) = Itoa i"
  by (simp add: Itoa_def)

lemma validate_all_each:
  "validate_all f xs s = Inr s' \<Longrightarrow> x \<in> set xs \<Longrightarrow> \<exists>t t'. f x t = Inr t'"
  by (induction xs arbitrary: s) (auto simp: bindE_Inr_iff)

lemma if_Inl_Inr: "(if b then Inl e else x) = Inr y \<longleftrightarrow> \<not> b \<and> x = Inr y"
  by simp

lemma validateDrive_ok:
  "validateDrive d seen = Inr seen' \<Longrightarrow> serialPattern (dr_serial d) \<and> dr_format d \<in> {[], ''raw'', ''qcow2''}"
  by (auto simp: validateDrive_def split: if_splits)

lemma validateNetdev_ok:
  "validateNetdev n seen = Inr seen' \<Longrightarrow> serialPattern (nd_id n) \<and> mac48 (nd_mac n)"
  by (auto simp: validateNetdev_def split: if_splits)

lemma qemu_validate_ok:
  assumes "qemu_validate s = Inr u"
  shows "\<forall>d \<in> set (qs_extraDrives s). serialPattern (dr_serial d) \<and> dr_format d \<in> {[], ''raw'', ''qcow2''}"
    and "\<forall>n \<in> set (qs_netdevs s). serialPattern (nd_id n) \<and> mac48 (nd_mac n)"
    and "\<forall>(n, v) \<in> set (qs_credentials s). validateCredentialName n = Inr ()"
    and "MinCID \<le> qs_vsockCID s" "qs_vsockCID s \<le> MaxCID"
proof -
  obtain a b c where abc: "validate_all validateDrive (qs_extraDrives s)
      (SerialTarget # (if qs_phase s = PhaseInstall then [SerialInstaller] else [])) = Inr a"
    "validate_all validateNetdev (qs_netdevs s) [] = Inr b"
    "validate_all (\<lambda>(n, _) _. validateCredentialName n) (qs_credentials s) () = Inr c"
    and cid: "\<not> (qs_vsockCID s < MinCID \<or> qs_vsockCID s > MaxCID)"
    using assms unfolding qemu_validate_def if_Inl_Inr bindE_Inr_iff by blast
  show "\<forall>d \<in> set (qs_extraDrives s). serialPattern (dr_serial d) \<and> dr_format d \<in> {[], ''raw'', ''qcow2''}"
    using validate_all_each [OF abc(1)] validateDrive_ok by blast
  show "\<forall>n \<in> set (qs_netdevs s). serialPattern (nd_id n) \<and> mac48 (nd_mac n)"
    using validate_all_each [OF abc(2)] validateNetdev_ok by blast
  show "\<forall>(n, v) \<in> set (qs_credentials s). validateCredentialName n = Inr ()"
    using validate_all_each [OF abc(3)] by (fastforce)
  show "MinCID \<le> qs_vsockCID s" "qs_vsockCID s \<le> MaxCID" using cid by auto
qed

section \<open>Rendering refines the intended options\<close>

lemma drive_render:
  assumes "serialPattern (dr_serial d)" "dr_format d \<in> {[], ''raw'', ''qcow2''}"
  shows "driveArgs d bi = concat (map render (drive_opts d bi))"
  using assms EscapeOption_id [OF serialPattern_no_comma [OF assms(1)]]
  by (auto simp: driveArgs_def drive_opts_def option_text_def Let_def)

lemma option_text_snoc: "fs \<noteq> [] \<Longrightarrow> option_text (fs @ [f]) = option_text fs @ '','' @ EscapeOption f"
  by (induction fs rule: list_nonempty_induct) (auto simp: option_text_def neq_Nil_conv)

lemma qemu_fields_not_Nil [simp]: "qemu_fields v \<noteq> []"
proof -
  have "qemu_fields_from acc v \<noteq> []" for acc by (induction acc v rule: qemu_fields_from.induct) auto
  then show ?thesis by (simp add: qemu_fields_def)
qed

lemma netdev_render:
  assumes "serialPattern (nd_id n)" "mac48 (nd_mac n)" "escaped_backend n"
  shows "[''-netdev'', nd_backend n @ '',id='' @ nd_id n, ''-device'', ''virtio-net-pci,netdev='' @ nd_id n @ '',mac='' @ nd_mac n]
    = concat (map render (netdev_opts n))"
  using assms EscapeOption_id [OF serialPattern_no_comma [OF assms(1)]] EscapeOption_id [OF mac48_no_comma [OF assms(2)]]
  by (simp add: netdev_opts_def option_text_snoc escaped_backend_def) (simp add: option_text_def)

lemma smbios_render: "smbiosType1 s = option_text (smbios_fields s)"
  by (simp add: smbiosType1_def smbios_fields_def option_text_def Let_def)

lemma concat_render: "(\<And>x. x \<in> set xs \<Longrightarrow> f x = concat (map render (g x))) \<Longrightarrow>
    concat (map f xs) = concat (map render (concat (map g xs)))"
  by (induction xs) auto

lemma intended_render:
  assumes v: "qemu_validate s = Inr u" and b: "\<forall>n \<in> set (qs_netdevs s). escaped_backend n"
    and c: "Command uni s = Inr args"
  shows "args = concat (map render (intended uni s))"
proof -
  note ok = qemu_validate_ok [OF v]
  have sp: "serialPattern SerialInstaller" "serialPattern SerialTarget" by code_simp+
  have drives: "concat (map (\<lambda>d. driveArgs d (-1)) (qs_extraDrives s)) =
      concat (map render (concat (map (\<lambda>d. drive_opts d (-1)) (qs_extraDrives s))))"
    by (rule concat_render) (use ok(1) drive_render in blast)
  have nets: "concat (map (\<lambda>n. [''-netdev'', nd_backend n @ '',id='' @ nd_id n,
          ''-device'', ''virtio-net-pci,netdev='' @ nd_id n @ '',mac='' @ nd_mac n]) (qs_netdevs s)) =
      concat (map render (concat (map netdev_opts (qs_netdevs s))))"
    by (rule concat_render) (use ok(2) b netdev_render in blast)
  have creds: "concat (map (\<lambda>c. [''-smbios'', ''type=11,value='' @ EscapeOption c]) cs) =
      concat (map render (map (\<lambda>c. QOpts ''-smbios'' [''type=11'', ''value='' @ c]) cs))" for cs
    by (induction cs) (auto simp: option_text_def)
  have inst: "driveArgs \<lparr>dr_path = p, dr_serial = SerialInstaller, dr_format = [], dr_readOnly = True\<rparr> i =
      concat (map render (drive_opts \<lparr>dr_path = p, dr_serial = SerialInstaller, dr_format = [], dr_readOnly = True\<rparr> i))"
    "driveArgs \<lparr>dr_path = p, dr_serial = SerialTarget, dr_format = [], dr_readOnly = False\<rparr> i =
      concat (map render (drive_opts \<lparr>dr_path = p, dr_serial = SerialTarget, dr_format = [], dr_readOnly = False\<rparr> i))" for p i
    using sp drive_render by simp_all
  from c have "args = projr (Command uni s)" by simp
  then show ?thesis using v unfolding Command_def intended_def inst drives nets creds
    by (simp add: Let_def smbios_render option_text_def del: map_map)
qed

lemma good_fields_simps [simp]:
  "good_field (c # f) = (c \<noteq> CHR '','')"
  by (simp add: good_field_def)

lemma unambiguous_good: "list_all good_field fs \<Longrightarrow> fs \<noteq> [] \<Longrightarrow> unambiguous (QOpts n fs)"
  by (simp add: qemu_fields_option_text)

lemma intended_unambiguous:
  assumes "\<forall>n \<in> set (qs_netdevs s). escaped_backend n"
  shows "list_all unambiguous (intended uni s)"
proof -
  have d: "list_all unambiguous (drive_opts d i)" for d i
    by (auto simp: drive_opts_def intro!: unambiguous_good simp del: unambiguous.simps(1))
  have n: "list_all unambiguous (netdev_opts n)" if "escaped_backend n" for n
    using that by (auto simp: netdev_opts_def escaped_backend_def intro!: unambiguous_good simp del: unambiguous.simps(1))
  have sm: "unambiguous (QOpts ''-smbios'' (smbios_fields s))"
    by (rule unambiguous_good) (simp_all add: smbios_fields_def Let_def)
  have ds: "list_all unambiguous (concat (map (\<lambda>d. drive_opts d (-1)) ds))" for ds
    by (induction ds) (simp_all add: d)
  have ns: "list_all unambiguous (concat (map netdev_opts (qs_netdevs s)))"
    using assms n by (auto simp: list_all_iff)
  have cs: "list_all unambiguous (map (\<lambda>c. QOpts ''-smbios'' [''type=11'', ''value='' @ c]) cs)" for cs
    by (induction cs) (auto intro!: unambiguous_good simp del: unambiguous.simps(1))
  show ?thesis
    unfolding intended_def list_all_append
    by (intro conjI; (rule ds ns cs d)?)
      (auto simp: d sm intro!: unambiguous_good simp del: unambiguous.simps(1))
qed

section \<open>Reading credentials back\<close>

text \<open>The guest's side of the contract: a type 11 string is a name and a value, the
  value in base64 under the binary prefix.\<close>

definition b64_val :: "char \<Rightarrow> nat option" where
  "b64_val c = List.find (\<lambda>n. b64_char n = c) [0..<64]"

fun base64_decode :: "string \<Rightarrow> nat list option" where
  "base64_decode [] = Some []"
| "base64_decode (w # x # y # z # r) =
     (if y = CHR ''='' then
        (case (b64_val w, b64_val x) of (Some a, Some b) \<Rightarrow> Some [a * 4 + b div 16] | _ \<Rightarrow> None)
      else if z = CHR ''='' then
        (case (b64_val w, b64_val x, b64_val y) of
           (Some a, Some b, Some c) \<Rightarrow> Some [a * 4 + b div 16, b mod 16 * 16 + c div 4] | _ \<Rightarrow> None)
      else
        (case (b64_val w, b64_val x, b64_val y, b64_val z, base64_decode r) of
           (Some a, Some b, Some c, Some d, Some ns) \<Rightarrow>
             Some ((a * 4 + b div 16) # (b mod 16 * 16 + c div 4) # (c mod 4 * 64 + d) # ns)
         | _ \<Rightarrow> None))"
| "base64_decode _ = None"

definition read_credential :: "string \<Rightarrow> (string \<times> string) option" where
  "read_credential t =
     (if prefix credentialPrefix t then
        (case Cut (CHR ''='') (drop (length credentialPrefix) t) of (n, v, _) \<Rightarrow> Some (n, v))
      else if prefix credentialBinaryPrefix t then
        (case Cut (CHR ''='') (drop (length credentialBinaryPrefix) t) of
           (n, v, _) \<Rightarrow> map_option (\<lambda>ns. (n, map char_of ns)) (base64_decode v))
      else None)"

lemma b64_val_char [simp]: "n < 64 \<Longrightarrow> b64_val (b64_char n) = Some n"
proof -
  have "\<forall>n \<in> set [0..<64]. b64_val (b64_char n) = Some n" by code_simp
  then show "n < 64 \<Longrightarrow> ?thesis" by simp
qed

lemma b64_char_pad [simp]: "n < 64 \<Longrightarrow> b64_char n \<noteq> CHR ''=''"
proof -
  have "\<forall>n \<in> set [0..<64]. b64_char n \<noteq> CHR ''=''" by code_simp
  then show "n < 64 \<Longrightarrow> ?thesis" by simp
qed

lemma six_bits:
  "a < 256 \<Longrightarrow> a div 4 < (64 :: nat)" "b < 256 \<Longrightarrow> a mod 4 * 16 + b div 16 < (64 :: nat)"
  "c < 256 \<Longrightarrow> b mod 16 * 4 + c div 64 < (64 :: nat)" "c mod 64 < (64 :: nat)"
  "a mod 4 * 16 < (64 :: nat)" "b mod 16 * 4 < (64 :: nat)"
proof -
  have m: "a mod 4 < 4" "b mod 16 < 16" by simp_all
  show "a < 256 \<Longrightarrow> a div 4 < 64" by simp
  show "b < 256 \<Longrightarrow> a mod 4 * 16 + b div 16 < 64" using m(1) div_less_iff_less_mult [of 16 b 16] by linarith
  show "c < 256 \<Longrightarrow> b mod 16 * 4 + c div 64 < 64" using m(2) div_less_iff_less_mult [of 64 c 4] by linarith
qed simp_all

lemma base64_roundtrip:
  "list_all (\<lambda>n. n < 256) ns \<Longrightarrow> base64_decode (base64 ns) = Some ns"
proof (induction ns rule: base64.induct)
  case (4 a b c cs)
  have "c div 64 < 4" "b div 16 < 16" using 4 by (simp_all add: div_less_iff_less_mult)
  then have "(b mod 16 * 4 + c div 64) mod 4 = c div 64" "(a mod 4 * 16 + b div 16) mod 16 = b div 16"
    by (simp_all add: mod_mult_self3)
  moreover have "(a mod 4 * 16 + b div 16) div 16 = a mod 4" "(b mod 16 * 4 + c div 64) div 4 = b mod 16"
    using \<open>c div 64 < 4\<close> \<open>b div 16 < 16\<close> by simp_all
  ultimately show ?case using 4 by (simp add: six_bits)
next
  case (3 a b)
  have "b div 16 < 16" using 3 by (simp add: div_less_iff_less_mult)
  then have "(a mod 4 * 16 + b div 16) mod 16 = b div 16" "(a mod 4 * 16 + b div 16) div 16 = a mod 4"
    by (simp_all add: mod_mult_self3)
  then show ?case using 3 by (simp add: six_bits)
qed (simp_all add: six_bits)

lemma ord_less: "ord c < 256"
  unfolding ord_def by (subst of_char_mod_256 [symmetric]) simp

lemma char_of_ord [simp]: "char_of (ord c) = c"
  by (simp add: ord_def)

lemma base64_text: "base64_decode (base64 (map ord v)) = Some (map ord v)"
  by (rule base64_roundtrip) (simp add: list_all_iff ord_less)

lemma credential_name_no_eq: "validateCredentialName n = Inr u \<Longrightarrow> CHR ''='' \<notin> set n"
  by (auto simp: validateCredentialName_def list_ex_iff split: if_splits)

lemma read_render:
  assumes "validateCredentialName n = Inr u"
  shows "read_credential (renderCredential uni n v) = Some (n, v)"
proof -
  have no: "CHR ''='' \<notin> set n" by (rule credential_name_no_eq [OF assms])
  have np: "\<not> prefix credentialPrefix (credentialBinaryPrefix @ r)" for r
    by (simp add: credentialPrefix_def credentialBinaryPrefix_def)
  show ?thesis
    by (simp add: read_credential_def renderCredential_def np Cut_append [OF no] base64_text o_def)
qed

lemma set_insert_name [simp]: "set (insert_name n ns) = insert n (set ns)"
  by (induction ns) auto

lemma set_sort_names [simp]: "set (sort_names ns) = set ns"
  unfolding sort_names_def by (induction ns) simp_all

lemma length_insert_name [simp]: "length (insert_name n ns) = Suc (length ns)"
  by (induction ns) auto

lemma length_sort_names [simp]: "length (sort_names ns) = length ns"
  unfolding sort_names_def by (induction ns) simp_all

lemma map_of_names:
  "map_of (map (\<lambda>n. (n, f n)) ns) k = (if k \<in> set ns then Some (f k) else None)"
  by (induction ns) auto

section \<open>Properties\<close>


definition demo_qspec :: qemu_spec where
  "demo_qspec = \<lparr>qs_id = ''a1'', qs_phase = PhaseInstall, qs_cpus = 2, qs_memoryMiB = 512, qs_uki = ''/i.efi'',
     qs_installer = ''/i.raw'', qs_target = ''/vol,id=x'', qs_extraDrives = [],
     qs_netdevs = [\<lparr>nd_id = ''net0'', nd_backend = ''stream,addr.path=/s,,1'', nd_mac = ''02:00:0a:00:00:02''\<rparr>],
     qs_smbios = \<lparr>sm_manufacturer = [], sm_product = [], sm_version = [], sm_serial = []\<rparr>,
     qs_credentials = [(''firstboot.hostname'', ''vm,1'')], qs_kernelCmdlineExtra = [], qs_vsockCID = 3,
     qs_tpmSocket = ''/tpm'', qs_ovmfCode = ''/c'', qs_ovmfVars = ''/v'', qs_serialLog = ''/l'', qs_qmpSocket = ''/q'',
     qs_processLog = [], qs_noReboot = True\<rparr>"


text \<open>
  C35. The credentials of a valid spec reach the guest: reading the rendered SMBIOS
  strings back gives every name its value, printable or not, and nothing else.
\<close>

theorem credentials_roundtrip:
  assumes "\<forall>(n, v) \<in> set creds. validateCredentialName n = Inr ()"
  shows "map_of (List.map_filter read_credential (renderCredentials uni creds)) = map_of creds"
proof
  fix k
  let ?get = "\<lambda>n. case map_of creds n of None \<Rightarrow> [] | Some v \<Rightarrow> v"
  have "List.map_filter read_credential (map (\<lambda>n. renderCredential uni n (?get n)) ns) = map (\<lambda>n. (n, ?get n)) ns"
    if "set ns \<subseteq> fst ` set creds" for ns
    using that assms by (induction ns) (auto simp: List.map_filter_simps read_render)
  then have "List.map_filter read_credential (renderCredentials uni creds) =
      map (\<lambda>n. (n, ?get n)) (sort_names (map fst creds))"
    by (simp add: renderCredentials_def)
  moreover have "k \<in> fst ` set creds \<longleftrightarrow> map_of creds k \<noteq> None" by (simp add: map_of_eq_None_iff)
  ultimately show "map_of (List.map_filter read_credential (renderCredentials uni creds)) k = map_of creds k"
    by (auto simp: map_of_names split: option.splits)
qed

theorem credentials_roundtrip_witness:
  "map_of (List.map_filter read_credential (renderCredentials (\<lambda>_. True)
     [(''b'', ''x=y''), (''a'', [CHR 0x0A])])) = map_of [(''b'', ''x=y''), (''a'', [CHR 0x0A])]"
  by (rule credentials_roundtrip) code_simp

end
