(* ===== verification/Images.thy ===== *)
theory Images
  imports QEMU_Spec "HOL-Library.Multiset"
begin

text \<open>
  The image catalog, \<open>src/internal/images/images.go\<close>: the scan of an image
  directory, resolution of references and the ordering of versions.  The
  directory is a record of what the calls to the file system return; the sort of
  the Go library is an argument, of which only its contract is used: the result
  is a permutation, and sorted when the order it is given is a strict weak order.
\<close>

section \<open>Versions\<close>

definition cmpInt :: "int \<Rightarrow> int \<Rightarrow> int" where
  "cmpInt a b = (if a < b then -1 else if a > b then 1 else 0)"

text \<open>\<open>strings.Compare\<close> by bytes.\<close>

definition str_compare :: "string \<Rightarrow> string \<Rightarrow> int" where
  "str_compare x y = (if x = y then 0 else if str_le x y then -1 else 1)"

text \<open>\<open>Atoi\<close> on a run of digits that overflows returns the largest int with its
  error, which \<open>splitNumericPrefix\<close> ignores.\<close>

definition splitNumericPrefix :: "string \<Rightarrow> int \<times> string" where
  "splitNumericPrefix s =
     (let ds = takeWhile is_digit s; rest = dropWhile is_digit s
      in (if ds = [] then 0 else min (int (digits_val ds)) (2 ^ 63 - 1), rest))"

definition compareComponent :: "string \<Rightarrow> string \<Rightarrow> int" where
  "compareComponent x y =
     (if x = y then 0
      else case (Atoi x, Atoi y) of
        (Some xn, Some yn) \<Rightarrow> cmpInt xn yn
      | (None, None) \<Rightarrow> str_compare x y
      | _ \<Rightarrow>
          (case (splitNumericPrefix x, splitNumericPrefix y) of
             ((xp, xrest), (yp, yrest)) \<Rightarrow>
               if xp \<noteq> yp then cmpInt xp yp
               else - cmpInt (int (length xrest)) (int (length yrest))))"

text \<open>The loop over the components; a missing one is empty.\<close>

fun compare_comps :: "string list \<Rightarrow> string list \<Rightarrow> int" where
  "compare_comps [] [] = 0"
| "compare_comps (x # xs) [] = (let c = compareComponent x [] in if c \<noteq> 0 then c else compare_comps xs [])"
| "compare_comps [] (y # ys) = (let c = compareComponent [] y in if c \<noteq> 0 then c else compare_comps [] ys)"
| "compare_comps (x # xs) (y # ys) = (let c = compareComponent x y in if c \<noteq> 0 then c else compare_comps xs ys)"

definition CompareVersions :: "string \<Rightarrow> string \<Rightarrow> int" where
  "CompareVersions a b = compare_comps (Split (CHR ''.'') a) (Split (CHR ''.'') b)"

section \<open>The catalog\<close>

definition ukiSuffix :: string where "ukiSuffix = ''.efi''"
definition diskSuffix :: string where "diskSuffix = ''.raw''"
definition policySuffix :: string where "policySuffix = ''.policy.json''"
definition policyFile :: string where "policyFile = ''policy.json''"
definition SysupdateDirName :: string where "SysupdateDirName = ''sysupdate''"
definition KubernetesComponent :: string where "KubernetesComponent = ''kubernetes''"
definition kubernetesPrefix :: string where "kubernetesPrefix = ''kubernetes_''"
definition sumsFile :: string where "sumsFile = ''SHA256SUMS''"

record image =
  im_id :: string
  im_version :: string
  im_uki :: string
  im_disk :: string
  im_sysupdateDir :: string
  im_kubernetesVersions :: "string list"
  im_policy :: "string option"

definition Image_Ref :: "image \<Rightarrow> string" where
  "Image_Ref i = im_id i @ ''_'' @ im_version i"

definition HasKubernetesVersion :: "image \<Rightarrow> string \<Rightarrow> bool" where
  "HasKubernetesVersion i version \<longleftrightarrow> version \<in> set (im_kubernetesVersions i)"

record catalog =
  ca_dir :: string
  ca_images :: "image list"

text \<open>What the file system and the JSON decoder answer: the directory listing with
  its directory flags, files, directories, and the two head fields of a JSON
  object.\<close>

record image_fs =
  fs_readDir :: "string \<Rightarrow> (string \<times> bool) list option"
  fs_exists :: "string \<Rightarrow> bool"
  fs_isDir :: "string \<Rightarrow> bool"
  fs_readFile :: "string \<Rightarrow> string option"
  fs_jsonValid :: "string \<Rightarrow> bool"
  fs_jsonHead :: "string \<Rightarrow> (string \<times> string) option"

definition Catalog_New :: "string \<Rightarrow> catalog" where
  "Catalog_New dir = \<lparr>ca_dir = dir, ca_images = []\<rparr>"

definition SysupdateDir :: "catalog \<Rightarrow> string" where
  "SysupdateDir c = filepath_Join [ca_dir c, SysupdateDirName]"

definition splitStem :: "string \<Rightarrow> (string \<times> string) option" where
  "splitStem stem =
     (case LastIndexCut (CHR ''_'') stem of
        None \<Rightarrow> None
      | Some (i, v) \<Rightarrow> if i = [] \<or> v = [] then None else Some (i, v))"

definition images_readJSON :: "image_fs \<Rightarrow> string \<Rightarrow> string option" where
  "images_readJSON fs path =
     (case fs_readFile fs path of None \<Rightarrow> None | Some d \<Rightarrow> if fs_jsonValid fs d then Some d else None)"

definition perImagePolicy :: "catalog \<Rightarrow> string \<Rightarrow> string \<Rightarrow> string" where
  "perImagePolicy c i v = filepath_Join [ca_dir c, i @ ''_'' @ v @ policySuffix]"

definition policySource :: "image_fs \<Rightarrow> catalog \<Rightarrow> string \<Rightarrow> string \<Rightarrow> string \<times> string option" where
  "policySource fs c i v =
     (case images_readJSON fs (perImagePolicy c i v) of
        Some raw \<Rightarrow> (perImagePolicy c i v, Some raw)
      | None \<Rightarrow>
          let shared = filepath_Join [ca_dir c, policyFile] in
          (case images_readJSON fs shared of
             None \<Rightarrow> ([], None)
           | Some raw \<Rightarrow>
               (case fs_jsonHead fs raw of
                  None \<Rightarrow> ([], None)
                | Some (hid, hversion) \<Rightarrow>
                    if (hid \<noteq> [] \<and> hid \<noteq> i) \<or> (hversion \<noteq> [] \<and> hversion \<noteq> v) then ([], None)
                    else (shared, Some raw))))"

definition image_policy :: "image_fs \<Rightarrow> catalog \<Rightarrow> string \<Rightarrow> string \<Rightarrow> string option" where
  "image_policy fs c i v = snd (policySource fs c i v)"

definition PolicyPath :: "image_fs \<Rightarrow> catalog \<Rightarrow> image \<Rightarrow> string" where
  "PolicyPath fs c img =
     (let p = fst (policySource fs c (im_id img) (im_version img))
      in if p \<noteq> [] then p else perImagePolicy c (im_id img) (im_version img))"

text \<open>\<open>strings.Fields\<close> on ASCII white space.\<close>

definition is_space :: "char \<Rightarrow> bool" where
  "is_space c \<longleftrightarrow> ord c \<in> {9, 10, 11, 12, 13, 32}"

fun Fields_from :: "string \<Rightarrow> string \<Rightarrow> string list" where
  "Fields_from acc [] = (if acc = [] then [] else [rev acc])"
| "Fields_from acc (c # cs) =
     (if is_space c then (if acc = [] then [] else [rev acc]) @ Fields_from [] cs else Fields_from (c # acc) cs)"

definition Fields :: "string \<Rightarrow> string list" where
  "Fields s = Fields_from [] s"

definition sums_version :: "string \<Rightarrow> string option" where
  "sums_version line =
     (let fields = Fields line in
      if length fields < 2 then None
      else let file = TrimPrefix (last fields) ''*'' in
           if \<not> prefix kubernetesPrefix file \<or> \<not> suffix diskSuffix file then None
           else Some (TrimSuffix (TrimPrefix file kubernetesPrefix) diskSuffix))"

type_synonym 'a sorter = "('a \<Rightarrow> 'a \<Rightarrow> bool) \<Rightarrow> 'a list \<Rightarrow> 'a list"

definition kubernetesVersions :: "string sorter \<Rightarrow> image_fs \<Rightarrow> catalog \<Rightarrow> string list" where
  "kubernetesVersions srt fs c =
     (case fs_readFile fs (filepath_Join [SysupdateDir c, KubernetesComponent, sumsFile]) of
        None \<Rightarrow> []
      | Some text \<Rightarrow>
          srt (\<lambda>a b. CompareVersions a b > 0) (List.map_filter sums_version (Split (char_of (10 :: nat)) text)))"

definition image_entry :: "image_fs \<Rightarrow> catalog \<Rightarrow> string \<Rightarrow> string list \<Rightarrow> string \<times> bool \<Rightarrow> image option" where
  "image_entry fs c sysupdate kversions e =
     (case e of (name, isDir) \<Rightarrow>
        if isDir \<or> \<not> suffix ukiSuffix name then None
        else let stem = TrimSuffix name ukiSuffix in
          (case splitStem stem of
             None \<Rightarrow> None
           | Some (i, version) \<Rightarrow>
               let disk = filepath_Join [ca_dir c, stem @ diskSuffix] in
               if \<not> fs_exists fs disk then None
               else Some \<lparr>im_id = i, im_version = version, im_uki = filepath_Join [ca_dir c, name], im_disk = disk,
                     im_sysupdateDir = sysupdate, im_kubernetesVersions = kversions,
                     im_policy = image_policy fs c i version\<rparr>))"

definition image_less :: "image \<Rightarrow> image \<Rightarrow> bool" where
  "image_less a b =
     (if im_id a \<noteq> im_id b then str_le (im_id a) (im_id b) else CompareVersions (im_version a) (im_version b) > 0)"

definition Refresh :: "string sorter \<Rightarrow> image sorter \<Rightarrow> image_fs \<Rightarrow> catalog \<Rightarrow> unit res \<times> catalog" where
  "Refresh vsrt isrt fs c =
     (case fs_readDir fs (ca_dir c) of
        None \<Rightarrow> (Inl (ErrOther ''read image dir''), c)
      | Some entries \<Rightarrow>
          let kversions = kubernetesVersions vsrt fs c;
              sysupdate = (if fs_isDir fs (SysupdateDir c) then SysupdateDir c else []);
              imgs = List.map_filter (image_entry fs c sysupdate kversions) entries
          in (Inr (), c\<lparr>ca_images := isrt image_less imgs\<rparr>))"

definition images_Load :: "string sorter \<Rightarrow> image sorter \<Rightarrow> image_fs \<Rightarrow> string \<Rightarrow> catalog res" where
  "images_Load vsrt isrt fs dir =
     (case Refresh vsrt isrt fs (Catalog_New dir) of (Inl e, _) \<Rightarrow> Inl e | (Inr _, c) \<Rightarrow> Inr c)"

definition Catalog_List :: "catalog \<Rightarrow> image list" where
  "Catalog_List c = ca_images c"

definition Catalog_Get :: "catalog \<Rightarrow> string \<Rightarrow> image res" where
  "Catalog_Get c ref =
     (case List.find (\<lambda>img. Image_Ref img = ref \<or> im_id img = ref) (ca_images c) of
        None \<Rightarrow> Inl ErrNotFound
      | Some img \<Rightarrow> Inr img)"

definition Catalog_Default :: "catalog \<Rightarrow> image res" where
  "Catalog_Default c =
     (case ca_images c of
        [] \<Rightarrow> Inl ErrNotFound
      | img # rest \<Rightarrow>
          Inr (foldl (\<lambda>best img. if CompareVersions (im_version img) (im_version best) > 0 then img else best) img rest))"

section \<open>Numeric versions\<close>

text \<open>On versions whose components are numbers, \<open>CompareVersions\<close> compares the
  numbers from left to right and reads missing components as zero.\<close>

definition numeric :: "string \<Rightarrow> bool" where
  "numeric v \<longleftrightarrow> list_all (\<lambda>x. x \<noteq> [] \<and> list_all is_digit x \<and> digits_val x < 2 ^ 63) (Split (CHR ''.'') v)"

definition version_nums :: "string \<Rightarrow> nat list" where
  "version_nums v = map digits_val (Split (CHR ''.'') v)"

fun head0 :: "nat list \<Rightarrow> nat" where
  "head0 [] = 0"
| "head0 (x # xs) = x"

function pad_cmp :: "nat list \<Rightarrow> nat list \<Rightarrow> int" where
  "pad_cmp xs ys =
     (if xs = [] \<and> ys = [] then 0
      else if head0 xs < head0 ys then -1 else if head0 xs > head0 ys then 1 else pad_cmp (tl xs) (tl ys))"
  by pat_completeness auto

termination
  by (relation "measure (\<lambda>(xs, ys). length xs + length ys)") (auto simp: neq_Nil_conv)

declare pad_cmp.simps [simp del]

lemma Atoi_digits:
  assumes "x \<noteq> []" "list_all is_digit x" "digits_val x < 2 ^ 63"
  shows "Atoi x = Some (int (digits_val x))"
proof -
  obtain c r where x: "x = c # r" using assms(1) by (cases x) auto
  have "\<not> is_digit CHR ''-''" "\<not> is_digit CHR ''+''" by code_simp+
  then have "c \<noteq> CHR ''-''" "c \<noteq> CHR ''+''" using assms(2) x by auto
  then show ?thesis using assms x by (simp add: Atoi_def parse_nat_def Let_def)
qed

lemma Atoi_Nil: "Atoi [] = None"
  by (simp add: Atoi_def parse_nat_def)

lemma splitNumericPrefix_digits:
  assumes "list_all is_digit x" "digits_val x < 2 ^ 63"
  shows "splitNumericPrefix x = (int (digits_val x), [])"
proof -
  have "takeWhile is_digit x = x" "dropWhile is_digit x = []"
    using assms(1) by (simp_all add: takeWhile_eq_all_conv list_all_iff)
  then show ?thesis using assms(2) by (cases x) (simp_all add: splitNumericPrefix_def digits_val_def)
qed

lemma compareComponent_digits:
  assumes "x \<noteq> []" "list_all is_digit x" "digits_val x < 2 ^ 63"
    and "y \<noteq> []" "list_all is_digit y" "digits_val y < 2 ^ 63"
  shows "compareComponent x y = cmpInt (int (digits_val x)) (int (digits_val y))"
  using assms by (simp add: compareComponent_def Atoi_digits cmpInt_def)

lemma compareComponent_missing:
  assumes "x \<noteq> []" "list_all is_digit x" "digits_val x < 2 ^ 63"
  shows "compareComponent x [] = cmpInt (int (digits_val x)) 0" "compareComponent [] x = cmpInt 0 (int (digits_val x))"
  using assms splitNumericPrefix_digits [OF assms(2,3)] splitNumericPrefix_digits [of "[]"]
  by (auto simp: compareComponent_def Atoi_digits Atoi_Nil cmpInt_def digits_val_def)

lemma compare_comps_numeric:
  assumes "list_all (\<lambda>x. x \<noteq> [] \<and> list_all is_digit x \<and> digits_val x < 2 ^ 63) xs"
    and "list_all (\<lambda>x. x \<noteq> [] \<and> list_all is_digit x \<and> digits_val x < 2 ^ 63) ys"
  shows "compare_comps xs ys = pad_cmp (map digits_val xs) (map digits_val ys)"
  using assms
  by (induction xs ys rule: compare_comps.induct; subst pad_cmp.simps)
    (auto simp: Let_def compareComponent_digits compareComponent_missing cmpInt_def)

lemma CompareVersions_numeric:
  "numeric a \<Longrightarrow> numeric b \<Longrightarrow> CompareVersions a b = pad_cmp (version_nums a) (version_nums b)"
  by (simp add: CompareVersions_def numeric_def version_nums_def compare_comps_numeric)

lemma pad_cmp_sign: "pad_cmp xs ys \<in> {-1, 0, 1}"
  by (induction xs ys rule: pad_cmp.induct) (subst pad_cmp.simps, auto)

lemma pad_cmp_flip: "pad_cmp ys xs = - pad_cmp xs ys"
  by (induction xs ys rule: pad_cmp.induct) (subst (1 2) pad_cmp.simps, auto)

lemma pad_cmp_trans: "pad_cmp xs ys \<ge> 0 \<Longrightarrow> pad_cmp ys zs \<ge> 0 \<Longrightarrow> pad_cmp xs zs \<ge> 0"
proof (induction "length xs + length ys + length zs" arbitrary: xs ys zs rule: less_induct)
  case less
  show ?case
  proof (cases "xs = [] \<and> ys = [] \<and> zs = []")
    case True
    then show ?thesis by (simp add: pad_cmp.simps)
  next
    case False
    have tails: "pad_cmp (tl xs) (tl zs) \<ge> 0" if "pad_cmp (tl xs) (tl ys) \<ge> 0" "pad_cmp (tl ys) (tl zs) \<ge> 0"
      using less.hyps [OF _ that] False by (auto simp: neq_Nil_conv)
    have zero: "pad_cmp [] [] = 0" by (simp add: pad_cmp.simps)
    show ?thesis
      using less.prems tails False pad_cmp.simps [of xs ys] pad_cmp.simps [of ys zs] pad_cmp.simps [of xs zs] zero
      by (auto split: if_splits)
  qed
qed

section \<open>The contract of the sort\<close>

definition strict_weak :: "('a \<Rightarrow> 'a \<Rightarrow> bool) \<Rightarrow> 'a set \<Rightarrow> bool" where
  "strict_weak lt S \<longleftrightarrow>
     (\<forall>x \<in> S. \<not> lt x x) \<and>
     (\<forall>x \<in> S. \<forall>y \<in> S. \<forall>z \<in> S. \<not> lt y x \<longrightarrow> \<not> lt z y \<longrightarrow> \<not> lt z x) \<and>
     (\<forall>x \<in> S. \<forall>y \<in> S. lt x y \<longrightarrow> \<not> lt y x)"

definition sorts :: "'a sorter \<Rightarrow> bool" where
  "sorts srt \<longleftrightarrow>
     (\<forall>lt xs. mset (srt lt xs) = mset xs \<and>
        (strict_weak lt (set xs) \<longrightarrow> sorted_wrt (\<lambda>a b. \<not> lt b a) (srt lt xs)))"

lemma str_le_refl: "str_le s s"
  by (induction s) auto

lemma ord_inject [simp]: "ord c = ord d \<longleftrightarrow> c = d"
  by (metis char_of_ord)

lemma str_le_Nil [simp]: "str_le s [] \<longleftrightarrow> s = []"
  by (cases s) auto

lemma str_le_antisym: "str_le s t \<Longrightarrow> str_le t s \<Longrightarrow> s = t"
  by (induction s t rule: str_le.induct) auto

lemma str_le_trans: "str_le s t \<Longrightarrow> str_le t u \<Longrightarrow> str_le s u"
proof (induction s t arbitrary: u rule: str_le.induct)
  case (3 c cs d ds)
  then show ?case by (cases u) auto
qed auto

lemma str_le_total: "str_le s t \<or> str_le t s"
  by (induction s t rule: str_le.induct) auto

text \<open>The order of the catalog: by id, then from the highest version.\<close>

definition image_le :: "image \<Rightarrow> image \<Rightarrow> bool" where
  "image_le a b \<longleftrightarrow>
     (if im_id a = im_id b then pad_cmp (version_nums (im_version a)) (version_nums (im_version b)) \<ge> 0
      else str_le (im_id a) (im_id b))"

lemma image_le_trans: "image_le x y \<Longrightarrow> image_le y z \<Longrightarrow> image_le x z"
proof -
  assume le: "image_le x y" "image_le y z"
  consider "im_id x = im_id y" "im_id y = im_id z" | "im_id x = im_id y" "im_id y \<noteq> im_id z"
    | "im_id x \<noteq> im_id y" "im_id y = im_id z" | "im_id x \<noteq> im_id y" "im_id y \<noteq> im_id z" by blast
  then show "image_le x z"
  proof cases
    case 1
    with le show ?thesis by (auto simp: image_le_def intro: pad_cmp_trans)
  next
    case 4
    then have "str_le (im_id x) (im_id y)" "str_le (im_id y) (im_id z)" using le by (simp_all add: image_le_def)
    then have "str_le (im_id x) (im_id z)" "im_id x \<noteq> im_id z"
      using str_le_trans str_le_antisym 4(1) by (blast, metis)
    then show ?thesis by (simp add: image_le_def)
  qed (use le in \<open>simp_all add: image_le_def\<close>)
qed

lemma image_less_le:
  assumes "numeric (im_version a)" "numeric (im_version b)"
  shows "\<not> image_less b a \<longleftrightarrow> image_le a b"
proof (cases "im_id a = im_id b")
  case True
  then show ?thesis
    using CompareVersions_numeric [OF assms(2,1)]
      pad_cmp_flip [of "version_nums (im_version a)" "version_nums (im_version b)"]
    by (auto simp: image_less_def image_le_def)
next
  case False
  then show ?thesis
    using str_le_total [of "im_id a" "im_id b"] str_le_antisym [of "im_id a" "im_id b"]
    by (auto simp: image_less_def image_le_def)
qed

lemma image_le_total: "image_le x y \<or> image_le y x"
  using pad_cmp_flip [of "version_nums (im_version x)" "version_nums (im_version y)"] str_le_total
  by (auto simp: image_le_def)

lemma image_less_strict_weak:
  assumes "\<forall>i \<in> S. numeric (im_version i)"
  shows "strict_weak image_less S"
proof -
  have le: "\<not> image_less b a \<longleftrightarrow> image_le a b" if "a \<in> S" "b \<in> S" for a b
    using that assms by (simp add: image_less_le)
  show ?thesis unfolding strict_weak_def
  proof (intro conjI ballI impI)
    fix x assume x: "x \<in> S"
    show "\<not> image_less x x" unfolding le [OF x x] using image_le_total [of x x] by simp
    fix y assume y: "y \<in> S"
    show "\<not> image_less y x" if "image_less x y"
      using that le [OF x y] le [OF y x] image_le_total [of x y] by simp
    fix z assume z: "z \<in> S" and "\<not> image_less y x" "\<not> image_less z y"
    then have "image_le x y" "image_le y z" by (simp_all add: le [OF x y] le [OF y z])
    then show "\<not> image_less z x" unfolding le [OF x z] by (rule image_le_trans)
  qed
qed

section \<open>Resolution\<close>

lemma find_first:
  "List.find P xs = Some x \<Longrightarrow> sorted_wrt R xs \<Longrightarrow> y \<in> set xs \<Longrightarrow> P y \<Longrightarrow> y = x \<or> R x y"
  by (induction xs) (auto split: if_splits)

lemma find_SomeD: "List.find P xs = Some x \<Longrightarrow> x \<in> set xs \<and> P x"
  by (induction xs) (auto split: if_splits)

lemma fold_best:
  assumes "\<And>x y z. x \<in> S \<Longrightarrow> y \<in> S \<Longrightarrow> z \<in> S \<Longrightarrow> ge x y \<Longrightarrow> ge y z \<Longrightarrow> ge x z"
    and "\<And>x. x \<in> S \<Longrightarrow> ge x x" and "\<And>x y. x \<in> S \<Longrightarrow> y \<in> S \<Longrightarrow> gt x y \<Longrightarrow> ge x y"
    and "\<And>x y. x \<in> S \<Longrightarrow> y \<in> S \<Longrightarrow> \<not> gt x y \<Longrightarrow> ge y x"
    and "b \<in> S" "set xs \<subseteq> S"
  defines "f \<equiv> foldl (\<lambda>best x. if gt x best then x else best) b xs"
  shows "f \<in> insert b (set xs) \<and> (\<forall>x \<in> insert b (set xs). ge f x)"
  using assms(5,6) unfolding f_def
proof (induction xs arbitrary: b)
  case (Cons x xs)
  let ?b = "if gt x b then x else b"
  let ?f = "foldl (\<lambda>best x. if gt x best then x else best) ?b xs"
  have S: "?b \<in> S" "set xs \<subseteq> S" using Cons.prems by auto
  from Cons.IH [OF S] have ih: "?f \<in> insert ?b (set xs)" "\<forall>y \<in> insert ?b (set xs). ge ?f y" by auto
  have "?f \<in> S" using ih(1) S by auto
  moreover have "ge ?b x" "ge ?b b" using Cons.prems assms(2-4) by auto
  ultimately have "ge ?f x" "ge ?f b" using ih(2) assms(1) [of ?f ?b] S Cons.prems by auto
  with ih show ?case by auto
qed (use assms(2) in auto)

lemma refreshed_sorted:
  assumes "sorts isrt" "Refresh vsrt isrt fs c = (Inr (), c')" "\<forall>i \<in> set (ca_images c'). numeric (im_version i)"
  shows "sorted_wrt image_le (ca_images c')"
proof -
  obtain imgs where c': "ca_images c' = isrt image_less imgs"
    using assms(2) by (auto simp: Refresh_def Let_def split: option.splits)
  then have "mset (ca_images c') = mset imgs" using assms(1) by (simp add: sorts_def)
  then have "set imgs = set (ca_images c')" by (metis set_mset_mset)
  with assms(3) have "strict_weak image_less (set imgs)" by (simp add: image_less_strict_weak)
  with assms(1) c' have "sorted_wrt (\<lambda>a b. \<not> image_less b a) (ca_images c')" by (simp add: sorts_def)
  then show ?thesis
    by (rule sorted_wrt_mono_rel [rotated]) (use assms(3) image_less_le in auto)
qed

lemma pad_cmp_refl [simp]: "pad_cmp ns ns = 0"
  using pad_cmp_flip [of ns ns] by simp

lemma get_highest:
  assumes srt: "sorted_wrt image_le (ca_images c)" and num: "\<forall>i \<in> set (ca_images c). numeric (im_version i)"
    and get: "Catalog_Get c ref = Inr img"
  shows "img \<in> set (ca_images c) \<and> (Image_Ref img = ref \<or> im_id img = ref) \<and>
    (im_id img = ref \<longrightarrow> (\<forall>x \<in> set (ca_images c). im_id x = ref \<longrightarrow> CompareVersions (im_version img) (im_version x) \<ge> 0))"
proof -
  have f: "List.find (\<lambda>img. Image_Ref img = ref \<or> im_id img = ref) (ca_images c) = Some img"
    using get by (simp add: Catalog_Get_def split: option.splits)
  note mem = find_SomeD [OF f]
  have "CompareVersions (im_version img) (im_version x) \<ge> 0"
    if "im_id img = ref" "x \<in> set (ca_images c)" "im_id x = ref" for x
  proof -
    have "x = img \<or> image_le img x" using find_first [OF f srt that(2)] that(3) by simp
    then show ?thesis using that mem num by (auto simp: image_le_def CompareVersions_numeric)
  qed
  with mem show ?thesis by blast
qed

lemma default_highest:
  assumes num: "\<forall>i \<in> set (ca_images c). numeric (im_version i)" and dft: "Catalog_Default c = Inr img"
  shows "img \<in> set (ca_images c) \<and> (\<forall>x \<in> set (ca_images c). CompareVersions (im_version img) (im_version x) \<ge> 0)"
proof (cases "ca_images c")
  case (Cons b xs)
  let ?S = "set (ca_images c)"
  let ?gt = "\<lambda>x y. CompareVersions (im_version x) (im_version y) > 0"
  let ?ge = "\<lambda>x y. CompareVersions (im_version x) (im_version y) \<ge> 0"
  have cv: "CompareVersions (im_version x) (im_version y) = pad_cmp (version_nums (im_version x)) (version_nums (im_version y))"
    if "x \<in> ?S" "y \<in> ?S" for x y using that num by (simp add: CompareVersions_numeric)
  have img: "img = foldl (\<lambda>best x. if ?gt x best then x else best) b xs"
    using dft Cons by (simp add: Catalog_Default_def)
  have "img \<in> insert b (set xs) \<and> (\<forall>x \<in> insert b (set xs). ?ge img x)"
    unfolding img
  proof (rule fold_best [where S = ?S])
    show "?ge x z" if "x \<in> ?S" "y \<in> ?S" "z \<in> ?S" "?ge x y" "?ge y z" for x y z
      using that pad_cmp_trans by (simp add: cv)
    show "?ge y x" if "x \<in> ?S" "y \<in> ?S" "\<not> ?gt x y" for x y
      using that pad_cmp_flip [of "version_nums (im_version x)" "version_nums (im_version y)"] by (simp add: cv)
  qed (use Cons cv in auto)
  then show ?thesis using Cons by simp
qed (use dft in \<open>simp add: Catalog_Default_def\<close>)

text \<open>A sort that meets the contract: insertion sort, which is what the library
  runs on short slices.\<close>

fun insort_by :: "('a \<Rightarrow> 'a \<Rightarrow> bool) \<Rightarrow> 'a \<Rightarrow> 'a list \<Rightarrow> 'a list" where
  "insort_by lt x [] = [x]"
| "insort_by lt x (y # ys) = (if lt y x then y # insort_by lt x ys else x # y # ys)"

definition insertion_sort :: "'a sorter" where
  "insertion_sort lt xs = foldr (insort_by lt) xs []"

lemma insertion_sort_sorts: "sorts insertion_sort"
proof -
  have ms: "mset (insort_by lt x ys) = add_mset x (mset ys)" for lt :: "'a \<Rightarrow> 'a \<Rightarrow> bool" and x ys
    by (induction ys) auto
  then have mset: "mset (insertion_sort lt xs) = mset xs" for lt :: "'a \<Rightarrow> 'a \<Rightarrow> bool" and xs
    by (induction xs) (simp_all add: insertion_sort_def)
  have ins: "sorted_wrt (\<lambda>a b. \<not> lt b a) (insort_by lt x ys)"
    if "strict_weak lt S" "insert x (set ys) \<subseteq> S" "sorted_wrt (\<lambda>a b. \<not> lt b a) ys" for lt :: "'a \<Rightarrow> 'a \<Rightarrow> bool" and x ys S
    using that
  proof (induction ys)
    case (Cons y ys)
    have "set (insort_by lt x ys) = insert x (set ys)" using ms [of lt x ys] by (metis set_mset_add_mset_insert set_mset_mset)
    moreover have S: "x \<in> S" "y \<in> S" "\<And>b. b \<in> set ys \<Longrightarrow> b \<in> S" using Cons.prems(2) by auto
    have "\<not> lt b x" if "\<not> lt y x" "b \<in> set ys" for b
    proof -
      have "\<not> lt b y" using Cons.prems(3) that(2) by simp
      then show ?thesis using Cons.prems(1) S(1,2) S(3) [OF that(2)] that(1) unfolding strict_weak_def by blast
    qed
    moreover have "\<not> lt x y" if "lt y x"
      using that Cons.prems(1) S(1,2) unfolding strict_weak_def by blast
    moreover have "sorted_wrt (\<lambda>a b. \<not> lt b a) (insort_by lt x ys)" using Cons by simp
    ultimately show ?case using Cons.prems(3) by simp
  qed simp
  have "sorted_wrt (\<lambda>a b. \<not> lt b a) (insertion_sort lt xs)"
    if "strict_weak lt S" "set xs \<subseteq> S" for lt :: "'a \<Rightarrow> 'a \<Rightarrow> bool" and xs S
    using that
  proof (induction xs)
    case (Cons x xs)
    have "set (insertion_sort lt xs) = set xs" using mset by (metis set_mset_mset)
    with Cons ins [of lt S x "insertion_sort lt xs"] show ?case by (simp add: insertion_sort_def)
  qed (simp add: insertion_sort_def)
  with mset show ?thesis unfolding sorts_def by blast
qed

section \<open>Properties\<close>

text \<open>
  When every version of a scanned catalog is numeric, a bare id resolves to an
  image of that id with the highest version, any other reference to the image it
  names, and the default is an image with the highest version of all.
\<close>

theorem catalog_highest:
  assumes "sorts isrt" "Refresh vsrt isrt fs c = (Inr (), c')" "\<forall>i \<in> set (ca_images c'). numeric (im_version i)"
  shows "(\<forall>ref img. Catalog_Get c' ref = Inr img \<longrightarrow> img \<in> set (ca_images c') \<and>
      (Image_Ref img = ref \<or> im_id img = ref) \<and>
      (im_id img = ref \<longrightarrow> (\<forall>x \<in> set (ca_images c'). im_id x = ref \<longrightarrow> CompareVersions (im_version img) (im_version x) \<ge> 0))) \<and>
    (\<forall>img. Catalog_Default c' = Inr img \<longrightarrow> img \<in> set (ca_images c') \<and>
      (\<forall>x \<in> set (ca_images c'). CompareVersions (im_version img) (im_version x) \<ge> 0))"
  using get_highest [OF refreshed_sorted [OF assms] assms(3)] default_highest [OF assms(3)] by blast

definition demo_fs :: image_fs where
  "demo_fs = \<lparr>fs_readDir = (\<lambda>_. Some [(''a_0.9.efi'', False), (''sysupdate'', True), (''a_0.10.efi'', False)]),
     fs_exists = (\<lambda>_. True), fs_isDir = (\<lambda>_. False), fs_readFile = (\<lambda>_. None), fs_jsonValid = (\<lambda>_. False),
     fs_jsonHead = (\<lambda>_. None)\<rparr>"

definition demo_catalog :: catalog where
  "demo_catalog = snd (Refresh insertion_sort insertion_sort demo_fs (Catalog_New ''/i''))"

theorem catalog_highest_witness:
  "\<exists>img. Catalog_Get demo_catalog ''a'' = Inr img \<and> im_version img = ''0.10'' \<and>
     (\<forall>x \<in> set (ca_images demo_catalog). im_id x = ''a'' \<longrightarrow> CompareVersions ''0.10'' (im_version x) \<ge> 0)"
proof -
  have ref: "Refresh insertion_sort insertion_sort demo_fs (Catalog_New ''/i'') = (Inr (), demo_catalog)"
    by (simp add: demo_catalog_def Refresh_def demo_fs_def Catalog_New_def Let_def)
  have "map im_version (ca_images demo_catalog) = [''0.10'', ''0.9'']" by code_simp
  then have "im_version ` set (ca_images demo_catalog) = {''0.10'', ''0.9''}" by (metis list.set_map list.simps(15) set_empty2)
  then have "\<forall>i \<in> set (ca_images demo_catalog). im_version i \<in> {''0.10'', ''0.9''}" by blast
  moreover have "numeric ''0.10''" "numeric ''0.9''"
    by (simp_all add: numeric_def is_digit_def ord_def digits_val_def digit_val_def)
  ultimately have num: "\<forall>i \<in> set (ca_images demo_catalog). numeric (im_version i)" by auto
  have "case Catalog_Get demo_catalog ''a'' of Inl _ \<Rightarrow> False | Inr i \<Rightarrow> im_id i = ''a'' \<and> im_version i = ''0.10''"
    by code_simp
  then obtain img where "Catalog_Get demo_catalog ''a'' = Inr img" "im_id img = ''a''" "im_version img = ''0.10''"
    by (auto split: sum.splits)
  with catalog_highest [OF insertion_sort_sorts ref num] show ?thesis by metis
qed


end
