(* ===== verification/VM_Types.thy ===== *)
theory VM_Types
  imports Attest Network Images
begin

text \<open>
  The data of the VM service, \<open>src/internal/vm/types.go\<close> and \<open>metrics.go\<close>:
  lifecycle states, the spec a caller sends and its validation, the record of a
  VM, the milestones \<open>Create\<close> waits for and the metrics view.  \<open>LastError\<close> is a
  value that names its message and carries its data.
\<close>

section \<open>States\<close>

datatype lifecycle =
    StateCreating | StateInstalling | StateBooting | StateAttesting | StateReady'
  | StateRunning | StateStopping | StateStopped | StateFailed | StateDeleting

fun Live :: "lifecycle \<Rightarrow> bool" where
  "Live s = (case s of
     StateInstalling \<Rightarrow> True | StateBooting \<Rightarrow> True | StateAttesting \<Rightarrow> True | StateReady' \<Rightarrow> True
   | StateRunning \<Rightarrow> True | StateStopping \<Rightarrow> True | _ \<Rightarrow> False)"

definition States :: "lifecycle list" where
  "States = [StateCreating, StateInstalling, StateBooting, StateAttesting, StateReady',
     StateRunning, StateStopping, StateStopped, StateFailed, StateDeleting]"

fun State_string :: "lifecycle \<Rightarrow> string" where
  "State_string s = (case s of
     StateCreating \<Rightarrow> ''creating'' | StateInstalling \<Rightarrow> ''installing'' | StateBooting \<Rightarrow> ''booting''
   | StateAttesting \<Rightarrow> ''attesting'' | StateReady' \<Rightarrow> ''ready'' | StateRunning \<Rightarrow> ''running''
   | StateStopping \<Rightarrow> ''stopping'' | StateStopped \<Rightarrow> ''stopped'' | StateFailed \<Rightarrow> ''failed''
   | StateDeleting \<Rightarrow> ''deleting'')"

definition StateNames :: "string list" where
  "StateNames = map State_string States"

definition WaitNone :: string where "WaitNone = ''none''"
definition WaitInstalled :: string where "WaitInstalled = ''installed''"
definition WaitAttested :: string where "WaitAttested = ''attested''"
definition WaitReady :: string where "WaitReady = ''ready''"

lemmas wait_defs = WaitNone_def WaitInstalled_def WaitAttested_def WaitReady_def

definition WaitFor_Valid :: "string \<Rightarrow> bool" where
  "WaitFor_Valid w \<longleftrightarrow> w = [] \<or> w = WaitNone \<or> w = WaitInstalled \<or> w = WaitAttested \<or> w = WaitReady"

section \<open>Records\<close>

record vm_spec =
  vsp_name :: string
  vsp_image :: string
  vsp_kubernetesVersion :: string
  vsp_cpus :: int
  vsp_memoryMiB :: int
  vsp_diskGiB :: int
  vsp_network :: string
  vsp_userData :: bytes
  vsp_sshAuthorizedKeys :: "string list"
  vsp_hostname :: string
  vsp_metadata :: "(string, string) gomap"
  vsp_region :: string
  vsp_zone :: string
  vsp_requireAttestation :: bool
  vsp_waitFor :: string

record vm_quote =
  vq_verified :: bool
  vq_message :: message
  vq_at :: timestamp
  vq_akFingerprint :: string
  vq_pcrs :: "(nat, string) gomap"
  vq_learned :: "nat list"

record attestation =
  atn_required :: bool
  atn_userDataReleased :: bool
  atn_nonceIssuedAt :: "timestamp option"
  atn_initrd :: "vm_quote option"
  atn_ready :: "vm_quote option"

record vm_paths_rec =
  pa_dir :: string
  pa_volume :: string
  pa_console :: string
  pa_tpmState :: string
  pa_ovmfVars :: string
  pa_qmpSocket :: string
  pa_sshKey :: string
  pa_userData :: string
  pa_report :: string
  pa_qemuLog :: string

record proc_handle =
  ha_unit :: string
  ha_pid :: int

record processes =
  ps_qemu :: proc_handle
  ps_tpm :: proc_handle

record exit_status =
  ex_code :: int
  ex_text :: string

text \<open>\<open>LastError\<close>; \<open>NoteVTPM\<close> and \<open>NoteConsole\<close> wrap a message the way the code
  prefixes and extends its text.\<close>

datatype last_error =
    NoteNone
  | NoteRejected stage message
  | NoteNoReady duration
  | NoteGuestDown
  | NoteExited string exit_status
  | NoteNotFinished string duration
  | NoteVTPM string last_error
  | NoteConsole last_error string
  | NoteShutdown
  | NoteStart error
  | NoteHandoff error
  | NoteNotReattached lifecycle error
  | NoteInterrupted lifecycle

record vm =
  vm_id :: string
  vm_spec' :: vm_spec
  vm_st :: lifecycle
  vm_phase :: phase
  vm_ip :: string
  vm_mac :: string
  vm_cid :: "32 word"
  vm_machineID :: string
  vm_booted :: bool
  vm_status :: string
  vm_sshPublicKey :: string
  vm_attestation :: attestation
  vm_createdAt :: timestamp
  vm_installedAt :: "timestamp option"
  vm_bootedAt :: "timestamp option"
  vm_readyAt :: "timestamp option"
  vm_lastError :: last_error
  vm_processes :: "processes option"
  vm_paths :: vm_paths_rec

text \<open>A copy without the user-data; the rest of \<open>clone\<close> only separates memory.\<close>

definition clone :: "vm \<Rightarrow> vm" where
  "clone v = v\<lparr>vm_spec' := (vm_spec' v)\<lparr>vsp_userData := []\<rparr>\<rparr>"

abbreviation vm_name :: "vm \<Rightarrow> string" where "vm_name v \<equiv> vsp_name (vm_spec' v)"
abbreviation vm_network :: "vm \<Rightarrow> string" where "vm_network v \<equiv> vsp_network (vm_spec' v)"

section \<open>Validation\<close>

definition MaxCPUs :: int where "MaxCPUs = 256"
definition MinMemoryMiB :: int where "MinMemoryMiB = 256"
definition MaxDiskGiB :: int where "MaxDiskGiB = 4096"
definition MaxNameLen :: nat where "MaxNameLen = 63"

text \<open>\<open>^[a-z0-9]([a-z0-9-]*[a-z0-9])?$\<close>\<close>

definition labelRE :: "string \<Rightarrow> bool" where
  "labelRE s \<longleftrightarrow> s \<noteq> [] \<and> label_char (hd s) \<and> label_char (last s) \<and> list_all (\<lambda>c. label_char c \<or> c = CHR ''-'') s"

datatype problem =
    BadName | BadHostname | BadCPUs | BadMemory | BadDisk | NoNetwork | BadWaitFor | BadMetadataKey string | BadSSHKey

definition spec_problems :: "vm_spec \<Rightarrow> problem list" where
  "spec_problems s =
     (if length (vsp_name s) > MaxNameLen \<or> \<not> labelRE (vsp_name s) then [BadName] else []) @
     (if length (vsp_hostname s) > MaxNameLen \<or> \<not> labelRE (vsp_hostname s) then [BadHostname] else []) @
     (if vsp_cpus s < 1 \<or> vsp_cpus s > MaxCPUs then [BadCPUs] else []) @
     (if vsp_memoryMiB s < MinMemoryMiB then [BadMemory] else []) @
     (if vsp_diskGiB s < 1 \<or> vsp_diskGiB s > MaxDiskGiB then [BadDisk] else []) @
     (if vsp_network s = [] then [NoNetwork] else []) @
     (if \<not> WaitFor_Valid (vsp_waitFor s) then [BadWaitFor] else []) @
     map BadMetadataKey (filter (\<lambda>k. k = [] \<or> list_ex (\<lambda>c. c = CHR ''/'' \<or> ord c \<in> {32, 9, 10}) k) (map fst (vsp_metadata s))) @
     (if list_ex (\<lambda>key. list_ex (\<lambda>c. ord c \<in> {10, 13}) key) (vsp_sshAuthorizedKeys s) then [BadSSHKey] else [])"

definition Spec_validate :: "vm_spec \<Rightarrow> unit res" where
  "Spec_validate s = (if length (spec_problems s) > 0 then Inl ErrInvalid else Inr ())"

section \<open>Milestones\<close>

definition reached :: "string \<Rightarrow> vm \<Rightarrow> bool \<times> error option" where
  "reached w v =
     (if vm_st v = StateFailed then (True, Some ErrFailed)
      else if vm_st v \<in> {StateStopping, StateStopped, StateDeleting} then (True, Some ErrFailed)
      else if w = WaitInstalled then (vm_installedAt v \<noteq> None, None)
      else if w = WaitAttested then
        (vm_bootedAt v \<noteq> None \<and> atn_userDataReleased (vm_attestation v), None)
      else if w = WaitReady then (vm_readyAt v \<noteq> None, None)
      else (True, None))"

section \<open>Metrics\<close>

definition AttestationDisabled :: string where "AttestationDisabled = ''disabled''"
definition AttestationReleased :: string where "AttestationReleased = ''released''"
definition AttestationFailed :: string where "AttestationFailed = ''failed''"
definition AttestationPending :: string where "AttestationPending = ''pending''"

definition attestationState :: "attestation \<Rightarrow> string" where
  "attestationState a =
     (if \<not> atn_required a then AttestationDisabled
      else if atn_userDataReleased a then AttestationReleased
      else if (case atn_initrd a of None \<Rightarrow> False | Some q \<Rightarrow> \<not> vq_verified q) then AttestationFailed
      else AttestationPending)"

end
