(* ===== verification/QEMU_Notify.thy ===== *)
theory QEMU_Notify
  imports QEMU_Spec
begin

text \<open>
  Guest notifications, \<open>src/internal/runtime/qemu/notify.go\<close> and
  \<open>notify_persist.go\<close>: the sd_notify wire format, the listener that routes
  messages by the sending guest's context id, and the port that survives a
  restart.  Channels live in a store by address, because a subscriber keeps
  reading its channel after \<open>Unsubscribe\<close> has closed it.  Binding a vsock port
  and the file operations are arguments.
\<close>

section \<open>Messages\<close>

record notification =
  no_cid :: "32 word"
  no_port :: "32 word"
  no_fields :: "(string, string) gomap"

definition field_of :: "(string, string) gomap \<Rightarrow> string \<Rightarrow> string" where
  "field_of m k = (case map_of m k of None \<Rightarrow> [] | Some v \<Rightarrow> v)"

definition privilegedPorts :: "32 word" where "privilegedPorts = 1024"

definition Notification_Ready :: "notification \<Rightarrow> bool" where
  "Notification_Ready n \<longleftrightarrow> field_of (no_fields n) ''READY'' = ''1''"

definition Notification_Status :: "notification \<Rightarrow> string" where
  "Notification_Status n = field_of (no_fields n) ''STATUS''"

definition Notification_Privileged :: "notification \<Rightarrow> bool" where
  "Notification_Privileged n \<longleftrightarrow> no_port n < privilegedPorts"

definition parse_line :: "string \<Rightarrow> (string, string) gomap \<Rightarrow> (string, string) gomap" where
  "parse_line line m =
     (case Cut (CHR ''='') line of
        (key, val, ok) \<Rightarrow> if \<not> ok \<or> key = [] then m else AList.update key val m)"

definition ParseNotify :: "string \<Rightarrow> (string, string) gomap" where
  "ParseNotify data = fold parse_line (Split (CHR 0x0A) data) []"

section \<open>The listener\<close>

definition HostCID :: "32 word" where "HostCID = 2"
definition notifyMaxBytes :: nat where "notifyMaxBytes = 64 * 1024"
definition notifyBuffer :: nat where "notifyBuffer = 16"

record channel =
  ch_queue :: "notification list"
  ch_closed :: bool

record listener =
  nl_port :: "32 word"
  nl_chans :: "nat \<Rightarrow> channel option"
  nl_next :: nat
  nl_subs :: "(32 word, nat) gomap"
  nl_closed :: bool
  nl_dropped :: "64 word"

definition newNotifyListener :: "32 word \<Rightarrow> listener" where
  "newNotifyListener port =
     \<lparr>nl_port = port, nl_chans = (\<lambda>_. None), nl_next = 0, nl_subs = [], nl_closed = False, nl_dropped = 0\<rparr>"

definition Listener_Credential :: "listener \<Rightarrow> string" where
  "Listener_Credential l = ''vsock-stream:'' @ itoa_nat (unat HostCID) @ '':'' @ itoa_nat (unat (nl_port l))"

definition Subscribe :: "32 word \<Rightarrow> listener \<Rightarrow> nat \<times> listener" where
  "Subscribe cid l =
     (case map_of (nl_subs l) cid of
        Some ch \<Rightarrow> (ch, l)
      | None \<Rightarrow>
          let ch = nl_next l in
          (ch, l\<lparr>nl_chans := (nl_chans l)(ch := Some \<lparr>ch_queue = [], ch_closed = False\<rparr>), nl_next := Suc ch,
                 nl_subs := AList.update cid ch (nl_subs l)\<rparr>))"

definition close_chan :: "nat \<Rightarrow> listener \<Rightarrow> listener" where
  "close_chan ch l = l\<lparr>nl_chans := (nl_chans l)(ch := map_option (\<lambda>c. c\<lparr>ch_closed := True\<rparr>) (nl_chans l ch))\<rparr>"

definition Unsubscribe :: "32 word \<Rightarrow> listener \<Rightarrow> listener" where
  "Unsubscribe cid l =
     (case map_of (nl_subs l) cid of
        None \<Rightarrow> l
      | Some ch \<Rightarrow> close_chan ch (l\<lparr>nl_subs := AList.delete cid (nl_subs l)\<rparr>))"

text \<open>The two sections of \<open>Close\<close>, before and after the messages in flight.\<close>

definition Close_begin :: "listener \<Rightarrow> listener" where
  "Close_begin l = l\<lparr>nl_closed := True\<rparr>"

definition Close_end :: "listener \<Rightarrow> listener" where
  "Close_end l = fold (\<lambda>(cid, ch) l. close_chan ch (l\<lparr>nl_subs := AList.delete cid (nl_subs l)\<rparr>)) (nl_subs l) l"

definition deliver :: "notification \<Rightarrow> listener \<Rightarrow> listener" where
  "deliver n l =
     (case map_of (nl_subs l) (no_cid n) of
        None \<Rightarrow> l
      | Some ch \<Rightarrow>
          (case nl_chans l ch of
             None \<Rightarrow> l
           | Some c \<Rightarrow>
               if length (ch_queue c) < notifyBuffer
               then l\<lparr>nl_chans := (nl_chans l)(ch := Some (c\<lparr>ch_queue := ch_queue c @ [n]\<rparr>))\<rparr>
               else l\<lparr>nl_dropped := nl_dropped l + 1\<rparr>))"

text \<open>\<open>peer\<close> is the address of the connection; \<open>None\<close> for the data is a read that
  failed or ran into its deadline.\<close>

definition handle_conn :: "(32 word \<times> 32 word) option \<Rightarrow> string option \<Rightarrow> listener \<Rightarrow> listener" where
  "handle_conn peer data l =
     (case peer of
        None \<Rightarrow> l
      | Some (cid, port) \<Rightarrow>
          (case data of
             None \<Rightarrow> l
           | Some d \<Rightarrow>
               deliver \<lparr>no_cid = cid, no_port = port, no_fields = ParseNotify (take notifyMaxBytes d)\<rparr> l))"

text \<open>A receive on a channel: a queued message, or \<open>None\<close> once it is closed and
  empty; nothing is returned while it would block.\<close>

definition chan_recv :: "nat \<Rightarrow> listener \<Rightarrow> (notification option \<times> listener) option" where
  "chan_recv ch l =
     (case nl_chans l ch of
        None \<Rightarrow> None
      | Some c \<Rightarrow>
          (case ch_queue c of
             n # ns \<Rightarrow> Some (Some n, l\<lparr>nl_chans := (nl_chans l)(ch := Some (c\<lparr>ch_queue := ns\<rparr>))\<rparr>)
           | [] \<Rightarrow> if ch_closed c then Some (None, l) else None))"

section \<open>The recorded port\<close>

datatype file_read = FileMissing | FileError | FileData string

datatype listen_error = AddrInUse | ListenFailed

datatype port_error = ErrNotifyPortInUse | PortFile | PortWrite | PortListen listen_error

definition readNotifyPort :: "file_read \<Rightarrow> port_error + 32 word" where
  "readNotifyPort f =
     (case f of
        FileMissing \<Rightarrow> Inr 0
      | FileError \<Rightarrow> Inl PortFile
      | FileData d \<Rightarrow>
          (case parse_nat (TrimSpace d) of
             None \<Rightarrow> Inl PortFile
           | Some p \<Rightarrow> if p \<ge> 2 ^ 32 \<or> p = 0 then Inl PortFile else Inr (of_nat p)))"

definition notify_port_text :: "32 word \<Rightarrow> string" where
  "notify_port_text port = itoa_nat (unat port) @ [CHR 0x0A]"

definition writeNotifyPort :: "bool \<Rightarrow> bool \<Rightarrow> 32 word \<Rightarrow> file_read \<Rightarrow> (port_error + unit) \<times> file_read" where
  "writeNotifyPort written renamed port f =
     (if \<not> written then (Inl PortWrite, f)
      else if \<not> renamed then (Inl PortWrite, f)
      else (Inr (), FileData (notify_port_text port)))"

definition listenNotifyPersistent ::
  "(32 word \<Rightarrow> listen_error + listener) \<Rightarrow> bool \<Rightarrow> bool \<Rightarrow> 32 word \<Rightarrow> file_read \<Rightarrow> (port_error + listener) \<times> file_read" where
  "listenNotifyPersistent listen written renamed port f =
     (case (if port = 0 then map_sum id (\<lambda>p. (p, p \<noteq> 0)) (readNotifyPort f) else Inr (port, False)) of
        Inl e \<Rightarrow> (Inl e, f)
      | Inr (port', recorded) \<Rightarrow>
          (case listen port' of
             Inl e \<Rightarrow> (Inl (if recorded \<and> e = AddrInUse then ErrNotifyPortInUse else PortListen e), f)
           | Inr ln \<Rightarrow>
               (case writeNotifyPort written renamed (nl_port ln) f of
                  (Inl e, f') \<Rightarrow> (Inl e, f')
                | (Inr _, f') \<Rightarrow> (Inr ln, f'))))"

definition NotifyPortFile :: "string \<Rightarrow> string" where
  "NotifyPortFile stateDir = filepath_Join [stateDir, ''notify-port'']"

section \<open>Parsing\<close>

lemma map_of_parse_line:
  "map_of (parse_line line m) k =
     (if k \<noteq> [] \<and> CHR ''='' \<notin> set k \<and> prefix (k @ ''='') line then Some (drop (Suc (length k)) line) else map_of m k)"
proof (cases "CHR ''='' \<in> set line")
  case True
  then obtain a b where line: "line = a @ CHR ''='' # b" "CHR ''='' \<notin> set a" by (auto dest: split_list_first)
  have pre: "CHR ''='' \<notin> set k \<Longrightarrow> prefix (k @ ''='') line \<longleftrightarrow> k = a"
  proof
    assume k: "CHR ''='' \<notin> set k" and "prefix (k @ ''='') line"
    then obtain r where "a @ CHR ''='' # b = k @ CHR ''='' # r" by (auto simp: line prefix_def)
    with k line(2) show "k = a" by (auto simp: append_eq_append_conv2 append_eq_Cons_conv Cons_eq_append_conv)
  qed (simp add: line)
  have cut: "Cut (CHR ''='') line = (a, b, True)" using Cut_append line by blast
  show ?thesis
  proof (cases "k = a")
    case True
    with cut line show ?thesis by (simp add: parse_line_def)
  next
    case False
    with cut pre show ?thesis by (auto simp: parse_line_def)
  qed
next
  case False
  then have "\<not> prefix (k @ ''='') line" by (auto simp: prefix_def)
  with False show ?thesis by (simp add: parse_line_def Cut_missing)
qed

lemma fold_parse_line:
  assumes "k \<noteq> []" "CHR ''='' \<notin> set k"
  shows "map_of (fold parse_line lines m) k =
    (case List.find (prefix (k @ ''='')) (rev lines) of
       Some line \<Rightarrow> Some (drop (Suc (length k)) line)
     | None \<Rightarrow> map_of m k)"
  by (induction lines rule: rev_induct) (auto simp: map_of_parse_line assms)

text \<open>
  The value of a key in a parsed notification is what follows the equals
  sign in the last line of the message that assigns the key; lines without an
  equals sign or with an empty key assign nothing.
\<close>

theorem parse_notify_last:
  "map_of (ParseNotify data) k =
     (if k = [] \<or> CHR ''='' \<in> set k then None
      else map_option (drop (Suc (length k))) (List.find (prefix (k @ ''='')) (rev (Split (CHR 0x0A) data))))"
proof (cases "k = [] \<or> CHR ''='' \<in> set k")
  case True
  have "map_of (fold parse_line lines m) k = map_of m k" for lines m
    using True by (induction lines arbitrary: m) (auto simp: map_of_parse_line)
  with True show ?thesis by (simp add: ParseNotify_def)
next
  case False
  then show ?thesis by (auto simp: ParseNotify_def fold_parse_line split: option.splits)
qed

section \<open>Routing\<close>

datatype notify_event =
    Subscribed "32 word" nat
  | Unsubscribed "32 word"
  | Handled "(32 word \<times> 32 word) option" "string option"
  | Received nat "notification option"
  | ClosedBegin
  | ClosedEnd

inductive notify_step :: "listener \<Rightarrow> notify_event \<Rightarrow> listener \<Rightarrow> bool" where
  subscribe: "Subscribe cid l = (ch, l') \<Longrightarrow> notify_step l (Subscribed cid ch) l'"
| unsubscribe: "notify_step l (Unsubscribed cid) (Unsubscribe cid l)"
| handling: "notify_step l (Handled peer data) (handle_conn peer data l)"
| receive: "chan_recv ch l = Some (n, l') \<Longrightarrow> notify_step l (Received ch n) l'"
| close_begin: "notify_step l ClosedBegin (Close_begin l)"
| close_end: "nl_closed l \<Longrightarrow> notify_step l ClosedEnd (Close_end l)"

inductive_cases notify_stepE: "notify_step l e l'"

text \<open>\<open>own\<close> gives every channel the one context id it was made for.  Subscribed
  channels exist and are open, every queue is within its capacity and holds
  messages of its owner only.\<close>

fun event_ok :: "(nat \<Rightarrow> 32 word) \<Rightarrow> nat \<Rightarrow> notify_event \<Rightarrow> bool" where
  "event_ok own lim (Subscribed cid ch) \<longleftrightarrow> ch < lim \<and> own ch = cid"
| "event_ok own lim (Received ch n) \<longleftrightarrow> ch < lim \<and> (case n of None \<Rightarrow> True | Some m \<Rightarrow> no_cid m = own ch)"
| "event_ok own lim _ \<longleftrightarrow> True"

definition chan_ok :: "32 word \<Rightarrow> channel \<Rightarrow> bool" where
  "chan_ok cid c \<longleftrightarrow> length (ch_queue c) \<le> notifyBuffer \<and> list_all (\<lambda>n. no_cid n = cid) (ch_queue c)"

definition notify_inv :: "(nat \<Rightarrow> 32 word) \<Rightarrow> notify_event list \<Rightarrow> listener \<Rightarrow> bool" where
  "notify_inv own es l \<longleftrightarrow>
     list_all (event_ok own (nl_next l)) es \<and>
     (\<forall>cid ch. map_of (nl_subs l) cid = Some ch \<longrightarrow> own ch = cid \<and> (\<exists>c. nl_chans l ch = Some c \<and> \<not> ch_closed c)) \<and>
     (\<forall>ch c. nl_chans l ch = Some c \<longrightarrow> ch < nl_next l \<and> chan_ok (own ch) c)"

lemma fold_close:
  fixes xs :: "(32 word \<times> nat) list"
  defines "f \<equiv> \<lambda>(cid, ch) l. close_chan ch (l\<lparr>nl_subs := AList.delete cid (nl_subs l)\<rparr>)"
  shows "nl_next (fold f xs l) = nl_next l"
    and "map_of (nl_subs (fold f xs l)) cid = (if cid \<in> fst ` set xs then None else map_of (nl_subs l) cid)"
    and "nl_chans (fold f xs l) ch = Some c \<Longrightarrow> \<exists>c0. nl_chans l ch = Some c0 \<and> ch_queue c = ch_queue c0"
proof -
  show "nl_next (fold f xs l) = nl_next l"
    by (induction xs arbitrary: l) (auto simp: f_def close_chan_def)
  show "map_of (nl_subs (fold f xs l)) cid = (if cid \<in> fst ` set xs then None else map_of (nl_subs l) cid)"
    by (induction xs arbitrary: l) (auto simp: f_def close_chan_def)
  show "nl_chans (fold f xs l) ch = Some c \<Longrightarrow> \<exists>c0. nl_chans l ch = Some c0 \<and> ch_queue c = ch_queue c0"
  proof (induction xs arbitrary: l)
    case (Cons x xs)
    then have "\<exists>c0. nl_chans (f x l) ch = Some c0 \<and> ch_queue c = ch_queue c0" by simp
    then show ?case by (cases x) (auto simp: f_def close_chan_def split: if_splits)
  qed simp
qed

lemma Close_end_simps:
  "nl_next (Close_end l) = nl_next l"
  "map_of (nl_subs (Close_end l)) cid = None"
  "nl_chans (Close_end l) ch = Some c \<Longrightarrow> \<exists>c0. nl_chans l ch = Some c0 \<and> ch_queue c = ch_queue c0"
  using fold_close [of "nl_subs l" l]
  by (auto simp: Close_end_def map_of_eq_None_iff)

lemma event_ok_mono:
  assumes "event_ok own lim e" "lim \<le> lim'" "\<And>ch. ch < lim \<Longrightarrow> own' ch = own ch"
  shows "event_ok own' lim' e"
  using assms by (cases e) (auto split: option.splits)

lemma notify_inv_subscribe:
  assumes inv: "notify_inv own es l" and step: "Subscribe cid l = (ch, l')"
  shows "\<exists>own'. notify_inv own' (Subscribed cid ch # es) l'"
proof (cases "map_of (nl_subs l) cid")
  case None
  let ?own = "own(nl_next l := cid)"
  have l': "ch = nl_next l"
    "l' = l\<lparr>nl_chans := (nl_chans l)(ch := Some \<lparr>ch_queue = [], ch_closed = False\<rparr>), nl_next := Suc ch,
      nl_subs := AList.update cid ch (nl_subs l)\<rparr>"
    using None step by (auto simp: Subscribe_def Let_def)
  have "list_all (event_ok ?own (Suc (nl_next l))) es"
    using inv by (auto simp: notify_inv_def list_all_iff intro: event_ok_mono)
  moreover have "map_of (nl_subs l) k = Some d \<Longrightarrow> d \<noteq> nl_next l" for k d
    using inv by (fastforce simp: notify_inv_def)
  moreover have "nl_chans l d = Some c \<Longrightarrow> d \<noteq> nl_next l" for d c
    using inv by (fastforce simp: notify_inv_def)
  ultimately have "notify_inv ?own (Subscribed cid ch # es) l'"
    using inv by (auto simp: notify_inv_def l' chan_ok_def less_Suc_eq)
  then show ?thesis by blast
next
  case (Some d)
  with step have "ch = d" "l' = l" by (auto simp: Subscribe_def)
  with inv Some have "notify_inv own (Subscribed cid ch # es) l'" by (fastforce simp: notify_inv_def)
  then show ?thesis by blast
qed

lemma notify_inv_unsubscribe:
  assumes inv: "notify_inv own es l"
  shows "notify_inv own (Unsubscribed cid # es) (Unsubscribe cid l)"
proof (cases "map_of (nl_subs l) cid")
  case None
  with inv show ?thesis by (simp add: notify_inv_def Unsubscribe_def)
next
  case (Some ch)
  have other: "map_of (nl_subs l) k = Some ch \<Longrightarrow> k = cid" for k
    using inv Some unfolding notify_inv_def by metis
  have chans: "nl_chans (Unsubscribe cid l) d = Some c \<Longrightarrow>
      \<exists>c0. nl_chans l d = Some c0 \<and> ch_queue c = ch_queue c0 \<and> (d \<noteq> ch \<longrightarrow> c = c0)" for d c
    using Some by (auto simp: Unsubscribe_def close_chan_def split: if_splits)
  have same: "d \<noteq> ch \<Longrightarrow> nl_chans (Unsubscribe cid l) d = nl_chans l d" for d
    using Some by (simp add: Unsubscribe_def close_chan_def)
  have subs: "map_of (nl_subs (Unsubscribe cid l)) k = Some d \<longleftrightarrow> k \<noteq> cid \<and> map_of (nl_subs l) k = Some d" for k d
    using Some by (simp add: Unsubscribe_def close_chan_def)
  have top: "nl_next (Unsubscribe cid l) = nl_next l" using Some by (simp add: Unsubscribe_def close_chan_def)
  have open_subs: "own d = k \<and> (\<exists>c. nl_chans (Unsubscribe cid l) d = Some c \<and> \<not> ch_closed c)"
    if "map_of (nl_subs (Unsubscribe cid l)) k = Some d" for k d
  proof -
    from that have k: "k \<noteq> cid" "map_of (nl_subs l) k = Some d" by (simp_all add: subs)
    with other have "d \<noteq> ch" by blast
    with inv k(2) show ?thesis by (simp add: same notify_inv_def)
  qed
  moreover have "d < nl_next l \<and> chan_ok (own d) c" if "nl_chans (Unsubscribe cid l) d = Some c" for d c
    using inv chans [OF that] by (auto simp: notify_inv_def chan_ok_def)
  ultimately show ?thesis using inv by (simp add: notify_inv_def top)
qed

lemma notify_inv_deliver:
  assumes inv: "notify_inv own es l"
  shows "notify_inv own es (deliver n l)"
proof (cases "map_of (nl_subs l) (no_cid n)")
  case None
  with inv show ?thesis by (simp add: deliver_def)
next
  case (Some ch)
  with inv obtain c where c: "own ch = no_cid n" "nl_chans l ch = Some c" "\<not> ch_closed c" "chan_ok (own ch) c"
    unfolding notify_inv_def by blast
  then have "length (ch_queue c) < notifyBuffer \<Longrightarrow> chan_ok (own ch) (c\<lparr>ch_queue := ch_queue c @ [n]\<rparr>)"
    by (simp add: chan_ok_def)
  with inv Some c show ?thesis by (auto simp: notify_inv_def deliver_def)
qed

lemma notify_inv_receive:
  assumes inv: "notify_inv own es l" and recv: "chan_recv ch l = Some (n, l')"
  shows "notify_inv own (Received ch n # es) l'"
proof -
  obtain c where c: "nl_chans l ch = Some c" using recv by (auto simp: chan_recv_def split: option.splits)
  with inv have top: "ch < nl_next l" and ok: "chan_ok (own ch) c" unfolding notify_inv_def by blast+
  show ?thesis
  proof (cases "ch_queue c")
    case Nil
    with recv c have "l' = l" "n = None" by (auto simp: chan_recv_def split: if_splits)
    with inv top show ?thesis by (simp add: notify_inv_def)
  next
    case (Cons m ns)
    let ?c = "c\<lparr>ch_queue := ns\<rparr>"
    have l': "l' = l\<lparr>nl_chans := (nl_chans l)(ch := Some ?c)\<rparr>" "n = Some m"
      using recv c Cons by (simp_all add: chan_recv_def)
    have "chan_ok (own ch) ?c" "no_cid m = own ch" using ok Cons by (simp_all add: chan_ok_def)
    moreover have "own d = k \<and> (\<exists>c. nl_chans l' d = Some c \<and> \<not> ch_closed c)"
      if "map_of (nl_subs l) k = Some d" for k d
    proof -
      from inv that obtain c0 where "own d = k" "nl_chans l d = Some c0" "\<not> ch_closed c0"
        unfolding notify_inv_def by blast
      with c show ?thesis by (cases "d = ch") (simp_all add: l')
    qed
    ultimately show ?thesis using inv top by (simp add: notify_inv_def l')
  qed
qed

lemma notify_inv_step:
  assumes inv: "notify_inv own es l" and step: "notify_step l e l'"
  shows "\<exists>own'. notify_inv own' (e # es) l'"
  using step
proof (cases rule: notify_step.cases)
  case (subscribe cid ch)
  with inv show ?thesis by (auto intro: notify_inv_subscribe)
next
  case (unsubscribe cid)
  with inv show ?thesis by (auto intro: notify_inv_unsubscribe)
next
  case (handling peer data)
  have "notify_inv own es l'"
    using inv handling by (auto simp: handle_conn_def intro: notify_inv_deliver split: option.splits)
  with handling have "notify_inv own (e # es) l'" by (simp add: notify_inv_def)
  then show ?thesis by blast
next
  case (receive ch n)
  with inv show ?thesis by (auto intro: notify_inv_receive)
next
  case close_begin
  with inv have "notify_inv own (e # es) l'" by (simp add: notify_inv_def Close_begin_def)
  then show ?thesis by blast
next
  case close_end
  with inv have "notify_inv own (e # es) l'"
    by (auto simp: notify_inv_def Close_end_simps(1,2) chan_ok_def dest!: Close_end_simps(3))
  then show ?thesis by blast
qed

definition notify_run :: "32 word \<Rightarrow> notify_event list \<Rightarrow> listener \<Rightarrow> bool" where
  "notify_run port = reachable (\<lambda>l. l = newNotifyListener port) notify_step"

lemma notify_run_inv:
  assumes "notify_run port es l"
  shows "\<exists>own. notify_inv own es l"
  using assms unfolding notify_run_def
proof (rule reachable_invariant)
  show "\<exists>own. notify_inv own [] s" if "s = newNotifyListener port" for s
    using that by (simp add: notify_inv_def newNotifyListener_def)
qed (blast intro: notify_inv_step)

text \<open>
  C36. In every interleaving of subscriptions, incoming connections, receives
  and a shutdown, a subscriber of a context id only ever reads messages that
  came from that context id, no channel holds more than its capacity, and the
  channel of a subscription is open, so a delivery never sends on a closed
  channel and no channel is closed twice.
\<close>

theorem notify_routing:
  assumes "notify_run port es l"
  shows "(Subscribed cid ch \<in> set es \<and> Received ch (Some n) \<in> set es \<longrightarrow> no_cid n = cid) \<and>
    (nl_chans l ch = Some c \<longrightarrow> length (ch_queue c) \<le> notifyBuffer) \<and>
    (map_of (nl_subs l) cid = Some ch \<longrightarrow> (\<exists>c. nl_chans l ch = Some c \<and> \<not> ch_closed c))"
proof -
  obtain own where inv: "notify_inv own es l" using notify_run_inv [OF assms] by blast
  then have ok: "e \<in> set es \<Longrightarrow> event_ok own (nl_next l) e" for e by (simp add: notify_inv_def list_all_iff)
  have "no_cid n = cid" if "Subscribed cid ch \<in> set es" "Received ch (Some n) \<in> set es"
    using ok [OF that(1)] ok [OF that(2)] by simp
  moreover have "length (ch_queue c) \<le> notifyBuffer" if "nl_chans l ch = Some c"
    using inv that by (auto simp: notify_inv_def chan_ok_def)
  moreover have "\<exists>c. nl_chans l ch = Some c \<and> \<not> ch_closed c" if "map_of (nl_subs l) cid = Some ch"
    using inv that by (auto simp: notify_inv_def)
  ultimately show ?thesis by blast
qed

section \<open>The port survives a restart\<close>

lemma readNotifyPort_text:
  assumes "port \<noteq> 0"
  shows "readNotifyPort (FileData (notify_port_text port)) = Inr port"
proof -
  let ?w = "itoa_nat (unat port)"
  have "?w \<noteq> []" "is_digit (hd ?w)" "is_digit (last ?w)"
    using itoa_nat_digits [of "unat port"] by (auto simp: list_all_iff)
  then have "TrimSpace (notify_port_text port) = ?w"
    unfolding notify_port_text_def by (rule TrimSpace_line)
  moreover have "unat port < 2 ^ 32" "unat port \<noteq> 0"
    using assms unsigned_less [of port, where ?'a = nat] by (auto simp: unat_eq_0)
  ultimately show ?thesis by (simp add: readNotifyPort_def)
qed

text \<open>
  A vm-manager that listened successfully finds its port again: the next
  start without a configured port asks for exactly the port the first one was
  bound to, so guests that carry it in a credential still reach it; when another
  process holds the port, the start fails with the in-use error instead of
  moving to another port.
\<close>

theorem notify_port_restart:
  assumes first: "listenNotifyPersistent listen written renamed port f = (Inr ln, f')"
    and bound: "nl_port ln \<noteq> 0"
  shows "listenNotifyPersistent listen' True True 0 f' =
    (case listen' (nl_port ln) of
       Inl e \<Rightarrow> (Inl (if e = AddrInUse then ErrNotifyPortInUse else PortListen e), f')
     | Inr ln' \<Rightarrow> (Inr ln', FileData (notify_port_text (nl_port ln'))))"
proof -
  have "f' = FileData (notify_port_text (nl_port ln))"
    using first by (auto simp: listenNotifyPersistent_def writeNotifyPort_def split: sum.splits prod.splits if_splits)
  with bound show ?thesis
    by (auto simp: listenNotifyPersistent_def writeNotifyPort_def readNotifyPort_text split: sum.splits)
qed

theorem notify_port_restart_witness:
  "listenNotifyPersistent (\<lambda>p. Inl AddrInUse) True True 0 (FileData (notify_port_text 4711)) =
     (Inl ErrNotifyPortInUse, FileData (notify_port_text 4711))"
  using notify_port_restart [of "\<lambda>p. Inr (newNotifyListener 4711)" True True 0 FileMissing "newNotifyListener 4711"
      "FileData (notify_port_text 4711)" "\<lambda>p. Inl AddrInUse"]
  by (simp add: listenNotifyPersistent_def writeNotifyPort_def readNotifyPort_def newNotifyListener_def)

theorem notify_routing_witness:
  "\<exists>es l n. notify_run 4711 es l \<and> Received 0 (Some n) \<in> set es \<and> no_cid n = 3"
proof -
  let ?l0 = "newNotifyListener 4711"
  let ?n = "\<lparr>no_cid = 3, no_port = 1, no_fields = ParseNotify ''READY=1''\<rparr>"
  define l1 where "l1 = snd (Subscribe 3 ?l0)"
  define l2 where "l2 = handle_conn (Some (3, 1)) (Some ''READY=1'') l1"
  define l3 where "l3 = snd (the (chan_recv 0 l2))"
  note defs = l1_def l2_def l3_def Subscribe_def newNotifyListener_def handle_conn_def deliver_def chan_recv_def
    notifyBuffer_def notifyMaxBytes_def Let_def
  have "reachable (\<lambda>l. l = ?l0) notify_step [] ?l0" by (rule reach_init) simp
  moreover have "notify_step ?l0 (Subscribed 3 0) l1" by (rule notify_step.subscribe) (simp add: defs)
  ultimately have r1: "reachable (\<lambda>l. l = ?l0) notify_step [Subscribed 3 0] l1" by (rule reach_step)
  have "notify_step l1 (Handled (Some (3, 1)) (Some ''READY=1'')) l2"
    unfolding l2_def by (rule notify_step.handling)
  with r1 have r2: "reachable (\<lambda>l. l = ?l0) notify_step [Handled (Some (3, 1)) (Some ''READY=1''), Subscribed 3 0] l2"
    by (rule reach_step)
  have "notify_step l2 (Received 0 (Some ?n)) l3" by (rule notify_step.receive) (simp add: defs)
  with r2 have run: "notify_run 4711 [Received 0 (Some ?n), Handled (Some (3, 1)) (Some ''READY=1''), Subscribed 3 0] l3"
    unfolding notify_run_def by (rule reach_step)
  have "no_cid ?n = 3" using notify_routing [OF run, of 3 0 ?n] by simp
  with run show ?thesis by (intro exI conjI) (assumption | simp)+
qed

end
