(* ===== verification/VM_Service.thy ===== *)
theory VM_Service
  imports VM_Types QEMU_Notify
begin

text \<open>
  The VM service, \<open>src/internal/vm\<close> (\<open>service.go\<close>, \<open>lifecycle.go\<close>,
  \<open>reattach.go\<close>, \<open>persist.go\<close>, \<open>imds.go\<close>).  Each definition is a function of
  the code or one of its sections under the service lock; the sections of all
  running operations interleave in \<open>VM_Lifecycle\<close>.  Entries live in a store by
  address, because an operation keeps its entry after the map \<open>vms\<close> has dropped
  it.  Clock readings, random bytes and the outcomes of calls to the host
  (files, storage, swtpm, QEMU) are arguments.
\<close>

section \<open>State\<close>

record volume =
  vo_name :: string
  vo_path :: string
  vo_sizeBytes :: int

text \<open>\<open>pr_notify\<close> is the channel the supervisor reads, an address of the
  notification listener's store.\<close>

record process =
  pr_phase :: phase
  pr_handles :: processes
  pr_notify :: "nat option"
  pr_timedOut :: bool

text \<open>The holder of an entry's \<open>opMu\<close>, with how far it is.\<close>

datatype opmu =
    OpFree
  | OpLaunch
  | OpProvisioned
  | OpDiscard
  | OpStart
  | OpBoot
  | OpDelete
  | OpTorn
  | OpClose

text \<open>\<open>en_pending\<close> marks an entry \<open>Create\<close> has allocated and not yet locked,
  \<open>en_handoff\<close> an installer's supervisor on its way into \<open>boot\<close>.\<close>

record entry =
  en_rec :: vm
  en_userData :: bytes
  en_report :: bytes
  en_volume :: "volume option"
  en_forwards :: "string list"
  en_proc :: "process option"
  en_op :: opmu
  en_pending :: bool
  en_handoff :: bool

record svc_opts =
  op_stateDir :: string
  op_region :: string
  op_ovmfCode :: string
  op_ovmfVarsTemplate :: string
  op_installTimeout :: duration
  op_bootTimeout :: duration
  op_stopTimeout :: duration
  op_detachOnClose :: bool

record service =
  sv_opts :: svc_opts
  sv_heap :: "nat \<Rightarrow> entry option"
  sv_next :: nat
  sv_vms :: "(string, nat) gomap"
  sv_nets :: manager
  sv_imds :: "string list"
  sv_disk :: "string \<Rightarrow> vm option"
  sv_netDisk :: "net_state list option"
  sv_changed :: nat
  sv_closing :: bool
  sv_cancelled :: bool
  sv_toStop :: "nat list"
  sv_notify :: listener

text \<open>\<open>sv_toStop\<close> are the entries a \<open>Close\<close> in progress still has to visit or wait
  for.  What a step reads from its surroundings: the clock, whether the record can
  be written, and the console file.\<close>

record env =
  ev_now :: timestamp
  ev_write :: bool
  ev_console :: "string option"

section \<open>Options\<close>

definition DefaultOVMFCode :: string where "DefaultOVMFCode = ''/usr/share/edk2/x64/OVMF_CODE.4m.fd''"
definition DefaultOVMFVarsTemplate :: string where
  "DefaultOVMFVarsTemplate = ''/usr/share/edk2/x64/OVMF_VARS.4m.fd''"
definition DefaultInstallTimeout :: duration where "DefaultInstallTimeout = 5 * 60 * 10 ^ 9"
definition DefaultBootTimeout :: duration where "DefaultBootTimeout = 4 * 60 * 10 ^ 9"
definition DefaultStopTimeout :: duration where "DefaultStopTimeout = 30 * 10 ^ 9"

definition ovmfCandidates :: "(string \<times> string) list" where
  "ovmfCandidates =
     [(DefaultOVMFCode, DefaultOVMFVarsTemplate),
      (''/usr/share/OVMF/OVMF_CODE_4M.fd'', ''/usr/share/OVMF/OVMF_VARS_4M.fd''),
      (''/usr/share/OVMF/OVMF_CODE.fd'', ''/usr/share/OVMF/OVMF_VARS.fd''),
      (''/usr/share/edk2/ovmf/OVMF_CODE.fd'', ''/usr/share/edk2/ovmf/OVMF_VARS.fd'')]"

text \<open>\<open>fileExists\<close> is true of regular files only.\<close>

datatype file_kind = NoFile | RegularFile | Directory

definition fileExists :: "(string \<Rightarrow> file_kind) \<Rightarrow> string \<Rightarrow> bool" where
  "fileExists fs path \<longleftrightarrow> fs path = RegularFile"

definition FindOVMF :: "(string \<Rightarrow> file_kind) \<Rightarrow> string \<times> string" where
  "FindOVMF fs =
     (case List.find (\<lambda>(c, v). fileExists fs c \<and> fileExists fs v) ovmfCandidates of
        Some p \<Rightarrow> p
      | None \<Rightarrow> (DefaultOVMFCode, DefaultOVMFVarsTemplate))"

text \<open>\<open>given\<close> are the names of the dependencies that are set.\<close>

definition Options_defaults :: "(string \<Rightarrow> file_kind) \<Rightarrow> string \<Rightarrow> string list \<Rightarrow> svc_opts \<Rightarrow> svc_opts res" where
  "Options_defaults fs host given o' =
     (let missing =
            (if op_stateDir o' = [] then [''StateDir''] else []) @
            filter (\<lambda>n. n \<notin> set given) [''Images'', ''Storage'', ''TPM'', ''Runtime'', ''Networks'', ''Notify'']
      in if length missing > 0 then Inl (ErrOther ''vm: options missing'')
      else
        let ovmf = FindOVMF fs in
        Inr (o'\<lparr>op_ovmfCode := (if op_ovmfCode o' = [] then fst ovmf else op_ovmfCode o'),
                op_ovmfVarsTemplate := (if op_ovmfVarsTemplate o' = [] then snd ovmf else op_ovmfVarsTemplate o'),
                op_region := (if op_region o' = [] then host else op_region o'),
                op_installTimeout := (if op_installTimeout o' \<le> 0 then DefaultInstallTimeout else op_installTimeout o'),
                op_bootTimeout := (if op_bootTimeout o' \<le> 0 then DefaultBootTimeout else op_bootTimeout o'),
                op_stopTimeout := (if op_stopTimeout o' \<le> 0 then DefaultStopTimeout else op_stopTimeout o')\<rparr>))"

definition vmsDir :: string where "vmsDir = ''vms''"
definition recordFile :: string where "recordFile = ''vm.json''"
definition consoleFile :: string where "consoleFile = ''console.log''"
definition tpmDir :: string where "tpmDir = ''tpm''"
definition ovmfVarsFile :: string where "ovmfVarsFile = ''ovmf_vars.fd''"
definition qmpFile :: string where "qmpFile = ''qmp.sock''"
definition qemuLogFile :: string where "qemuLogFile = ''qemu.log''"
definition sshKeyFile :: string where "sshKeyFile = ''ssh_key''"
definition userDataFile :: string where "userDataFile = ''user-data''"
definition reportFile :: string where "reportFile = ''report.json''"
definition volumePrefix :: string where "volumePrefix = ''vm-''"

definition vmDir :: "service \<Rightarrow> string \<Rightarrow> string" where
  "vmDir s i = filepath_Join [op_stateDir (sv_opts s), vmsDir, i]"

definition service_paths :: "service \<Rightarrow> string \<Rightarrow> vm_paths_rec" where
  "service_paths s i =
     (let dir = vmDir s i in
      \<lparr>pa_dir = dir, pa_volume = [], pa_console = filepath_Join [dir, consoleFile],
       pa_tpmState = filepath_Join [dir, tpmDir], pa_ovmfVars = filepath_Join [dir, ovmfVarsFile],
       pa_qmpSocket = filepath_Join [dir, qmpFile], pa_sshKey = filepath_Join [dir, sshKeyFile],
       pa_userData = filepath_Join [dir, userDataFile], pa_report = filepath_Join [dir, reportFile],
       pa_qemuLog = filepath_Join [dir, qemuLogFile]\<rparr>)"

definition volumeName :: "string \<Rightarrow> string" where "volumeName i = volumePrefix @ i"

definition Service_New :: "svc_opts \<Rightarrow> manager \<Rightarrow> listener \<Rightarrow> service" where
  "Service_New opts nets notify =
     \<lparr>sv_opts = opts, sv_heap = (\<lambda>_. None), sv_next = 0, sv_vms = [], sv_nets = nets, sv_imds = [],
      sv_disk = (\<lambda>_. None), sv_netDisk = None, sv_changed = 0, sv_closing = False, sv_cancelled = False, sv_toStop = [], sv_notify = notify\<rparr>"

section \<open>Access and persistence\<close>

definition put_entry :: "nat \<Rightarrow> entry \<Rightarrow> service \<Rightarrow> service" where
  "put_entry a e s = s\<lparr>sv_heap := (sv_heap s)(a := Some e)\<rparr>"

definition lookup :: "service \<Rightarrow> string \<Rightarrow> nat res" where
  "lookup s i = (case map_of (sv_vms s) i of None \<Rightarrow> Inl ErrNotFound | Some a \<Rightarrow> Inr a)"

definition persist :: "env \<Rightarrow> entry \<Rightarrow> service \<Rightarrow> unit res \<times> service" where
  "persist v e s =
     (if ev_write v then (Inr (), s\<lparr>sv_disk := (sv_disk s)(vm_id (en_rec e) := Some (en_rec e))\<rparr>)
      else (Inl (ErrOther ''persist vm''), s))"

definition save :: "env \<Rightarrow> entry \<Rightarrow> service \<Rightarrow> service" where
  "save v e s = snd (persist v e s)"

definition broadcastLocked :: "service \<Rightarrow> service" where
  "broadcastLocked s = s\<lparr>sv_changed := Suc (sv_changed s)\<rparr>"

definition persistNetworks :: "bool \<Rightarrow> service \<Rightarrow> unit res \<times> service" where
  "persistNetworks ok s =
     (if ok then (Inr (), s\<lparr>sv_netDisk := Some (Manager_States (sv_nets s))\<rparr>)
      else (Inl (ErrOther ''persist networks''), s))"

text \<open>A section that changes an entry, saves its record and wakes the waiters.\<close>

definition commit :: "env \<Rightarrow> nat \<Rightarrow> entry \<Rightarrow> service \<Rightarrow> service" where
  "commit v a e s = broadcastLocked (save v e (put_entry a e s))"

definition Service_Get :: "service \<Rightarrow> string \<Rightarrow> vm res" where
  "Service_Get s i =
     bindE (lookup s i) (\<lambda>a. case sv_heap s a of None \<Rightarrow> Inl ErrNotFound | Some e \<Rightarrow> Inr (clone (en_rec e)))"

definition Service_Attestation :: "service \<Rightarrow> string \<Rightarrow> attestation res" where
  "Service_Attestation s i = bindE (Service_Get s i) (\<lambda>v. Inr (vm_attestation v))"

definition Service_Report :: "service \<Rightarrow> string \<Rightarrow> bytes res" where
  "Service_Report s i =
     bindE (lookup s i) (\<lambda>a. case sv_heap s a of None \<Rightarrow> Inl ErrNotFound | Some e \<Rightarrow> Inr (en_report e))"

definition entries :: "service \<Rightarrow> entry list" where
  "entries s = List.map_filter (\<lambda>(i, a). sv_heap s a) (sv_vms s)"

text \<open>\<open>List\<close>: by creation time, then id; the order is total on distinct ids, so the
  sort of the library and a stable one agree.\<close>

definition vm_before :: "vm \<Rightarrow> vm \<Rightarrow> bool" where
  "vm_before x y =
     (if vm_createdAt x \<noteq> vm_createdAt y then vm_createdAt x < vm_createdAt y
      else vm_id x \<noteq> vm_id y \<and> str_le (vm_id x) (vm_id y))"

definition Service_List :: "service \<Rightarrow> vm list" where
  "Service_List s = insertion_sort vm_before (map (\<lambda>e. clone (en_rec e)) (entries s))"

section \<open>Creating a VM\<close>

definition applyDefaults :: "service \<Rightarrow> vm_spec \<Rightarrow> vm_spec" where
  "applyDefaults s sp =
     sp\<lparr>vsp_hostname := (if vsp_hostname sp = [] then vsp_name sp else vsp_hostname sp),
        vsp_region := (if vsp_region sp = [] then op_region (sv_opts s) else vsp_region sp),
        vsp_zone := (if vsp_zone sp = [] then vsp_network sp else vsp_zone sp),
        vsp_waitFor := (if vsp_waitFor sp = [] then WaitNone else vsp_waitFor sp)\<rparr>"

definition resolveImage :: "catalog \<Rightarrow> vm_spec \<Rightarrow> (image \<times> vm_spec) res" where
  "resolveImage cat sp =
     (case (if vsp_image sp = [] then Catalog_Default cat else Catalog_Get cat (vsp_image sp)) of
        Inl _ \<Rightarrow> Inl ErrInvalid
      | Inr img \<Rightarrow>
          let sp' = sp\<lparr>vsp_image := Image_Ref img\<rparr> in
          if vsp_kubernetesVersion sp = [] \<and> length (im_kubernetesVersions img) > 0
            then Inr (img, sp'\<lparr>vsp_kubernetesVersion := hd (im_kubernetesVersions img)\<rparr>)
          else if vsp_kubernetesVersion sp \<noteq> [] \<and> \<not> HasKubernetesVersion img (vsp_kubernetesVersion sp)
            then Inl ErrInvalid
          else Inr (img, sp'))"

definition cidSpread :: "32 word" where "cidSpread = 2 ^ 20"
definition maxCIDRetries :: nat where "maxCIDRetries = 16"

definition cidBase :: "service \<Rightarrow> 32 word" where
  "cidBase s = MinCID + fnv32a (op_stateDir (sv_opts s)) mod cidSpread"

definition used_cids :: "service \<Rightarrow> 32 word list" where
  "used_cids s = map (\<lambda>e. vm_cid (en_rec e)) (entries s)"

definition cid_span :: nat where "cid_span = unat (MaxCID - MinCID)"

text \<open>The scan of \<open>freeCIDFrom\<close>; its counter and sums stay far below 64 bits.\<close>

function cid_scan :: "32 word list \<Rightarrow> 32 word \<Rightarrow> nat \<Rightarrow> 32 word" where
  "cid_scan used start i =
     (if i < cid_span then
        let cid = MinCID + of_nat ((unat (start - MinCID) + i) mod cid_span)
        in if cid \<notin> set used then cid else cid_scan used start (Suc i)
      else MaxCID)"
  by pat_completeness auto

termination
  by (relation "measure (\<lambda>(used, start, i). cid_span - i)") auto

declare cid_scan.simps [simp del]

definition freeCIDFrom :: "32 word \<Rightarrow> service \<Rightarrow> 32 word" where
  "freeCIDFrom start s =
     cid_scan (used_cids s) (if start < MinCID \<or> start \<ge> MaxCID then MinCID else start) 0"

definition freeCID :: "service \<Rightarrow> 32 word" where
  "freeCID s = freeCIDFrom (cidBase s) s"

definition randomHex :: "bytes option \<Rightarrow> string res" where
  "randomHex b = (case b of None \<Rightarrow> Inl (ErrOther ''random id'') | Some bs \<Rightarrow> Inr (hex_EncodeToString bs))"

text \<open>\<open>newID\<close> draws until an id is free; \<open>None\<close> when the given draws run out.\<close>

fun newID :: "(string \<Rightarrow> file_kind) \<Rightarrow> bytes option list \<Rightarrow> service \<Rightarrow> string res option" where
  "newID fs [] s = None"
| "newID fs (b # bs) s =
     (case randomHex b of
        Inl e \<Rightarrow> Some (Inl e)
      | Inr i \<Rightarrow>
          if map_of (sv_vms s) i = None \<and> \<not> fileExists fs (vmDir s i) then Some (Inr i) else newID fs bs s)"

definition new_attestation :: "bool \<Rightarrow> bool \<Rightarrow> attestation" where
  "new_attestation required released =
     \<lparr>atn_required = required, atn_userDataReleased = released, atn_nonceIssuedAt = None, atn_initrd = None, atn_ready = None\<rparr>"

definition new_entry :: "service \<Rightarrow> timestamp \<Rightarrow> string \<Rightarrow> string \<Rightarrow> vm_spec \<Rightarrow> entry" where
  "new_entry s now i machineID sp =
     \<lparr>en_rec =
        \<lparr>vm_id = i, vm_spec' = sp\<lparr>vsp_userData := [], vsp_waitFor := []\<rparr>, vm_st = StateCreating, vm_phase = PhaseUnset,
         vm_ip = [], vm_mac = [], vm_cid = freeCID s, vm_machineID = machineID, vm_booted = False, vm_status = [],
         vm_sshPublicKey = [], vm_attestation = new_attestation (vsp_requireAttestation sp) False,
         vm_createdAt = now, vm_installedAt = None, vm_bootedAt = None, vm_readyAt = None, vm_lastError = NoteNone,
         vm_processes = None, vm_paths = service_paths s i\<rparr>,
      en_userData = vsp_userData sp, en_report = [], en_volume = None, en_forwards = [], en_proc = None,
      en_op = OpFree, en_pending = True, en_handoff = False\<rparr>"

text \<open>The draws of the id, the bytes of the machine id and the outcome of creating
  the directory are arguments; \<open>None\<close> is a \<open>newID\<close> that is still drawing.\<close>

definition allocate ::
  "env \<Rightarrow> (string \<Rightarrow> file_kind) \<Rightarrow> bytes option list \<Rightarrow> bytes option \<Rightarrow> bool \<Rightarrow> vm_spec \<Rightarrow> service \<Rightarrow>
   (nat res \<times> service) option" where
  "allocate v fs draws machine mkdir sp s =
     (if sv_closing s then Some (Inl ErrConflict, s)
      else if list_ex (\<lambda>e. vm_name (en_rec e) = vsp_name sp) (entries s) then Some (Inl ErrConflict, s)
      else (case newID fs draws s of
         None \<Rightarrow> None
       | Some (Inl e) \<Rightarrow> Some (Inl e, s)
       | Some (Inr i) \<Rightarrow>
           (case randomHex machine of
              Inl e \<Rightarrow> Some (Inl e, s)
            | Inr m \<Rightarrow>
                let e = new_entry s (ev_now v) i m sp in
                if \<not> mkdir then Some (Inl (ErrOther ''create vm dir''), s)
                else (case persist v e s of
                   (Inl er, s') \<Rightarrow> Some (Inl er, s'\<lparr>sv_disk := (sv_disk s')(i := None)\<rparr>)
                 | (Inr _, s') \<Rightarrow>
                     Some (Inr (sv_next s'),
                       (put_entry (sv_next s') e s')\<lparr>sv_next := Suc (sv_next s'),
                          sv_vms := AList.update i (sv_next s') (sv_vms s')\<rparr>)))))"

definition reassignCID :: "env \<Rightarrow> nat \<Rightarrow> 32 word \<Rightarrow> service \<Rightarrow> 32 word res \<times> service" where
  "reassignCID v a prev s =
     (case sv_heap s a of
        None \<Rightarrow> (Inl ErrNotFound, s)
      | Some e \<Rightarrow>
          let new = freeCIDFrom (prev + 1) s;
              e' = e\<lparr>en_rec := (en_rec e)\<lparr>vm_cid := new\<rparr>\<rparr>
          in (case persist v e' (put_entry a e' s) of (Inl er, s') \<Rightarrow> (Inl er, s') | (Inr _, s') \<Rightarrow> (Inr new, s')))"

definition isCIDInUse :: "string \<Rightarrow> bool" where
  "isCIDInUse msg \<longleftrightarrow> Contains msg ''unable to set guest cid'' \<or> (Contains msg ''guest-cid'' \<and> Contains msg ''in use'')"

section \<open>Networks of the manager\<close>

definition with_network :: "string \<Rightarrow> (network \<Rightarrow> 'r \<times> network) \<Rightarrow> service \<Rightarrow> ('r res) \<times> service" where
  "with_network name f s =
     (case map_of (mg_nets (sv_nets s)) name of
        None \<Rightarrow> (Inl ErrNotFound, s)
      | Some n \<Rightarrow>
          (case f n of (r, n') \<Rightarrow>
             (Inr r, s\<lparr>sv_nets := (sv_nets s)\<lparr>mg_nets := AList.update name n' (mg_nets (sv_nets s))\<rparr>\<rparr>)))"

text \<open>\<open>nw.Attach\<close>; a network that went away between \<open>Get\<close> and the call is closed
  and answers with an error.\<close>

definition svc_attach :: "error option \<Rightarrow> string \<Rightarrow> string \<Rightarrow> service \<Rightarrow> attachment res \<times> service" where
  "svc_attach ctxErr name i s =
     (case with_network name (Network_Attach ctxErr i) s of
        (Inl e, s') \<Rightarrow> (Inl e, s')
      | (Inr r, s') \<Rightarrow> (r, s'))"

definition svc_detach :: "string \<Rightarrow> string \<Rightarrow> service \<Rightarrow> service" where
  "svc_detach name i s = snd (with_network name (Network_Detach i) s)"

section \<open>Provisioning and teardown\<close>

record prov_io =
  pv_key :: "string res"
  pv_userData :: "unit res"
  pv_ovmf :: "unit res"
  pv_volume :: "volume res"
  pv_attach :: "error option"
  pv_netWrite :: bool

definition provision :: "env \<Rightarrow> prov_io \<Rightarrow> nat \<Rightarrow> service \<Rightarrow> unit res \<times> service" where
  "provision v io a s =
     (case sv_heap s a of
        None \<Rightarrow> (Inl ErrNotFound, s)
      | Some e \<Rightarrow>
          (case pv_key io of
             Inl er \<Rightarrow> (Inl er, s)
           | Inr pub \<Rightarrow>
               if length (en_userData e) > 0 \<and> pv_userData io \<noteq> Inr () then (Inl (ErrOther ''write user-data''), s)
               else if pv_ovmf io \<noteq> Inr () then (Inl (ErrOther ''copy OVMF variable store''), s)
               else (case pv_volume io of
                  Inl er \<Rightarrow> (Inl er, s)
                | Inr vol \<Rightarrow>
                    let rec1 = (en_rec e)\<lparr>vm_paths := (vm_paths (en_rec e))\<lparr>pa_volume := vo_path vol\<rparr>, vm_sshPublicKey := pub\<rparr>;
                        e1 = e\<lparr>en_volume := Some vol, en_rec := rec1\<rparr>;
                        s1 = put_entry a e1 s
                    in (case svc_attach (pv_attach io) (vm_network rec1) (vm_id rec1) s1 of
                          (Inl er, s2) \<Rightarrow> (Inl er, s2)
                        | (Inr att, s2) \<Rightarrow>
                            let e2 = e1\<lparr>en_rec := rec1\<lparr>vm_ip := Addr_String (at_ip att), vm_mac := at_mac att\<rparr>\<rparr>
                            in persistNetworks (pv_netWrite io) (save v e2 (put_entry a e2 s2))))))"

text \<open>The errors of closing the forwards and of releasing and deleting the volume are
  only logged; \<open>removed\<close> says whether the directory went away.\<close>

definition teardown :: "bool \<Rightarrow> nat \<Rightarrow> service \<Rightarrow> service" where
  "teardown removed a s =
     (case sv_heap s a of
        None \<Rightarrow> s
      | Some e \<Rightarrow>
          let s1 = put_entry a (e\<lparr>en_forwards := [], en_volume := None\<rparr>) s;
              s2 = svc_detach (vm_network (en_rec e)) (vm_id (en_rec e)) s1
          in if removed then s2\<lparr>sv_disk := (sv_disk s2)(vm_id (en_rec e) := None)\<rparr> else s2)"

text \<open>The end of \<open>discard\<close> and of \<open>Delete\<close>.\<close>

definition drop_entry :: "bool \<Rightarrow> string \<Rightarrow> service \<Rightarrow> unit res \<times> service" where
  "drop_entry netWrite i s =
     persistNetworks netWrite (broadcastLocked (s\<lparr>sv_vms := AList.delete i (sv_vms s)\<rparr>))"

definition discard :: "bool \<Rightarrow> bool \<Rightarrow> nat \<Rightarrow> service \<Rightarrow> service" where
  "discard removed netWrite a s =
     (case sv_heap s a of
        None \<Rightarrow> s
      | Some e \<Rightarrow> snd (drop_entry netWrite (vm_id (en_rec e)) (teardown removed a s)))"

section \<open>Starting a process\<close>

definition vm_netdevID :: string where "vm_netdevID = ''net0''"
definition firstBootCmdline :: string where "firstBootCmdline = ''ignition.firstboot''"
definition LogName :: string where "LogName = ''swtpm.log''"

record tpm_config =
  tc_id :: string
  tc_stateDir :: string
  tc_log :: string

definition tpmConfig :: "vm \<Rightarrow> tpm_config" where
  "tpmConfig v = \<lparr>tc_id = vm_id v, tc_stateDir = pa_tpmState (vm_paths v),
     tc_log = filepath_Join [pa_tpmState (vm_paths v), LogName]\<rparr>"

definition authorizedKeys :: "vm \<Rightarrow> string" where
  "authorizedKeys v = Join [CHR 0x0A] (vm_sshPublicKey v # vsp_sshAuthorizedKeys (vm_spec' v)) @ [CHR 0x0A]"

definition qemuSpec :: "service \<Rightarrow> vm \<Rightarrow> phase \<Rightarrow> image option \<Rightarrow> string \<Rightarrow> string \<Rightarrow> string \<Rightarrow> qemu_spec" where
  "qemuSpec s v ph img netSocket mac tpmSocket =
     (let creds =
            [(CredentialNotifySocket, Listener_Credential (sv_notify s)),
             (CredentialMachineID, vm_machineID v),
             (CredentialHostname, vsp_hostname (vm_spec' v)),
             (CredentialSSHAuthorizedKeysRoot, authorizedKeys v)];
          spec =
            \<lparr>qs_id = vm_id v, qs_phase = ph, qs_cpus = vsp_cpus (vm_spec' v), qs_memoryMiB = vsp_memoryMiB (vm_spec' v),
             qs_uki = [], qs_installer = [], qs_target = pa_volume (vm_paths v), qs_extraDrives = [],
             qs_netdevs =
               [\<lparr>nd_id = vm_netdevID,
                 nd_backend = ''stream,addr.type=unix,addr.path='' @ EscapeOption netSocket @ '',reconnect-ms=1000'',
                 nd_mac = mac\<rparr>],
             qs_smbios = \<lparr>sm_manufacturer = DefaultManufacturer, sm_product = DefaultProduct, sm_version = [], sm_serial = vm_id v\<rparr>,
             qs_credentials = creds, qs_kernelCmdlineExtra = [], qs_vsockCID = vm_cid v, qs_tpmSocket = tpmSocket,
             qs_ovmfCode = op_ovmfCode (sv_opts s), qs_ovmfVars = pa_ovmfVars (vm_paths v),
             qs_serialLog = pa_console (vm_paths v), qs_qmpSocket = pa_qmpSocket (vm_paths v),
             qs_processLog = pa_qemuLog (vm_paths v), qs_noReboot = False\<rparr>
      in case ph of
           PhaseInstall \<Rightarrow>
             spec\<lparr>qs_uki := (case img of None \<Rightarrow> [] | Some i \<Rightarrow> im_uki i),
                  qs_installer := (case img of None \<Rightarrow> [] | Some i \<Rightarrow> im_disk i), qs_noReboot := True,
                  qs_credentials := AList.update CredentialInstallTarget InstallTargetDevice creds\<rparr>
         | PhaseBoot \<Rightarrow> if \<not> vm_booted v then spec\<lparr>qs_kernelCmdlineExtra := firstBootCmdline\<rparr> else spec
         | PhaseUnset \<Rightarrow> spec)"

text \<open>The outcomes of one start: the network context, swtpm (its socket and handle),
  QEMU per attempt (an error with its text, or the handle) and the writes of
  reassigned records.\<close>

record start_io =
  si_ctx :: "error option"
  si_tpm :: "(string \<times> proc_handle) res"
  si_qemu :: "nat \<Rightarrow> qemu_spec \<Rightarrow> (error \<times> string) + proc_handle"
  si_env :: "nat \<Rightarrow> env"

definition svc_subscribe :: "phase \<Rightarrow> 32 word \<Rightarrow> service \<Rightarrow> nat option \<times> service" where
  "svc_subscribe ph cid s =
     (if ph = PhaseBoot then case Subscribe cid (sv_notify s) of (ch, l) \<Rightarrow> (Some ch, s\<lparr>sv_notify := l\<rparr>) else (None, s))"

definition svc_unsubscribe :: "phase \<Rightarrow> 32 word \<Rightarrow> service \<Rightarrow> service" where
  "svc_unsubscribe ph cid s = (if ph = PhaseBoot then s\<lparr>sv_notify := Unsubscribe cid (sv_notify s)\<rparr> else s)"

text \<open>The retry loop, structural on the retries left.\<close>

fun start_attempts ::
  "start_io \<Rightarrow> phase \<Rightarrow> image option \<Rightarrow> attachment \<Rightarrow> string \<Rightarrow> nat \<Rightarrow> nat \<Rightarrow> vm \<Rightarrow> nat option \<Rightarrow> service \<Rightarrow>
   (proc_handle \<times> nat option) res \<times> service" where
  "start_attempts io ph img att tpmSocket a left v ch s =
     (let attempt = maxCIDRetries - left in
      case si_qemu io attempt (qemuSpec s v ph img (at_socketPath att) (at_mac att) tpmSocket) of
        Inr h \<Rightarrow> (Inr (h, ch), s)
      | Inl (er, msg) \<Rightarrow>
          (case left of
             0 \<Rightarrow> (Inl er, svc_unsubscribe ph (vm_cid v) s)
           | Suc left' \<Rightarrow>
               if \<not> isCIDInUse msg then (Inl er, svc_unsubscribe ph (vm_cid v) s)
               else (case reassignCID (si_env io attempt) a (vm_cid v) s of
                       (Inl rerr, s1) \<Rightarrow> (Inl er, svc_unsubscribe ph (vm_cid v) s1)
                     | (Inr new, s1) \<Rightarrow>
                         (case svc_subscribe ph new (svc_unsubscribe ph (vm_cid v) s1) of
                            (ch', s2) \<Rightarrow>
                              start_attempts io ph img att tpmSocket a left' (v\<lparr>vm_cid := new\<rparr>) ch' s2))))"

declare start_attempts.simps [simp del]

definition startProcess :: "start_io \<Rightarrow> nat \<Rightarrow> phase \<Rightarrow> image option \<Rightarrow> service \<Rightarrow> process res \<times> service" where
  "startProcess io a ph img s =
     (case sv_heap s a of
        None \<Rightarrow> (Inl ErrNotFound, s)
      | Some e \<Rightarrow>
          let v = clone (en_rec e) in
          (case svc_attach (si_ctx io) (vm_network v) (vm_id v) s of
             (Inl er, s1) \<Rightarrow> (Inl er, s1)
           | (Inr att, s1) \<Rightarrow>
               (case si_tpm io of
                  Inl er \<Rightarrow> (Inl er, s1)
                | Inr (tpmSocket, th) \<Rightarrow>
                    (case svc_subscribe ph (vm_cid v) s1 of
                       (ch, s2) \<Rightarrow>
                         (case start_attempts io ph img att tpmSocket a maxCIDRetries v ch s2 of
                            (Inl er, s3) \<Rightarrow> (Inl er, s3)
                          | (Inr (qh, ch'), s3) \<Rightarrow>
                              (Inr \<lparr>pr_phase = ph, pr_handles = \<lparr>ps_qemu = qh, ps_tpm = th\<rparr>, pr_notify = ch', pr_timedOut = False\<rparr>,
                               s3))))))"

section \<open>Messages from the console\<close>

definition consoleTailLines :: nat where "consoleTailLines = 40"
definition consoleScanBytes :: nat where "consoleScanBytes = 4194304"
definition tailReadBytes :: nat where "tailReadBytes = 65536"
definition scanLineMax :: nat where "scanLineMax = 1048576"

definition vtpmMarkers :: "string list" where
  "vtpmMarkers = [''Failed to measure data for event'', ''tpm tpm0: Operation Timed out'']"

text \<open>The lines of a \<open>bufio.Scanner\<close>: no last empty line, a carriage return before the
  newline goes, and a line that does not fit its buffer ends the scan.\<close>

fun scan_for :: "string list \<Rightarrow> string list \<Rightarrow> string" where
  "scan_for subs [] = []"
| "scan_for subs (l # ls) =
     (if length l \<ge> scanLineMax then []
      else
        let line = TrimSuffix l [CHR 0x0D] in
        if list_ex (Contains line) subs then TrimSpace line else scan_for subs ls)"

definition firstLineContaining :: "string option \<Rightarrow> string list \<Rightarrow> nat \<Rightarrow> string" where
  "firstLineContaining content subs limit =
     (case content of
        None \<Rightarrow> []
      | Some text \<Rightarrow>
          let ls = Split (CHR 0x0A) (take limit text)
          in scan_for subs (if last ls = [] then butlast ls else ls))"

definition TrimRightNL :: "string \<Rightarrow> string" where
  "TrimRightNL s = rev (dropWhile ((=) (CHR 0x0A)) (rev s))"

definition tailLines :: "string option \<Rightarrow> nat \<Rightarrow> string option" where
  "tailLines content n =
     (case content of
        None \<Rightarrow> None
      | Some file \<Rightarrow>
          let offset = length file - tailReadBytes;
              text = TrimRightNL (drop offset file)
          in if text = [] then Some []
             else
               let ls = Split (CHR 0x0A) text;
                   ls1 = (if offset > 0 \<and> length ls > 1 then tl ls else ls)
               in Some (Join [CHR 0x0A] (drop (length ls1 - n) ls1)))"

definition withVTPMFailure :: "env \<Rightarrow> last_error \<Rightarrow> last_error" where
  "withVTPMFailure v msg =
     (let line = firstLineContaining (ev_console v) vtpmMarkers consoleScanBytes
      in if line = [] then msg else NoteVTPM line msg)"

definition failureMessage :: "env \<Rightarrow> string \<Rightarrow> exit_status \<Rightarrow> bool \<Rightarrow> duration \<Rightarrow> last_error" where
  "failureMessage v what exit timedOut timeout =
     (let msg = withVTPMFailure v (if timedOut then NoteNotFinished what timeout else NoteExited what exit)
      in case tailLines (ev_console v) consoleTailLines of
           Some t \<Rightarrow> if t \<noteq> [] then NoteConsole msg t else msg
         | None \<Rightarrow> msg)"

definition attestationError :: "env \<Rightarrow> entry \<Rightarrow> last_error" where
  "attestationError v e =
     (let a = vm_attestation (en_rec e) in
      case atn_initrd a of
        Some q \<Rightarrow>
          if \<not> vq_verified q then withVTPMFailure v (NoteRejected StageInitrd (vq_message q))
          else (case atn_ready a of
                  Some r \<Rightarrow> if \<not> vq_verified r then withVTPMFailure v (NoteRejected StageReady (vq_message r)) else NoteNone
                | None \<Rightarrow> NoteNone)
      | None \<Rightarrow>
          (case atn_ready a of
             Some r \<Rightarrow> if \<not> vq_verified r then withVTPMFailure v (NoteRejected StageReady (vq_message r)) else NoteNone
           | None \<Rightarrow> NoteNone))"

section \<open>What the sections do to an entry\<close>

definition upd_rec :: "(vm \<Rightarrow> vm) \<Rightarrow> entry \<Rightarrow> entry" where
  "upd_rec f e = e\<lparr>en_rec := f (en_rec e)\<rparr>"

definition launched :: "process \<Rightarrow> entry \<Rightarrow> entry" where
  "launched p e =
     upd_rec (\<lambda>v. v\<lparr>vm_processes := Some (pr_handles p), vm_st := StateInstalling, vm_phase := PhaseInstall\<rparr>)
       (e\<lparr>en_proc := Some p\<rparr>)"

definition booted :: "env \<Rightarrow> process \<Rightarrow> entry \<Rightarrow> entry" where
  "booted env p e =
     upd_rec (\<lambda>v. v\<lparr>vm_processes := Some (pr_handles p), vm_st := StateBooting, vm_phase := PhaseBoot,
         vm_bootedAt := Some (ev_now env), vm_readyAt := None, vm_status := [], vm_lastError := NoteNone,
         vm_attestation :=
           new_attestation (vsp_requireAttestation (vm_spec' v)) (\<not> vsp_requireAttestation (vm_spec' v))\<rparr>)
       (e\<lparr>en_proc := Some p\<rparr>)"

definition failed :: "last_error \<Rightarrow> entry \<Rightarrow> entry" where
  "failed msg = upd_rec (\<lambda>v. v\<lparr>vm_st := StateFailed, vm_lastError := msg\<rparr>)"

definition boot_refused :: "entry \<Rightarrow> entry" where
  "boot_refused = upd_rec (\<lambda>v. v\<lparr>vm_st := StateStopped, vm_lastError := NoteShutdown\<rparr>)"

definition marked :: "lifecycle \<Rightarrow> entry \<Rightarrow> entry" where
  "marked st = upd_rec (\<lambda>v. v\<lparr>vm_st := st\<rparr>)"

definition timed_out :: "env \<Rightarrow> duration \<Rightarrow> entry \<Rightarrow> entry" where
  "timed_out env timeout =
     upd_rec (\<lambda>v. v\<lparr>vm_st := StateRunning, vm_lastError := withVTPMFailure env (NoteNoReady timeout)\<rparr>)"

definition notified :: "env \<Rightarrow> notification \<Rightarrow> entry \<Rightarrow> entry" where
  "notified env n e =
     (let e1 = (if Notification_Status n \<noteq> [] then upd_rec (\<lambda>v. v\<lparr>vm_status := Notification_Status n\<rparr>) e else e)
      in if Notification_Ready n \<and> vm_st (en_rec e) \<in> {StateBooting, StateAttesting, StateRunning}
         then upd_rec (\<lambda>v. v\<lparr>vm_st := StateReady', vm_readyAt := Some (ev_now env), vm_booted := True,
                vm_lastError := attestationError env e1\<rparr>) e1
         else e1)"

definition installed_run :: "process \<Rightarrow> exit_status \<Rightarrow> entry \<Rightarrow> bool" where
  "installed_run p exit e \<longleftrightarrow>
     pr_phase p = PhaseInstall \<and> vm_st (en_rec e) = StateInstalling \<and> ex_code exit = 0 \<and> \<not> pr_timedOut p"

definition exited :: "env \<Rightarrow> duration \<Rightarrow> exit_status \<Rightarrow> process \<Rightarrow> entry \<Rightarrow> entry" where
  "exited env timeout exit p e =
     upd_rec (\<lambda>v.
       let v1 = v\<lparr>vm_processes := None\<rparr> in
       if vm_st v = StateDeleting then v1
       else if vm_st v = StateStopping then v1\<lparr>vm_st := StateStopped\<rparr>
       else if installed_run p exit e then v1\<lparr>vm_installedAt := Some (ev_now env)\<rparr>
       else if pr_phase p = PhaseInstall \<and> vm_st v = StateInstalling
         then v1\<lparr>vm_st := StateFailed, vm_lastError := failureMessage env ''installer'' exit (pr_timedOut p) timeout\<rparr>
       else if ex_code exit = 0 then v1\<lparr>vm_st := StateStopped, vm_lastError := NoteGuestDown\<rparr>
       else v1\<lparr>vm_st := StateFailed, vm_lastError := failureMessage env ''qemu'' exit False 0\<rparr>)
       (e\<lparr>en_proc := None\<rparr>)"

definition nonced :: "env \<Rightarrow> entry \<Rightarrow> entry" where
  "nonced env =
     upd_rec (\<lambda>v.
       let a = vm_attestation v;
           a1 = (if atn_nonceIssuedAt a = None then a\<lparr>atn_nonceIssuedAt := Some (ev_now env)\<rparr> else a);
           v1 = v\<lparr>vm_attestation := a1\<rparr>
       in if atn_required a1 \<and> vm_st v = StateBooting then v1\<lparr>vm_st := StateAttesting\<rparr> else v1)"

definition quoted :: "env \<Rightarrow> stage \<Rightarrow> vm_quote \<Rightarrow> entry \<Rightarrow> entry" where
  "quoted env stg q e =
     (let prev = attestationError env e;
          e1 = upd_rec (\<lambda>v. v\<lparr>vm_attestation :=
                 (if stg = StageInitrd then (vm_attestation v)\<lparr>atn_initrd := Some q\<rparr>
                  else if stg = StageReady then (vm_attestation v)\<lparr>atn_ready := Some q\<rparr>
                  else vm_attestation v)\<rparr>) e;
          e2 = (if \<not> vq_verified q \<or> vm_lastError (en_rec e1) = prev
                then upd_rec (\<lambda>v. v\<lparr>vm_lastError := attestationError env e1\<rparr>) e1 else e1)
      in if ReleasesUserData stg (vq_verified q)
         then upd_rec (\<lambda>v. v\<lparr>vm_attestation := (vm_attestation v)\<lparr>atn_userDataReleased := True\<rparr>\<rparr>) e2
         else e2)"

section \<open>Operations\<close>

definition on_entry :: "nat \<Rightarrow> (entry \<Rightarrow> service \<Rightarrow> service) \<Rightarrow> service \<Rightarrow> service" where
  "on_entry a f s = (case sv_heap s a of None \<Rightarrow> s | Some e \<Rightarrow> f e s)"

text \<open>A step of the goroutine that holds \<open>opMu\<close>.\<close>

definition set_op :: "opmu \<Rightarrow> nat \<Rightarrow> service \<Rightarrow> service" where
  "set_op m a = on_entry a (\<lambda>e. put_entry a (e\<lparr>en_op := m\<rparr>))"

definition launch_commit :: "env \<Rightarrow> process \<Rightarrow> nat \<Rightarrow> service \<Rightarrow> service" where
  "launch_commit v p a = on_entry a (\<lambda>e. commit v a (launched p e))"

definition boot_commit :: "env \<Rightarrow> process \<Rightarrow> nat \<Rightarrow> service \<Rightarrow> service" where
  "boot_commit v p a = on_entry a (\<lambda>e. commit v a (booted v p e))"

text \<open>\<open>launch\<close> as it runs when nothing interleaves.\<close>

definition launch :: "env \<Rightarrow> prov_io \<Rightarrow> start_io \<Rightarrow> bool \<Rightarrow> bool \<Rightarrow> nat \<Rightarrow> image \<Rightarrow> service \<Rightarrow> unit res \<times> service" where
  "launch v pio sio removed netWrite a img s =
     (case provision v pio a s of
        (Inl e, s1) \<Rightarrow> (Inl e, discard removed netWrite a s1)
      | (Inr _, s1) \<Rightarrow>
          (case startProcess sio a PhaseInstall (Some img) s1 of
             (Inl e, s2) \<Rightarrow> (Inl e, discard removed netWrite a s2)
           | (Inr p, s2) \<Rightarrow> (Inr (), launch_commit v p a s2)))"

definition fail :: "env \<Rightarrow> last_error \<Rightarrow> nat \<Rightarrow> service \<Rightarrow> service" where
  "fail v msg a = on_entry a (\<lambda>e. commit v a (failed msg e))"

definition startBoot :: "env \<Rightarrow> start_io \<Rightarrow> nat \<Rightarrow> service \<Rightarrow> unit res \<times> service" where
  "startBoot v io a s =
     (case startProcess io a PhaseBoot None s of
        (Inl e, s1) \<Rightarrow> (Inl e, s1)
      | (Inr p, s1) \<Rightarrow> (Inr (), boot_commit v p a s1))"

text \<open>The first section of \<open>boot\<close>: whether to go on, with the refusal settled.\<close>

definition boot_check :: "env \<Rightarrow> nat \<Rightarrow> service \<Rightarrow> bool \<times> service" where
  "boot_check v a s =
     (case sv_heap s a of
        None \<Rightarrow> (False, s)
      | Some e \<Rightarrow>
          let ok = (vm_st (en_rec e) = StateInstalling \<and> en_proc e = None) in
          if ok \<and> sv_closing s then (False, commit v a (boot_refused e) s) else (ok, s))"

definition boot_run :: "env \<Rightarrow> start_io \<Rightarrow> nat \<Rightarrow> service \<Rightarrow> service" where
  "boot_run v io a s =
     (case startBoot v io a s of
        (Inl e, s1) \<Rightarrow> fail v (NoteHandoff e) a s1
      | (Inr _, s1) \<Rightarrow> s1)"

definition boot :: "env \<Rightarrow> start_io \<Rightarrow> nat \<Rightarrow> service \<Rightarrow> service" where
  "boot v io a s = (case boot_check v a s of (ok, s1) \<Rightarrow> if ok then boot_run v io a s1 else s1)"

definition run_timeout :: "service \<Rightarrow> process \<Rightarrow> duration" where
  "run_timeout s p = (if pr_phase p = PhaseBoot then op_bootTimeout (sv_opts s) else op_installTimeout (sv_opts s))"

definition onTimeout :: "env \<Rightarrow> nat \<Rightarrow> process \<Rightarrow> duration \<Rightarrow> service \<Rightarrow> service" where
  "onTimeout v a p timeout =
     on_entry a (\<lambda>e s.
       if pr_phase p = PhaseInstall \<and> vm_st (en_rec e) = StateInstalling
         then put_entry a (e\<lparr>en_proc := Some (p\<lparr>pr_timedOut := True\<rparr>)\<rparr>) s
       else if pr_phase p = PhaseBoot \<and> vm_st (en_rec e) \<in> {StateBooting, StateAttesting}
         then commit v a (timed_out v timeout e) s
       else s)"

definition onNotify :: "env \<Rightarrow> nat \<Rightarrow> notification \<Rightarrow> service \<Rightarrow> service" where
  "onNotify v a n = on_entry a (\<lambda>e. commit v a (notified v n e))"

text \<open>\<open>onExit\<close> up to the handoff, which \<open>en_handoff\<close> records.\<close>

definition onExit :: "env \<Rightarrow> nat \<Rightarrow> process \<Rightarrow> exit_status \<Rightarrow> duration \<Rightarrow> service \<Rightarrow> service" where
  "onExit v a p exit timeout =
     on_entry a (\<lambda>e s.
       commit v a ((exited v timeout exit p e)\<lparr>en_handoff := installed_run p exit e\<rparr>)
         (svc_unsubscribe (pr_phase p) (vm_cid (en_rec e)) s))"

text \<open>One round of the supervisor's loop.\<close>

datatype sup_event = SupExit exit_status | SupNotify | SupTimeout

definition run_round :: "env \<Rightarrow> sup_event \<Rightarrow> nat \<Rightarrow> process \<Rightarrow> service \<Rightarrow> service option" where
  "run_round v ev a p s =
     (case ev of
        SupExit exit \<Rightarrow> Some (onExit v a p exit (run_timeout s p) s)
      | SupTimeout \<Rightarrow> Some (onTimeout v a p (run_timeout s p) s)
      | SupNotify \<Rightarrow>
          (case pr_notify p of
             None \<Rightarrow> None
           | Some ch \<Rightarrow>
               (case chan_recv ch (sv_notify s) of
                  None \<Rightarrow> None
                | Some (None, l) \<Rightarrow>
                    Some (on_entry a (\<lambda>e. put_entry a (e\<lparr>en_proc := Some (p\<lparr>pr_notify := None\<rparr>)\<rparr>)) (s\<lparr>sv_notify := l\<rparr>))
                | Some (Some n, l) \<Rightarrow> Some (onNotify v a n (s\<lparr>sv_notify := l\<rparr>)))))"

definition Start_check :: "service \<Rightarrow> entry \<Rightarrow> unit res" where
  "Start_check s e =
     (if sv_closing s then Inl ErrConflict
      else if vm_st (en_rec e) = StateDeleting then Inl ErrConflict
      else if en_proc e \<noteq> None then Inl ErrConflict
      else if vm_installedAt (en_rec e) = None then Inl ErrConflict
      else Inr ())"

definition openVolume :: "volume res \<Rightarrow> nat \<Rightarrow> service \<Rightarrow> unit res \<times> service" where
  "openVolume acquired a s =
     (case sv_heap s a of
        None \<Rightarrow> (Inl ErrNotFound, s)
      | Some e \<Rightarrow>
          if en_volume e \<noteq> None then (Inr (), s)
          else (case acquired of
             Inl er \<Rightarrow> (Inl er, s)
           | Inr vol \<Rightarrow>
               (Inr (), put_entry a (upd_rec (\<lambda>v. v\<lparr>vm_paths := (vm_paths v)\<lparr>pa_volume := vo_path vol\<rparr>\<rparr>)
                  (e\<lparr>en_volume := Some vol\<rparr>)) s)))"

definition closeVolume :: "nat \<Rightarrow> service \<Rightarrow> service" where
  "closeVolume a = on_entry a (\<lambda>e. put_entry a (e\<lparr>en_volume := None\<rparr>))"

definition Start_run :: "env \<Rightarrow> volume res \<Rightarrow> start_io \<Rightarrow> nat \<Rightarrow> service \<Rightarrow> unit res \<times> service" where
  "Start_run v acquired io a s =
     (case openVolume acquired a s of
        (Inl e, s1) \<Rightarrow> (Inl e, s1)
      | (Inr _, s1) \<Rightarrow>
          (case startBoot v io a s1 of
             (Inl e, s2) \<Rightarrow> (Inl e, fail v (NoteStart e) a s2)
           | (Inr _, s2) \<Rightarrow> (Inr (), s2)))"

definition Start :: "env \<Rightarrow> volume res \<Rightarrow> start_io \<Rightarrow> string \<Rightarrow> service \<Rightarrow> vm res \<times> service" where
  "Start v acquired io i s =
     (case lookup s i of
        Inl e \<Rightarrow> (Inl e, s)
      | Inr a \<Rightarrow>
          (case sv_heap s a of
             None \<Rightarrow> (Inl ErrNotFound, s)
           | Some e \<Rightarrow>
               (case Start_check s e of
                  Inl er \<Rightarrow> (Inl er, s)
                | Inr _ \<Rightarrow>
                    (case Start_run v acquired io a s of
                       (Inl er, s1) \<Rightarrow> (Inl er, s1)
                     | (Inr _, s1) \<Rightarrow> (map_sum id clone (case sv_heap s1 a of None \<Rightarrow> Inl ErrNotFound | Some e1 \<Rightarrow> Inr (en_rec e1)), s1)))))"

text \<open>The section of \<open>Stop\<close> under the lock; the process then gets its signals and
  the supervisor settles the record.\<close>

definition Stop_mark :: "env \<Rightarrow> nat \<Rightarrow> service \<Rightarrow> unit res \<times> service" where
  "Stop_mark v a s =
     (case sv_heap s a of
        None \<Rightarrow> (Inl ErrNotFound, s)
      | Some e \<Rightarrow>
          if vm_st (en_rec e) = StateDeleting then (Inl ErrConflict, s)
          else if en_proc e = None then (Inl ErrConflict, s)
          else (Inr (), commit v a (marked StateStopping e) s))"

definition Delete_mark :: "env \<Rightarrow> string \<Rightarrow> nat \<Rightarrow> service \<Rightarrow> unit res \<times> service" where
  "Delete_mark v i a s =
     (if map_of (sv_vms s) i = None then (Inl ErrNotFound, s)
      else case sv_heap s a of
        None \<Rightarrow> (Inl ErrNotFound, s)
      | Some e \<Rightarrow>
          if vm_st (en_rec e) = StateDeleting then (Inl ErrConflict, s)
          else (Inr (), commit v a (marked StateDeleting e) s))"

text \<open>The observations of \<open>waitFor\<close>, one per wakeup, and how the wait ends when none
  of them reaches the milestone.\<close>

fun waitFor_loop :: "string \<Rightarrow> vm \<Rightarrow> vm list \<Rightarrow> error \<Rightarrow> vm \<times> error option" where
  "waitFor_loop w v rest ending =
     (case reached w v of
        (True, e) \<Rightarrow> (v, e)
      | (False, _) \<Rightarrow> (case rest of [] \<Rightarrow> (v, Some ending) | v' # rest' \<Rightarrow> waitFor_loop w v' rest' ending))"

declare waitFor_loop.simps [simp del]

definition waitFor :: "string \<Rightarrow> vm \<Rightarrow> vm list \<Rightarrow> error \<Rightarrow> vm \<times> error option" where
  "waitFor w v rest ending = (if w = WaitNone then (v, None) else waitFor_loop w v rest ending)"

definition wait_timeout :: "svc_opts \<Rightarrow> string \<Rightarrow> duration" where
  "wait_timeout o' w =
     (let t = op_installTimeout o' + op_stopTimeout o' in if w \<noteq> WaitInstalled then t + op_bootTimeout o' else t)"

text \<open>\<open>Create\<close> up to the allocated entry.\<close>

definition Create_begin ::
  "env \<Rightarrow> (string \<Rightarrow> file_kind) \<Rightarrow> catalog \<Rightarrow> bytes option list \<Rightarrow> bytes option \<Rightarrow> bool \<Rightarrow> vm_spec \<Rightarrow> service \<Rightarrow>
   ((nat \<times> image) res \<times> service) option" where
  "Create_begin v fs cat draws machine mkdir sp s =
     (let sp1 = applyDefaults s sp in
      case bindE (Spec_validate sp1) (\<lambda>_. resolveImage cat sp1) of
        Inl e \<Rightarrow> Some (Inl e, s)
      | Inr (img, sp2) \<Rightarrow>
          (case Manager_Get (sv_nets s) (vsp_network sp2) of
             Inl _ \<Rightarrow> Some (Inl ErrInvalid, s)
           | Inr _ \<Rightarrow>
               map_option (\<lambda>(r, s'). (map_sum id (\<lambda>a. (a, img)) r, s')) (allocate v fs draws machine mkdir sp2 s)))"

section \<open>Metadata service\<close>

definition instanceOf :: "entry \<Rightarrow> imds_instance" where
  "instanceOf e =
     (let v = clone (en_rec e); sp = vm_spec' v in
      \<lparr>in_id = vm_id v, in_name = vsp_name sp, in_hostname = vsp_hostname sp, in_region = vsp_region sp,
       in_zone = vsp_zone sp, in_sshAuthorizedKeys = vm_sshPublicKey v # vsp_sshAuthorizedKeys sp,
       in_kubernetesVersion = vsp_kubernetesVersion sp, in_metadata = vsp_metadata sp,
       in_userData = en_userData e, in_userDataReleased = atn_userDataReleased (vm_attestation v)\<rparr>)"

definition LookupByIP :: "service \<Rightarrow> string \<Rightarrow> imds_instance option" where
  "LookupByIP s addr =
     map_option instanceOf
       (List.find (\<lambda>e. vm_ip (en_rec e) = addr \<and> vm_st (en_rec e) \<noteq> StateDeleting) (entries s))"

definition StoreReport :: "bool \<Rightarrow> string \<Rightarrow> bytes \<Rightarrow> service \<Rightarrow> unit res \<times> service" where
  "StoreReport written i report s =
     (case lookup s i of
        Inl e \<Rightarrow> (Inl e, s)
      | Inr a \<Rightarrow>
          let s1 = on_entry a (\<lambda>e. put_entry a (e\<lparr>en_report := report\<rparr>)) s
          in (if written then Inr () else Inl (ErrOther ''write report''), s1))"

definition PolicyFor :: "(string \<Rightarrow> policy option) \<Rightarrow> catalog \<Rightarrow> service \<Rightarrow> string \<Rightarrow> policy res" where
  "PolicyFor decode cat s i =
     bindE (Service_Get s i) (\<lambda>v.
       case Catalog_Get cat (vsp_image (vm_spec' v)) of
         Inl _ \<Rightarrow> Inl ErrNoPolicy
       | Inr img \<Rightarrow>
           (case im_policy img of
              None \<Rightarrow> Inl ErrNoPolicy
            | Some raw \<Rightarrow>
                (case ParsePolicy (decode raw) of
                   Inl _ \<Rightarrow> Inl ErrNoPolicy
                 | Inr p \<Rightarrow> Inr (p\<lparr>po_kubernetesVersion := vsp_kubernetesVersion (vm_spec' v)\<rparr>))))"

definition onNonce :: "env \<Rightarrow> string \<Rightarrow> service \<Rightarrow> service" where
  "onNonce v i s =
     (case lookup s i of Inl _ \<Rightarrow> s | Inr a \<Rightarrow> on_entry a (\<lambda>e. commit v a (nonced v e)) s)"

definition recordQuote :: "env \<Rightarrow> string \<Rightarrow> stage \<Rightarrow> vm_quote \<Rightarrow> service \<Rightarrow> service" where
  "recordQuote v i stg q s =
     (case lookup s i of Inl _ \<Rightarrow> s | Inr a \<Rightarrow> on_entry a (\<lambda>e. commit v a (quoted v stg q e)) s)"

text \<open>The quote \<open>recordingAttestor.SubmitQuote\<close> builds from the inner attestor's
  answer and, where it keeps one, its result.\<close>

definition quote_of :: "timestamp \<Rightarrow> quote_result \<Rightarrow> result option \<Rightarrow> vm_quote" where
  "quote_of now r kept =
     (let q = \<lparr>vq_verified = qr_verified r, vq_message = qr_message r, vq_at = now, vq_akFingerprint = [], vq_pcrs = [], vq_learned = []\<rparr>
      in case kept of
           None \<Rightarrow> q
         | Some k \<Rightarrow> q\<lparr>vq_akFingerprint := rs_akFingerprint k, vq_pcrs := rs_pcrs k, vq_learned := rs_learned k\<rparr>)"

definition ServeIMDS :: "unit res \<Rightarrow> string \<Rightarrow> service \<Rightarrow> unit res \<times> service" where
  "ServeIMDS listened name s =
     (if name \<in> set (sv_imds s) then (Inr (), s)
      else (case Manager_Get (sv_nets s) name of
         Inl e \<Rightarrow> (Inl e, s)
       | Inr n \<Rightarrow>
           (case ListenIMDS n listened of
              Inl e \<Rightarrow> (Inl e, s)
            | Inr _ \<Rightarrow> (Inr (), s\<lparr>sv_imds := name # sv_imds s\<rparr>))))"

section \<open>Networks\<close>

record network_info =
  ni_spec :: net_spec
  ni_gateway :: string
  ni_leases :: "lease list"

definition networkInfo :: "network \<Rightarrow> network_info" where
  "networkInfo n = \<lparr>ni_spec = nw_spec n, ni_gateway = Addr_String (ly_gateway (nw_layout n)), ni_leases = Network_Leases n\<rparr>"

record net_ctx =
  nc_ctx :: "error option"
  nc_io :: net_io
  nc_listen :: "unit res"
  nc_deleteCtx :: "error option"
  nc_delete :: net_io
  nc_write :: bool

definition CreateNetwork :: "net_ctx \<Rightarrow> net_spec \<Rightarrow> service \<Rightarrow> network_info res \<times> service" where
  "CreateNetwork c spec s =
     (case Manager_Create (nc_ctx c) (nc_io c) (spec\<lparr>sp_enableIMDS := True\<rparr>) (sv_nets s) of
        (Inl e, m) \<Rightarrow> (Inl e, s\<lparr>sv_nets := m\<rparr>)
      | (Inr n, m) \<Rightarrow>
          (case ServeIMDS (nc_listen c) (sp_name (nw_spec n)) (s\<lparr>sv_nets := m\<rparr>) of
             (Inl e, s1) \<Rightarrow>
               (Inl e, s1\<lparr>sv_nets := snd (Manager_Delete (nc_deleteCtx c) (nc_delete c) (sp_name (nw_spec n)) (sv_nets s1))\<rparr>)
           | (Inr _, s1) \<Rightarrow>
               (case persistNetworks (nc_write c) s1 of
                  (Inl e, s2) \<Rightarrow> (Inl e, s2)
                | (Inr _, s2) \<Rightarrow> (Inr (networkInfo n), s2))))"

definition GetNetwork :: "service \<Rightarrow> string \<Rightarrow> network_info res" where
  "GetNetwork s name = map_sum id networkInfo (Manager_Get (sv_nets s) name)"

definition ListNetworks :: "service \<Rightarrow> network_info list" where
  "ListNetworks s = sort_key (\<lambda>i. sp_name (ni_spec i)) (map networkInfo (Manager_List (sv_nets s)))"

definition network_users :: "string \<Rightarrow> service \<Rightarrow> entry list" where
  "network_users name s = filter (\<lambda>e. vm_network (en_rec e) = name) (entries s)"

definition DeleteNetwork :: "net_ctx \<Rightarrow> string \<Rightarrow> service \<Rightarrow> unit res \<times> service" where
  "DeleteNetwork c name s =
     (if network_users name s \<noteq> [] then (Inl ErrConflict, s)
      else (case Manager_Delete (nc_ctx c) (nc_io c) name (sv_nets s) of
         (Inl e, m) \<Rightarrow> (Inl e, s\<lparr>sv_nets := m\<rparr>)
       | (Inr _, m) \<Rightarrow> persistNetworks (nc_write c) (s\<lparr>sv_nets := m, sv_imds := removeAll name (sv_imds s)\<rparr>)))"

section \<open>Restarting\<close>

text \<open>\<open>reattach\<close>: the outcomes of reopening the volume, the network context, and of
  attaching to swtpm (its socket and handle) and QEMU (its handle).\<close>

definition DefaultSocketName :: string where "DefaultSocketName = ''swtpm.sock''"

record reattach_io =
  ra_volume :: "volume res"
  ra_ctx :: "error option"
  ra_tpm :: "tpm_config \<Rightarrow> proc_handle \<Rightarrow> (string \<times> proc_handle) res"
  ra_image :: "image res"
  ra_qemu :: "qemu_spec \<Rightarrow> proc_handle \<Rightarrow> proc_handle res"

definition no_handle :: proc_handle where "no_handle = \<lparr>ha_unit = [], ha_pid = 0\<rparr>"

definition missingTPM :: "vm \<Rightarrow> string \<times> proc_handle" where
  "missingTPM v = (filepath_Join [pa_tpmState (vm_paths v), DefaultSocketName], no_handle)"

definition reattach :: "reattach_io \<Rightarrow> nat \<Rightarrow> service \<Rightarrow> unit res \<times> service" where
  "reattach io a s =
     (case sv_heap s a of
        None \<Rightarrow> (Inl ErrNotFound, s)
      | Some e0 \<Rightarrow>
          (case vm_processes (en_rec e0) of
             None \<Rightarrow> (Inl (ErrOther ''no process handles recorded''), s)
           | Some handles \<Rightarrow>
               (case openVolume (ra_volume io) a s of
                  (Inl er, s1) \<Rightarrow> (Inl er, s1)
                | (Inr _, s1) \<Rightarrow>
                    let v = (case sv_heap s1 a of None \<Rightarrow> en_rec e0 | Some e1 \<Rightarrow> en_rec e1) in
                    (case svc_attach (ra_ctx io) (vm_network v) (vm_id v) s1 of
                       (Inl er, s2) \<Rightarrow> (Inl er, closeVolume a s2)
                     | (Inr att, s2) \<Rightarrow>
                         let (tpmSocket, th) =
                               (case ra_tpm io (tpmConfig v) (ps_tpm handles) of Inl _ \<Rightarrow> missingTPM v | Inr t \<Rightarrow> t);
                             img = (if vm_phase v = PhaseInstall then ok_of (ra_image io) else None);
                             spec = qemuSpec s2 v (vm_phase v) img (at_socketPath att) (at_mac att) tpmSocket
                         in (case ra_qemu io spec (ps_qemu handles) of
                               Inl er \<Rightarrow> (Inl er, closeVolume a s2)
                             | Inr qh \<Rightarrow>
                                 (case svc_subscribe (vm_phase v) (vm_cid v) s2 of
                                    (ch, s3) \<Rightarrow>
                                      (Inr (), on_entry a (\<lambda>e. put_entry a (e\<lparr>en_proc := Some \<lparr>pr_phase = vm_phase v,
                                         pr_handles = \<lparr>ps_qemu = qh, ps_tpm = th\<rparr>, pr_notify = ch, pr_timedOut = False\<rparr>\<rparr>)) s3)))))))"

definition not_reattached :: "error \<Rightarrow> vm \<Rightarrow> vm" where
  "not_reattached er v = v\<lparr>vm_lastError := NoteNotReattached (vm_st v) er, vm_st := StateStopped, vm_processes := None\<rparr>"

definition reattachOrStop :: "reattach_io \<Rightarrow> nat \<Rightarrow> service \<Rightarrow> service" where
  "reattachOrStop io a s =
     (case reattach io a s of
        (Inr _, s1) \<Rightarrow> s1
      | (Inl er, s1) \<Rightarrow> on_entry a (\<lambda>e. put_entry a (upd_rec (not_reattached er) e)) s1)"

text \<open>The files of a VM next to its record; \<open>None\<close> is a file that cannot be read.\<close>

record vm_files =
  vf_userData :: "bytes option"
  vf_report :: "bytes option"

definition loadEntry :: "vm_files \<Rightarrow> vm option \<Rightarrow> string \<Rightarrow> service \<Rightarrow> entry res" where
  "loadEntry files onDisk i s =
     (case onDisk of
        None \<Rightarrow> Inl (ErrOther ''read record'')
      | Some v \<Rightarrow>
          if vm_id v \<noteq> i then Inl (ErrOther ''record id does not match directory'')
          else
            let v1 = v\<lparr>vm_paths := service_paths s i\<rparr>;
                v2 = (if vm_st v1 = StateCreating \<or> vm_st v1 = StateDeleting
                      then v1\<lparr>vm_lastError := NoteInterrupted (vm_st v1), vm_st := StateFailed\<rparr> else v1)
            in Inr \<lparr>en_rec = v2,
                 en_userData = (case vf_userData files of None \<Rightarrow> [] | Some b \<Rightarrow> b),
                 en_report = (case vf_report files of None \<Rightarrow> [] | Some b \<Rightarrow> b),
                 en_volume = None, en_forwards = [], en_proc = None, en_op = OpFree, en_pending = False, en_handoff = False\<rparr>)"

text \<open>No file is no networks; a file that cannot be read or parsed is an error.\<close>

definition loadNetworks :: "bool \<Rightarrow> service \<Rightarrow> net_state list res" where
  "loadNetworks readable s =
     (case sv_netDisk s of
        None \<Rightarrow> Inr []
      | Some states \<Rightarrow> if readable then Inr states else Inl (ErrOther ''load networks''))"

record load_io =
  lo_readable :: bool
  lo_ctx :: "error option"
  lo_netIO :: "string \<Rightarrow> net_io"
  lo_listen :: "string \<Rightarrow> unit res"
  lo_dirs :: "(string \<times> bool) list res"
  lo_files :: "string \<Rightarrow> vm_files"
  lo_reattach :: "string \<Rightarrow> reattach_io"
  lo_env :: "string \<Rightarrow> env"

fun serve_all :: "(string \<Rightarrow> unit res) \<Rightarrow> string list \<Rightarrow> service \<Rightarrow> unit res \<times> service" where
  "serve_all listen [] s = (Inr (), s)"
| "serve_all listen (n # ns) s =
     (case ServeIMDS (listen n) n s of
        (Inl e, s1) \<Rightarrow> (Inl e, s1)
      | (Inr _, s1) \<Rightarrow> serve_all listen ns s1)"

text \<open>One directory of \<open>vms\<close>; the record is saved after it is settled.\<close>

definition load_dir :: "load_io \<Rightarrow> string \<times> bool \<Rightarrow> service \<Rightarrow> service" where
  "load_dir io d s =
     (case d of (i, isDir) \<Rightarrow>
        if \<not> isDir then s
        else (case loadEntry (lo_files io i) (sv_disk s i) i s of
           Inl _ \<Rightarrow> s
         | Inr e \<Rightarrow>
             let a = sv_next s;
                 s1 = (put_entry a e s)\<lparr>sv_next := Suc a, sv_vms := AList.update i a (sv_vms s)\<rparr>;
                 s2 = (if Live (vm_st (en_rec e)) then reattachOrStop (lo_reattach io i) a s1 else s1)
             in on_entry a (\<lambda>e2. save (lo_env io i) e2) s2))"

definition Load :: "load_io \<Rightarrow> service \<Rightarrow> unit res \<times> service" where
  "Load io s =
     (case loadNetworks (lo_readable io) s of
        Inl e \<Rightarrow> (Inl e, s)
      | Inr states \<Rightarrow>
          (case (if length states > 0 then Manager_Restore (lo_ctx io) (lo_netIO io) states (sv_nets s) else (Inr (), sv_nets s)) of
             (Inl e, m) \<Rightarrow> (Inl e, s\<lparr>sv_nets := m\<rparr>)
           | (Inr _, m) \<Rightarrow>
               (case serve_all (lo_listen io) (map (\<lambda>st. sp_name (ns_spec st)) states) (s\<lparr>sv_nets := m\<rparr>) of
                  (Inl e, s1) \<Rightarrow> (Inl e, s1)
                | (Inr _, s1) \<Rightarrow>
                    (case lo_dirs io of
                       Inl e \<Rightarrow> (Inl e, s1)
                     | Inr dirs \<Rightarrow> (Inr (), broadcastLocked (fold (load_dir io) dirs s1))))))"

section \<open>Closing\<close>

definition Close_start :: "service \<Rightarrow> service" where
  "Close_start s = s\<lparr>sv_closing := True, sv_toStop := map snd (sv_vms s)\<rparr>"

text \<open>The visit of one entry: \<open>stopAll\<close> calls \<open>Stop\<close> and keeps the lock until the
  process is gone, \<open>detachAll\<close> only waits for the lock.\<close>

definition close_visit :: "env \<Rightarrow> nat \<Rightarrow> service \<Rightarrow> service" where
  "close_visit v a s =
     (let visited = s\<lparr>sv_toStop := removeAll a (sv_toStop s)\<rparr> in
      if op_detachOnClose (sv_opts s) then visited
      else
        (case sv_heap s a of
           None \<Rightarrow> visited
         | Some e \<Rightarrow>
             (case lookup s (vm_id (en_rec e)) of
                Inl _ \<Rightarrow> visited
              | Inr b \<Rightarrow>
                  (case Stop_mark v b s of
                     (Inl _, _) \<Rightarrow> visited
                   | (Inr _, s1) \<Rightarrow> set_op OpClose a s1))))"

definition detach_one :: "service \<Rightarrow> nat \<Rightarrow> service \<Rightarrow> service" where
  "detach_one s0 a s =
     (case sv_heap s0 a of
        None \<Rightarrow> s
      | Some e \<Rightarrow> (case en_proc e of None \<Rightarrow> s | Some p \<Rightarrow> svc_unsubscribe (pr_phase p) (vm_cid (en_rec e)) s))"

definition Close_cancel :: "service \<Rightarrow> service" where
  "Close_cancel s = s\<lparr>sv_cancelled := True\<rparr>"

definition Close_finish :: "nat list \<Rightarrow> service \<Rightarrow> service" where
  "Close_finish visited s =
     (if op_detachOnClose (sv_opts s) then fold (detach_one s) visited s else s)\<lparr>sv_imds := []\<rparr>"

end
