(* ===== verification/VM_Steps.thy ===== *)
theory VM_Steps
  imports VM_Lifecycle
begin

text \<open>
  What a step of the VM service touches.  The frame lemmas say which fields of the
  service a section leaves alone; \<open>vm_change\<close> is the state machine of a single VM,
  and \<open>svc_step_heap\<close> shows that a step of the service changes at most one entry,
  as that machine allows.  \<open>entry_invariance\<close> turns an invariant of the machine into
  one of the service, and \<open>step_frame\<close> lists the steps that change the map of VMs or
  the shutdown state.
\<close>

section \<open>What a section touches\<close>

text \<open>\<open>frame s s'\<close>: the shutdown state, the map of VMs and the allocation counter are
  the same.\<close>

definition frame :: "service \<Rightarrow> service \<Rightarrow> bool" where
  "frame s s' \<longleftrightarrow> sv_opts s' = sv_opts s \<and> sv_vms s' = sv_vms s \<and> sv_next s' = sv_next s \<and>
     sv_closing s' = sv_closing s \<and> sv_cancelled s' = sv_cancelled s \<and> sv_toStop s' = sv_toStop s"

text \<open>\<open>touches a f s s'\<close>: within the frame only entry \<open>a\<close> changes, from \<open>e\<close> to an entry
  related by \<open>R\<close>.\<close>

definition touches :: "nat \<Rightarrow> (entry \<Rightarrow> entry \<Rightarrow> bool) \<Rightarrow> service \<Rightarrow> service \<Rightarrow> bool" where
  "touches a R s s' \<longleftrightarrow> frame s s' \<and>
     (\<forall>e. sv_heap s a = Some e \<longrightarrow> (\<exists>e'. sv_heap s' = (sv_heap s)(a := Some e') \<and> R e e'))"

named_theorems svc_simps \<open>fields of the service after a section\<close>

lemma put_entry_simps [simp, svc_simps]:
  "sv_heap (put_entry a e s) = (sv_heap s)(a := Some e)"
  "sv_vms (put_entry a e s) = sv_vms s" "sv_next (put_entry a e s) = sv_next s" "sv_opts (put_entry a e s) = sv_opts s"
  "sv_closing (put_entry a e s) = sv_closing s" "sv_cancelled (put_entry a e s) = sv_cancelled s"
  "sv_toStop (put_entry a e s) = sv_toStop s" "sv_nets (put_entry a e s) = sv_nets s"
  "sv_changed (put_entry a e s) = sv_changed s" "sv_notify (put_entry a e s) = sv_notify s"
  by (simp_all add: put_entry_def)

lemma save_simps [simp, svc_simps]:
  "sv_heap (save v e s) = sv_heap s" "sv_vms (save v e s) = sv_vms s" "sv_next (save v e s) = sv_next s"
  "sv_opts (save v e s) = sv_opts s" "sv_closing (save v e s) = sv_closing s"
  "sv_cancelled (save v e s) = sv_cancelled s" "sv_toStop (save v e s) = sv_toStop s" "sv_nets (save v e s) = sv_nets s"
  "sv_changed (save v e s) = sv_changed s" "sv_notify (save v e s) = sv_notify s"
  by (simp_all add: save_def persist_def)

lemma commit_simps [simp, svc_simps]:
  "sv_heap (commit v a e s) = (sv_heap s)(a := Some e)"
  "sv_vms (commit v a e s) = sv_vms s" "sv_next (commit v a e s) = sv_next s" "sv_opts (commit v a e s) = sv_opts s"
  "sv_closing (commit v a e s) = sv_closing s" "sv_cancelled (commit v a e s) = sv_cancelled s"
  "sv_toStop (commit v a e s) = sv_toStop s" "sv_nets (commit v a e s) = sv_nets s"
  "sv_changed (commit v a e s) = Suc (sv_changed s)" "sv_notify (commit v a e s) = sv_notify s"
  by (simp_all add: commit_def broadcastLocked_def)

lemma persist_simps:
  assumes "persist v e s = (r, s')"
  shows "sv_heap s' = sv_heap s" "frame s s'" "sv_nets s' = sv_nets s" "sv_changed s' = sv_changed s"
  using assms by (auto simp: persist_def frame_def split: if_splits)

lemma persistNetworks_simps [simp, svc_simps]:
  "sv_heap (snd (persistNetworks ok s)) = sv_heap s" "sv_vms (snd (persistNetworks ok s)) = sv_vms s"
  "sv_next (snd (persistNetworks ok s)) = sv_next s" "sv_opts (snd (persistNetworks ok s)) = sv_opts s"
  "sv_closing (snd (persistNetworks ok s)) = sv_closing s" "sv_cancelled (snd (persistNetworks ok s)) = sv_cancelled s"
  "sv_toStop (snd (persistNetworks ok s)) = sv_toStop s" "sv_nets (snd (persistNetworks ok s)) = sv_nets s"
  "sv_changed (snd (persistNetworks ok s)) = sv_changed s"
  by (simp_all add: persistNetworks_def)

lemma broadcast_simps [simp, svc_simps]:
  "sv_heap (broadcastLocked s) = sv_heap s" "sv_vms (broadcastLocked s) = sv_vms s" "sv_next (broadcastLocked s) = sv_next s"
  "sv_opts (broadcastLocked s) = sv_opts s" "sv_closing (broadcastLocked s) = sv_closing s"
  "sv_cancelled (broadcastLocked s) = sv_cancelled s" "sv_toStop (broadcastLocked s) = sv_toStop s"
  "sv_nets (broadcastLocked s) = sv_nets s" "sv_changed (broadcastLocked s) = Suc (sv_changed s)"
  by (simp_all add: broadcastLocked_def)

lemma frame_refl [simp, intro]: "frame s s"
  by (simp add: frame_def)

lemma frame_trans [trans]: "frame s s1 \<Longrightarrow> frame s1 s2 \<Longrightarrow> frame s s2"
  by (simp add: frame_def)

lemma touches_trans:
  assumes "touches a R s s1" "touches a Q s1 s2"
  shows "touches a (\<lambda>e e'. \<exists>e1. R e e1 \<and> Q e1 e') s s2"
  using assms by (fastforce simp: touches_def intro: frame_trans)

lemma touches_mono: "touches a R s s' \<Longrightarrow> (\<And>e e'. R e e' \<Longrightarrow> Q e e') \<Longrightarrow> touches a Q s s'"
  by (fastforce simp: touches_def)

lemma touches_frame:
  assumes "frame s s'" "sv_heap s' = sv_heap s" "\<And>e. R e e"
  shows "touches a R s s'"
  using assms fun_upd_triv [of "sv_heap s" a] unfolding touches_def by metis

lemma touches_refl: "(\<And>e. R e e) \<Longrightarrow> touches a R s s"
  by (rule touches_frame) auto

lemma set_op_simps [simp, svc_simps]:
  "sv_vms (set_op m a s) = sv_vms s" "sv_next (set_op m a s) = sv_next s" "sv_opts (set_op m a s) = sv_opts s"
  "sv_closing (set_op m a s) = sv_closing s" "sv_cancelled (set_op m a s) = sv_cancelled s"
  "sv_toStop (set_op m a s) = sv_toStop s" "sv_nets (set_op m a s) = sv_nets s" "sv_changed (set_op m a s) = sv_changed s"
  "sv_heap (set_op m a s) = (sv_heap s)(a := map_option (\<lambda>e. e\<lparr>en_op := m\<rparr>) (sv_heap s a))"
  by (auto simp: set_op_def on_entry_def fun_upd_idem split: option.splits)

section \<open>Effects of the longer sections\<close>

lemma svc_attach_frame:
  assumes "svc_attach c name i s = (r, s')"
  shows "frame s s'" "sv_heap s' = sv_heap s" "sv_changed s' = sv_changed s" "sv_notify s' = sv_notify s"
  using assms by (auto simp: svc_attach_def with_network_def frame_def split: option.splits sum.splits prod.splits)

lemma svc_detach_frame [simp]:
  "sv_heap (svc_detach name i s) = sv_heap s" "frame s (svc_detach name i s)" "sv_changed (svc_detach name i s) = sv_changed s"
  by (auto simp: svc_detach_def with_network_def frame_def split: option.splits prod.splits)

lemma svc_subscribe_frame:
  assumes "svc_subscribe ph cid s = (ch, s')"
  shows "frame s s'" "sv_heap s' = sv_heap s" "sv_nets s' = sv_nets s" "sv_changed s' = sv_changed s"
  using assms by (auto simp: svc_subscribe_def frame_def split: if_splits prod.splits)

lemma svc_unsubscribe_frame [simp]:
  "sv_heap (svc_unsubscribe ph cid s) = sv_heap s" "frame s (svc_unsubscribe ph cid s)"
  "sv_nets (svc_unsubscribe ph cid s) = sv_nets s" "sv_changed (svc_unsubscribe ph cid s) = sv_changed s"
  "sv_vms (svc_unsubscribe ph cid s) = sv_vms s"
  by (simp_all add: svc_unsubscribe_def frame_def)

definition prov_rel :: "entry \<Rightarrow> entry \<Rightarrow> bool" where
  "prov_rel e e' \<longleftrightarrow> (\<exists>vol pa key ip mac.
     e' = e\<lparr>en_volume := vol, en_rec := (en_rec e)\<lparr>vm_paths := pa, vm_sshPublicKey := key, vm_ip := ip, vm_mac := mac\<rparr>\<rparr>)"

definition cid_rel :: "entry \<Rightarrow> entry \<Rightarrow> bool" where
  "cid_rel e e' \<longleftrightarrow> (\<exists>c. e' = e\<lparr>en_rec := (en_rec e)\<lparr>vm_cid := c\<rparr>\<rparr>)"

lemma cid_rel_refl [simp]: "cid_rel e e"
  unfolding cid_rel_def by (rule exI [of _ "vm_cid (en_rec e)"]) simp

lemma cid_rel_trans: "cid_rel e e1 \<Longrightarrow> cid_rel e1 e' \<Longrightarrow> cid_rel e e'"
  by (auto simp: cid_rel_def)

lemma prov_rel_refl [simp]: "prov_rel e e"
  unfolding prov_rel_def
  by (intro exI [of _ "en_volume e"] exI [of _ "vm_paths (en_rec e)"] exI [of _ "vm_sshPublicKey (en_rec e)"]
      exI [of _ "vm_ip (en_rec e)"] exI [of _ "vm_mac (en_rec e)"]) simp

lemma reassignCID_touches:
  assumes "reassignCID v a prev s = (r, s')"
  shows "touches a cid_rel s s'" "sv_nets s' = sv_nets s" "sv_changed s' = sv_changed s"
  using assms
  by (auto simp: reassignCID_def touches_def cid_rel_def Let_def persist_def frame_def split: option.splits prod.splits sum.splits if_splits)

lemma start_attempts_touches:
  "start_attempts io ph img att sock a left v ch s = (r, s') \<Longrightarrow>
   touches a cid_rel s s' \<and> sv_nets s' = sv_nets s \<and> sv_changed s' = sv_changed s"
proof (induction left arbitrary: v ch s)
  case 0
  then show ?case
    by (subst (asm) start_attempts.simps) (auto simp: Let_def touches_refl intro!: touches_frame split: sum.splits)
next
  case (Suc left)
  show ?case
  proof (cases "si_qemu io (maxCIDRetries - Suc left) (qemuSpec s v ph img (at_socketPath att) (at_mac att) sock)")
    case (Inr h)
    with Suc.prems show ?thesis by (subst (asm) start_attempts.simps) (auto simp: Let_def touches_refl)
  next
    case (Inl f)
    obtain er msg where f: "f = (er, msg)" by (cases f)
    obtain r1 s1 where re: "reassignCID (si_env io (maxCIDRetries - Suc left)) a (vm_cid v) s = (r1, s1)" by fastforce
    have t1: "touches a cid_rel s s1" "sv_nets s1 = sv_nets s" "sv_changed s1 = sv_changed s"
      using reassignCID_touches [OF re] by auto
    have un: "touches a cid_rel s2 (svc_unsubscribe ph (vm_cid v) s2)" for s2
      by (rule touches_frame) auto
    show ?thesis
    proof (cases "isCIDInUse msg \<and> \<not> isl r1")
      case False
      then have "s' = svc_unsubscribe ph (vm_cid v) s \<or> s' = svc_unsubscribe ph (vm_cid v) s1"
        using Suc.prems Inl f re by (subst (asm) start_attempts.simps) (auto simp: Let_def split: sum.splits if_splits)
      then show ?thesis
        using t1 un touches_trans [OF t1(1) un [of s1]]
        by (auto intro: touches_mono [of a _ s] cid_rel_trans)
    next
      case True
      then obtain new where r1: "r1 = Inr new" by (cases r1) auto
      obtain ch' s2 where sub: "svc_subscribe ph new (svc_unsubscribe ph (vm_cid v) s1) = (ch', s2)" by fastforce
      have rest: "start_attempts io ph img att sock a left (v\<lparr>vm_cid := new\<rparr>) ch' s2 = (r, s')"
        using Suc.prems Inl f re r1 sub True by (subst (asm) start_attempts.simps) (auto simp: Let_def)
      have t2: "touches a cid_rel s1 s2"
        using svc_subscribe_frame [OF sub] by (intro touches_frame) (auto intro: frame_trans [rotated])
      have "touches a cid_rel s2 s'" "sv_nets s' = sv_nets s2" "sv_changed s' = sv_changed s2"
        using Suc.IH [OF rest] by auto
      with t1 t2 svc_subscribe_frame [OF sub] show ?thesis
        using touches_trans [OF touches_trans [OF t1(1) t2], of cid_rel s']
        by (auto intro: touches_mono [of a _ s] cid_rel_trans)
    qed
  qed
qed


lemma touches_Some:
  assumes "touches a R s s'" "sv_heap s a = Some e"
  obtains e' where "sv_heap s' = (sv_heap s)(a := Some e')" "R e e'" "frame s s'"
  using assms by (auto simp: touches_def)

lemma startProcess_touches:
  assumes "startProcess io a ph img s = (r, s')"
  shows "touches a cid_rel s s'" "sv_changed s' = sv_changed s" "r = Inr p \<Longrightarrow> pr_phase p = ph"
proof -
  have "touches a cid_rel s s' \<and> sv_changed s' = sv_changed s"
  proof (cases "sv_heap s a")
    case None
    with assms show ?thesis by (auto simp: startProcess_def touches_refl)
  next
    case (Some e)
    obtain r1 s1 where att: "svc_attach (si_ctx io) (vm_network (clone (en_rec e))) (vm_id (clone (en_rec e))) s = (r1, s1)"
      by fastforce
    have t1: "touches a cid_rel s s1" "sv_changed s1 = sv_changed s"
      using svc_attach_frame [OF att] by (auto intro: touches_frame)
    show ?thesis
    proof (cases "isl r1 \<or> isl (si_tpm io)")
      case True
      with assms Some att have "s' = s1"
        by (auto simp: startProcess_def Let_def split: sum.splits prod.splits)
      with t1 show ?thesis by simp
    next
      case False
      then obtain x sock th where ok: "r1 = Inr x" "si_tpm io = Inr (sock, th)"
        by (cases r1; cases "si_tpm io") auto
      obtain ch s2 where sub: "svc_subscribe ph (vm_cid (clone (en_rec e))) s1 = (ch, s2)" by fastforce
      obtain r3 s3 where run: "start_attempts io ph img x sock a maxCIDRetries (clone (en_rec e)) ch s2 = (r3, s3)" by fastforce
      have "s' = s3"
        using assms Some att ok sub run by (auto simp: startProcess_def Let_def split: sum.splits prod.splits)
      moreover have "touches a cid_rel s1 s2"
        using svc_subscribe_frame [OF sub] by (intro touches_frame) auto
      ultimately show ?thesis
        using start_attempts_touches [OF run] t1 svc_subscribe_frame [OF sub]
          touches_trans [OF touches_trans [OF t1(1)], of cid_rel s2 cid_rel s3]
        by (auto intro: touches_mono [of a _ s] cid_rel_trans)
    qed
  qed
  then show "touches a cid_rel s s'" "sv_changed s' = sv_changed s" by auto
  show "r = Inr p \<Longrightarrow> pr_phase p = ph"
    using assms by (auto simp: startProcess_def Let_def split: option.splits sum.splits prod.splits)
qed

lemma prov_rel_I:
  "prov_rel e (e\<lparr>en_volume := vol, en_rec := (en_rec e)\<lparr>vm_paths := pa, vm_sshPublicKey := key\<rparr>\<rparr>)"
  "prov_rel e (e\<lparr>en_volume := vol,
     en_rec := (en_rec e)\<lparr>vm_paths := pa, vm_sshPublicKey := key, vm_ip := ip, vm_mac := mac\<rparr>\<rparr>)"
  unfolding prov_rel_def
  by (rule exI [of _ vol], rule exI [of _ pa], rule exI [of _ key], rule exI [of _ "vm_ip (en_rec e)"],
      rule exI [of _ "vm_mac (en_rec e)"], simp) blast

lemma provision_touches:
  assumes "provision v io a s = (r, s')"
  shows "touches a prov_rel s s'"
proof (cases "sv_heap s a")
  case None
  with assms show ?thesis by (auto simp: provision_def touches_refl)
next
  case (Some e)
  show ?thesis
  proof (cases "s' = s")
    case True
    then show ?thesis by (simp add: touches_refl)
  next
    case False
    obtain pub vol where ok: "pv_key io = Inr pub" "pv_volume io = Inr vol"
      using assms Some False by (auto simp: provision_def split: sum.splits if_splits)
    define v1 where "v1 = (en_rec e)\<lparr>vm_paths := (vm_paths (en_rec e))\<lparr>pa_volume := vo_path vol\<rparr>, vm_sshPublicKey := pub\<rparr>"
    define e1 where "e1 = e\<lparr>en_volume := Some vol, en_rec := v1\<rparr>"
    obtain r2 s2 where att: "svc_attach (pv_attach io) (vm_network v1) (vm_id v1) (put_entry a e1 s) = (r2, s2)" by fastforce
    have s': "s' = s2 \<or> (\<exists>att :: attachment. s' = snd (persistNetworks (pv_netWrite io)
        (save v (e1\<lparr>en_rec := v1\<lparr>vm_ip := Addr_String (at_ip att), vm_mac := at_mac att\<rparr>\<rparr>)
          (put_entry a (e1\<lparr>en_rec := v1\<lparr>vm_ip := Addr_String (at_ip att), vm_mac := at_mac att\<rparr>\<rparr>) s2))))"
      using arg_cong [OF assms, of snd] Some False ok att
      by (auto simp: provision_def Let_def v1_def [symmetric] e1_def [symmetric] split: sum.splits if_splits prod.splits)
    have f2: "frame s s2" "sv_heap s2 = (sv_heap s)(a := Some e1)"
      using svc_attach_frame [OF att] by (auto simp: frame_def)
    with s' Some show ?thesis
      by (auto simp: touches_def frame_def e1_def v1_def intro: prov_rel_I)
  qed
qed

lemma teardown_simps [simp]:
  "sv_heap (teardown removed a s) = (sv_heap s)(a := map_option (\<lambda>e. e\<lparr>en_forwards := [], en_volume := None\<rparr>) (sv_heap s a))"
  "frame s (teardown removed a s)" "sv_changed (teardown removed a s) = sv_changed s"
proof -
  show "sv_heap (teardown removed a s) = (sv_heap s)(a := map_option (\<lambda>e. e\<lparr>en_forwards := [], en_volume := None\<rparr>) (sv_heap s a))"
    by (auto simp: teardown_def Let_def fun_upd_idem split: option.splits)
  show "frame s (teardown removed a s)"
    using svc_detach_frame(2) by (fastforce simp: teardown_def Let_def frame_def split: option.splits)
  show "sv_changed (teardown removed a s) = sv_changed s"
    by (auto simp: teardown_def Let_def split: option.splits)
qed

lemma drop_entry_simps [simp]:
  "sv_heap (snd (drop_entry w i s)) = sv_heap s" "sv_vms (snd (drop_entry w i s)) = AList.delete i (sv_vms s)"
  "sv_next (snd (drop_entry w i s)) = sv_next s" "sv_closing (snd (drop_entry w i s)) = sv_closing s"
  "sv_cancelled (snd (drop_entry w i s)) = sv_cancelled s" "sv_toStop (snd (drop_entry w i s)) = sv_toStop s"
  "sv_nets (snd (drop_entry w i s)) = sv_nets s" "sv_opts (snd (drop_entry w i s)) = sv_opts s"
  "sv_changed (snd (drop_entry w i s)) = Suc (sv_changed s)"
  by (simp_all add: drop_entry_def)

definition vol_rel :: "entry \<Rightarrow> entry \<Rightarrow> bool" where
  "vol_rel e e' \<longleftrightarrow> (\<exists>vol pa. e' = e\<lparr>en_volume := vol, en_rec := (en_rec e)\<lparr>vm_paths := pa\<rparr>\<rparr>)"

lemma vol_rel_refl [simp]: "vol_rel e e"
  unfolding vol_rel_def by (intro exI [of _ "en_volume e"] exI [of _ "vm_paths (en_rec e)"]) simp

lemma openVolume_touches:
  assumes "openVolume acquired a s = (r, s')"
  shows "touches a vol_rel s s'" "isl r \<Longrightarrow> s' = s" "sv_changed s' = sv_changed s" "sv_nets s' = sv_nets s"
proof -
  have "vol_rel e (upd_rec (\<lambda>v. v\<lparr>vm_paths := (vm_paths v)\<lparr>pa_volume := vo_path vol\<rparr>\<rparr>) (e\<lparr>en_volume := Some vol\<rparr>))" for e vol
    unfolding vol_rel_def upd_rec_def by (intro exI) simp
  with assms show "touches a vol_rel s s'"
    by (auto simp: openVolume_def touches_refl split: option.splits sum.splits if_splits)
      (auto simp: touches_def frame_def)
qed (use assms in \<open>auto simp: openVolume_def split: option.splits sum.splits if_splits\<close>)

lemma startBoot_cases:
  assumes "startBoot v io a s = (r, s')" "sv_heap s a = Some e"
  obtains (started) e1 p where "r = Inr ()" "cid_rel e e1" "pr_phase p = PhaseBoot" "frame s s'"
      "sv_heap s' = (sv_heap s)(a := Some (booted v p e1))" "sv_changed s' = Suc (sv_changed s)"
    | (failed) er e1 where "r = Inl er" "cid_rel e e1" "frame s s'" "sv_heap s' = (sv_heap s)(a := Some e1)"
      "sv_changed s' = sv_changed s"
proof -
  obtain r1 s1 where st: "startProcess io a PhaseBoot None s = (r1, s1)" by fastforce
  obtain e1 where e1: "sv_heap s1 = (sv_heap s)(a := Some e1)" "cid_rel e e1" "frame s s1"
    using touches_Some [OF startProcess_touches(1) [OF st] assms(2)] by blast
  show thesis
  proof (cases r1)
    case (Inl er)
    with assms st have "r = Inl er" "s' = s1" by (auto simp: startBoot_def)
    with e1 startProcess_touches(2) [OF st] show ?thesis by (intro failed) auto
  next
    case (Inr p)
    have ph: "pr_phase p = PhaseBoot" using startProcess_touches(3) [OF st Inr] .
    from assms st Inr have "r = Inr ()" "s' = boot_commit v p a s1" by (auto simp: startBoot_def)
    with e1 ph startProcess_touches(2) [OF st] show ?thesis
      by (intro started [of e1 p]) (auto simp: boot_commit_def on_entry_def frame_def)
  qed
qed

section \<open>One VM\<close>

text \<open>
  The state machine of a single entry: what each event does to it.  \<open>c\<close> is the
  closing flag and \<open>a\<close> the entry's address.  Every step of the service changes at
  most one entry, and that entry by one of these rules.
\<close>

inductive vm_change :: "bool \<Rightarrow> nat \<Rightarrow> svc_event \<Rightarrow> entry \<Rightarrow> entry \<Rightarrow> bool" for c a where
  ch_launch_lock: "en_pending e \<Longrightarrow> en_op e = OpFree \<Longrightarrow>
    vm_change c a (EvLaunchLock a) e (e\<lparr>en_pending := False, en_op := OpLaunch\<rparr>)"
| ch_provision: "en_op e = OpLaunch \<Longrightarrow> prov_rel e e1 \<Longrightarrow>
    vm_change c a (EvProvision a f) e (e1\<lparr>en_op := (if f then OpDiscard else OpProvisioned)\<rparr>)"
| ch_launch_failed: "en_op e = OpProvisioned \<Longrightarrow> cid_rel e e1 \<Longrightarrow> vm_change c a (EvLaunch a True) e (e1\<lparr>en_op := OpDiscard\<rparr>)"
| ch_launch: "en_op e = OpProvisioned \<Longrightarrow> cid_rel e e1 \<Longrightarrow> pr_phase p = PhaseInstall \<Longrightarrow>
    vm_change c a (EvLaunch a False) e ((launched p e1)\<lparr>en_op := OpFree\<rparr>)"
| ch_start_lock: "en_op e = OpFree \<Longrightarrow> \<not> c \<Longrightarrow> vm_st (en_rec e) \<noteq> StateDeleting \<Longrightarrow> en_proc e = None \<Longrightarrow>
    vm_installedAt (en_rec e) \<noteq> None \<Longrightarrow> vm_change c a (EvStartLock a) e (e\<lparr>en_op := OpStart\<rparr>)"
| ch_start: "en_op e = OpStart \<Longrightarrow> vol_rel e e1 \<Longrightarrow> cid_rel e1 e2 \<Longrightarrow> pr_phase p = PhaseBoot \<Longrightarrow>
    vm_change c a (EvStart a False) e ((booted v p e2)\<lparr>en_op := OpFree\<rparr>)"
| ch_start_no_volume: "en_op e = OpStart \<Longrightarrow> vm_change c a (EvStart a True) e (e\<lparr>en_op := OpFree\<rparr>)"
| ch_start_failed: "en_op e = OpStart \<Longrightarrow> vol_rel e e1 \<Longrightarrow> cid_rel e1 e2 \<Longrightarrow>
    vm_change c a (EvStart a True) e ((failed (NoteStart er) e2)\<lparr>en_op := OpFree\<rparr>)"
| ch_stop: "vm_st (en_rec e) \<noteq> StateDeleting \<Longrightarrow> en_proc e \<noteq> None \<Longrightarrow> vm_change c a (EvStop a) e (marked StateStopping e)"
| ch_exit: "en_proc e = Some p \<Longrightarrow>
    vm_change c a (EvSupervise a (SupExit x)) e ((exited v t x p e)\<lparr>en_handoff := installed_run p x e\<rparr>)"
| ch_kill: "en_proc e = Some p \<Longrightarrow> pr_phase p = PhaseInstall \<Longrightarrow> vm_st (en_rec e) = StateInstalling \<Longrightarrow>
    vm_change c a (EvSupervise a SupTimeout) e (e\<lparr>en_proc := Some (p\<lparr>pr_timedOut := True\<rparr>)\<rparr>)"
| ch_timeout: "en_proc e = Some p \<Longrightarrow> pr_phase p = PhaseBoot \<Longrightarrow> vm_st (en_rec e) \<in> {StateBooting, StateAttesting} \<Longrightarrow>
    vm_change c a (EvSupervise a SupTimeout) e (timed_out v t e)"
| ch_late: "en_proc e = Some p \<Longrightarrow> vm_change c a (EvSupervise a SupTimeout) e e"
| ch_notify: "en_proc e = Some p \<Longrightarrow> vm_change c a (EvSupervise a SupNotify) e (notified v n e)"
| ch_notify_closed: "en_proc e = Some p \<Longrightarrow>
    vm_change c a (EvSupervise a SupNotify) e (e\<lparr>en_proc := Some (p\<lparr>pr_notify := None\<rparr>)\<rparr>)"
| ch_handoff: "en_handoff e \<Longrightarrow> en_op e = OpFree \<Longrightarrow> vm_st (en_rec e) = StateInstalling \<Longrightarrow> en_proc e = None \<Longrightarrow> \<not> c \<Longrightarrow>
    vm_change c a (EvHandoff a True) e (e\<lparr>en_handoff := False, en_op := OpBoot\<rparr>)"
| ch_handoff_refused: "en_handoff e \<Longrightarrow> en_op e = OpFree \<Longrightarrow> vm_st (en_rec e) = StateInstalling \<Longrightarrow> en_proc e = None \<Longrightarrow> c \<Longrightarrow>
    vm_change c a (EvHandoff a False) e ((boot_refused e)\<lparr>en_handoff := False, en_op := OpFree\<rparr>)"
| ch_handoff_over: "en_handoff e \<Longrightarrow> en_op e = OpFree \<Longrightarrow> \<not> (vm_st (en_rec e) = StateInstalling \<and> en_proc e = None) \<Longrightarrow>
    vm_change c a (EvHandoff a False) e (e\<lparr>en_handoff := False, en_op := OpFree\<rparr>)"
| ch_boot: "en_op e = OpBoot \<Longrightarrow> cid_rel e e1 \<Longrightarrow> pr_phase p = PhaseBoot \<Longrightarrow>
    vm_change c a (EvBoot a False) e ((booted v p e1)\<lparr>en_op := OpFree\<rparr>)"
| ch_boot_failed: "en_op e = OpBoot \<Longrightarrow> cid_rel e e1 \<Longrightarrow>
    vm_change c a (EvBoot a True) e ((failed (NoteHandoff er) e1)\<lparr>en_op := OpFree\<rparr>)"
| ch_delete: "en_op e = OpFree \<Longrightarrow> vm_st (en_rec e) \<noteq> StateDeleting \<Longrightarrow>
    vm_change c a (EvDelete a) e ((marked StateDeleting e)\<lparr>en_op := OpDelete\<rparr>)"
| ch_teardown: "en_op e \<in> {OpDelete, OpDiscard} \<Longrightarrow> en_proc e = None \<Longrightarrow>
    vm_change c a (EvTeardown a) e (e\<lparr>en_forwards := [], en_volume := None, en_op := OpTorn\<rparr>)"
| ch_drop: "en_op e = OpTorn \<Longrightarrow> vm_change c a (EvDrop a) e (e\<lparr>en_op := OpFree\<rparr>)"
| ch_visit: "en_op e = OpFree \<Longrightarrow> vm_st (en_rec e) \<noteq> StateDeleting \<Longrightarrow> en_proc e \<noteq> None \<Longrightarrow>
    vm_change c a (EvVisit a) e ((marked StateStopping e)\<lparr>en_op := OpClose\<rparr>)"
| ch_visited: "en_op e = OpClose \<Longrightarrow> en_proc e = None \<Longrightarrow> vm_change c a (EvVisited a) e (e\<lparr>en_op := OpFree\<rparr>)"
| ch_nonce: "i = vm_id (en_rec e) \<Longrightarrow> vm_change c a (EvNonce i) e (nonced v e)"
| ch_quote: "i = vm_id (en_rec e) \<Longrightarrow> vm_change c a (EvQuote i stg (vq_verified q)) e (quoted v stg q e)"
| ch_report: "i = vm_id (en_rec e) \<Longrightarrow> vm_change c a (EvReport i) e (e\<lparr>en_report := b\<rparr>)"

text \<open>Ids are unique in the store, and the map of VMs points at the entry of the id.\<close>

definition ids_ok :: "service \<Rightarrow> bool" where
  "ids_ok s \<longleftrightarrow>
     (\<forall>i a. map_of (sv_vms s) i = Some a \<longrightarrow> (\<exists>e. sv_heap s a = Some e \<and> vm_id (en_rec e) = i)) \<and>
     (\<forall>a b e d. sv_heap s a = Some e \<and> sv_heap s b = Some d \<and> vm_id (en_rec e) = vm_id (en_rec d) \<longrightarrow> a = b) \<and>
     (\<forall>a e. sv_heap s a = Some e \<longrightarrow> a < sv_next s)"

lemmas rec_rels = prov_rel_def cid_rel_def vol_rel_def upd_rec_def launched_def booted_def failed_def boot_refused_def
  marked_def timed_out_def

lemma upd_rec_simps [simp]:
  "en_rec (upd_rec f e) = f (en_rec e)" "en_op (upd_rec f e) = en_op e" "en_proc (upd_rec f e) = en_proc e"
  "en_pending (upd_rec f e) = en_pending e" "en_handoff (upd_rec f e) = en_handoff e"
  "en_userData (upd_rec f e) = en_userData e"
  by (simp_all add: upd_rec_def)

lemma vm_change_id: "vm_change c a ev e e' \<Longrightarrow> vm_id (en_rec e') = vm_id (en_rec e)"
  by (erule vm_change.cases)
    (auto simp: prov_rel_def cid_rel_def vol_rel_def launched_def booted_def failed_def boot_refused_def marked_def
      timed_out_def notified_def exited_def nonced_def quoted_def Let_def)


text \<open>What a step does to the store: it adds an entry, leaves the store alone or
  changes one entry as the machine of a VM allows.\<close>

definition heap_change :: "service \<Rightarrow> svc_event \<Rightarrow> service \<Rightarrow> bool" where
  "heap_change s ev s' \<longleftrightarrow>
     sv_heap s' = sv_heap s \<or>
     (\<exists>a e e'. sv_heap s a = Some e \<and> sv_heap s' = (sv_heap s)(a := Some e') \<and> vm_change (sv_closing s) a ev e e')"

lemma heap_changeI:
  "sv_heap s a = Some e \<Longrightarrow> sv_heap s' = (sv_heap s)(a := Some e') \<Longrightarrow> vm_change (sv_closing s) a ev e e' \<Longrightarrow> heap_change s ev s'"
  by (auto simp: heap_change_def)

lemma heap_change_same [simp, intro]: "sv_heap s' = sv_heap s \<Longrightarrow> heap_change s ev s'"
  by (simp add: heap_change_def)

lemma change_launch:
  assumes "sv_heap s a = Some e" "en_op e = OpProvisioned" "startProcess io a PhaseInstall (Some img) s = (r, s')"
  shows "heap_change s (EvLaunch a (isl r))
      (case r of Inl _ \<Rightarrow> set_op OpDiscard a s' | Inr p \<Rightarrow> set_op OpFree a (launch_commit v p a s'))"
proof -
  obtain e1 where e1: "sv_heap s' = (sv_heap s)(a := Some e1)" "cid_rel e e1"
    using touches_Some [OF startProcess_touches(1) [OF assms(3)] assms(1)] by blast
  show ?thesis
  proof (cases r)
    case (Inl er)
    with e1 assms show ?thesis by (auto intro!: heap_changeI ch_launch_failed)
  next
    case (Inr p)
    have "pr_phase p = PhaseInstall" by (rule startProcess_touches(3) [OF assms(3) Inr])
    with Inr e1 assms show ?thesis by (auto simp: launch_commit_def on_entry_def intro!: heap_changeI ch_launch)
  qed
qed

lemma change_start:
  assumes "sv_heap s a = Some e" "en_op e = OpStart" "Start_run v acquired io a s = (r, s')"
  shows "heap_change s (EvStart a (isl r)) (set_op OpFree a s')"
proof -
  obtain r1 s1 where vol: "openVolume acquired a s = (r1, s1)" by fastforce
  obtain e1 where e1: "sv_heap s1 = (sv_heap s)(a := Some e1)" "vol_rel e e1"
    using touches_Some [OF openVolume_touches(1) [OF vol] assms(1)] by blast
  show ?thesis
  proof (cases r1)
    case (Inl er)
    with assms vol have "isl r" "s' = s1" by (auto simp: Start_run_def)
    moreover from Inl have "s1 = s" using openVolume_touches(2) [OF vol] by simp
    ultimately show ?thesis using assms by (auto intro!: heap_changeI ch_start_no_volume)
  next
    case (Inr u)
    obtain r2 s2 where st: "startBoot v io a s1 = (r2, s2)" by fastforce
    have a1: "sv_heap s1 a = Some e1" using e1 by simp
    show ?thesis using st a1
    proof (cases rule: startBoot_cases)
      case (started e2 p)
      with assms vol Inr st have "r = Inr ()" "s' = s2" by (auto simp: Start_run_def)
      with started assms e1 show ?thesis by (auto intro!: heap_changeI ch_start)
    next
      case (failed er e2)
      with assms vol Inr st have "r = Inl er" "s' = fail v (NoteStart er) a s2" by (auto simp: Start_run_def)
      with failed assms e1 show ?thesis by (auto simp: fail_def on_entry_def intro!: heap_changeI ch_start_failed)
    qed
  qed
qed

lemma change_boot:
  assumes "sv_heap s a = Some e" "en_op e = OpBoot"
  shows "heap_change s (EvBoot a (isl (fst (startBoot v io a s)))) (set_op OpFree a (boot_run v io a s))"
proof -
  obtain r2 s2 where st: "startBoot v io a s = (r2, s2)" by fastforce
  show ?thesis using st assms(1)
  proof (cases rule: startBoot_cases)
    case (started e1 p)
    then have "boot_run v io a s = s2" using st by (simp add: boot_run_def)
    with started assms st show ?thesis by (auto intro!: heap_changeI ch_boot)
  next
    case (failed er e1)
    then have "boot_run v io a s = fail v (NoteHandoff er) a s2" using st by (simp add: boot_run_def)
    with failed assms st show ?thesis by (auto simp: fail_def on_entry_def intro!: heap_changeI ch_boot_failed)
  qed
qed

lemma change_supervise:
  assumes "sv_heap s a = Some e" "en_proc e = Some p" "run_round v ev a p s = Some s'"
  shows "heap_change s (EvSupervise a ev) s'"
proof (cases ev)
  case (SupExit x)
  with assms have "s' = onExit v a p x (run_timeout s p) s" by (simp add: run_round_def)
  with SupExit assms show ?thesis by (auto simp: onExit_def on_entry_def intro!: heap_changeI ch_exit)
next
  case SupTimeout
  with assms have s': "s' = onTimeout v a p (run_timeout s p) s" by (simp add: run_round_def)
  show ?thesis
  proof (cases "s' = s")
    case False
    with s' SupTimeout assms show ?thesis
      by (auto simp: onTimeout_def on_entry_def split: if_splits intro!: heap_changeI ch_kill ch_timeout)
  qed (simp add: heap_change_def)
next
  case SupNotify
  then obtain ch n l where recv: "pr_notify p = Some ch" "chan_recv ch (sv_notify s) = Some (n, l)"
    using assms by (auto simp: run_round_def split: option.splits prod.splits)
  show ?thesis
  proof (cases n)
    case None
    with recv SupNotify assms show ?thesis
      by (auto simp: run_round_def on_entry_def intro!: heap_changeI ch_notify_closed)
  next
    case (Some m)
    with recv SupNotify assms show ?thesis
      by (auto simp: run_round_def onNotify_def on_entry_def intro!: heap_changeI ch_notify)
  qed
qed

lemma change_handoff:
  assumes "sv_heap s a = Some e" "en_handoff e" "en_op e = OpFree" "boot_check v a s = (ok, s')"
  shows "heap_change s (EvHandoff a ok) (set_op (if ok then OpBoot else OpFree) a (clear_handoff a s'))"
proof -
  consider "ok" "s' = s" "vm_st (en_rec e) = StateInstalling" "en_proc e = None" "\<not> sv_closing s"
    | "\<not> ok" "s' = commit v a (boot_refused e) s" "vm_st (en_rec e) = StateInstalling" "en_proc e = None" "sv_closing s"
    | "\<not> ok" "s' = s" "\<not> (vm_st (en_rec e) = StateInstalling \<and> en_proc e = None)"
    using assms by (cases "vm_st (en_rec e) = StateInstalling \<and> en_proc e = None"; cases "sv_closing s")
      (auto simp: boot_check_def Let_def)
  then show ?thesis
  proof cases
    case 1
    with assms show ?thesis by (auto simp: clear_handoff_def on_entry_def intro!: heap_changeI ch_handoff)
  next
    case 2
    with assms show ?thesis by (auto simp: clear_handoff_def on_entry_def intro!: heap_changeI ch_handoff_refused)
  next
    case 3
    with assms show ?thesis by (auto simp: clear_handoff_def on_entry_def intro!: heap_changeI ch_handoff_over)
  qed
qed

lemma change_visit:
  assumes "ids_ok s" "sv_heap s a = Some e" "en_op e = OpFree"
  shows "heap_change s (EvVisit a) (close_visit v a s)"
proof (cases "sv_heap (close_visit v a s) = sv_heap s")
  case False
  then obtain b where b: "map_of (sv_vms s) (vm_id (en_rec e)) = Some b" "fst (Stop_mark v b s) = Inr ()"
      "close_visit v a s = set_op OpClose a (snd (Stop_mark v b s))"
    using assms(2) by (auto simp: close_visit_def lookup_def Let_def split: if_splits option.splits sum.splits prod.splits)
  with assms(1,2) have "b = a" unfolding ids_ok_def by metis
  with b assms show ?thesis
    by (auto simp: Stop_mark_def split: if_splits intro!: heap_changeI ch_visit)
qed (simp add: heap_change_def)

lemma lookup_entry:
  assumes "ids_ok s" "lookup s i = Inr a"
  obtains e where "sv_heap s a = Some e" "vm_id (en_rec e) = i"
  using assms by (auto simp: ids_ok_def lookup_def split: option.splits)

lemma change_lookup:
  assumes "ids_ok s"
  shows "heap_change s (EvNonce i) (onNonce v i s)"
    "heap_change s (EvQuote i stg (vq_verified q)) (recordQuote v i stg q s)"
    "StoreReport w i rep s = (r, s') \<Longrightarrow> heap_change s (EvReport i) s'"
proof -
  show "heap_change s (EvNonce i) (onNonce v i s)"
    by (cases "lookup s i") (auto simp: onNonce_def on_entry_def
        elim!: lookup_entry [OF assms] intro!: heap_changeI ch_nonce)
  show "heap_change s (EvQuote i stg (vq_verified q)) (recordQuote v i stg q s)"
    by (cases "lookup s i") (auto simp: recordQuote_def on_entry_def
        elim!: lookup_entry [OF assms] intro!: heap_changeI ch_quote)
  show "StoreReport w i rep s = (r, s') \<Longrightarrow> heap_change s (EvReport i) s'"
  proof (cases "lookup s i")
    case (Inr a)
    then show "StoreReport w i rep s = (r, s') \<Longrightarrow> heap_change s (EvReport i) s'"
      by (auto simp: StoreReport_def on_entry_def Let_def elim!: lookup_entry [OF assms] intro!: heap_changeI ch_report)
  qed (auto simp: StoreReport_def)
qed


lemma network_heap:
  "CreateNetwork c spec s = (r, s') \<Longrightarrow> sv_heap s' = sv_heap s \<and> frame s s' \<and> sv_changed s' = sv_changed s"
  "DeleteNetwork c name s = (r', s') \<Longrightarrow> sv_heap s' = sv_heap s \<and> frame s s' \<and> sv_changed s' = sv_changed s"
  by (auto simp: CreateNetwork_def DeleteNetwork_def ServeIMDS_def persistNetworks_def frame_def
      split: prod.splits sum.splits if_splits)

lemma allocate_cases:
  assumes "allocate v fs draws machine mkdir sp s = Some (Inr a, s')"
  obtains i m where "a = sv_next s" "newID fs draws s = Some (Inr i)"
    "sv_heap s' = (sv_heap s)(a := Some (new_entry s (ev_now v) i m sp))"
    "sv_vms s' = AList.update i a (sv_vms s)" "sv_next s' = Suc (sv_next s)" "\<not> sv_closing s"
    "\<not> list_ex (\<lambda>e. vm_name (en_rec e) = vsp_name sp) (entries s)"
    "sv_closing s' = sv_closing s" "sv_toStop s' = sv_toStop s" "sv_cancelled s' = sv_cancelled s" "sv_nets s' = sv_nets s"
    "sv_opts s' = sv_opts s" "sv_changed s' = sv_changed s"
  using assms
  by (auto simp: allocate_def Let_def persist_def split: if_splits option.splits sum.splits prod.splits)

lemma svc_step_heap:
  assumes ids: "ids_ok s" and step: "svc_step s ev s'"
  shows "(\<exists>a. ev = EvCreate a) \<or> heap_change s ev s'"
  using step
proof (cases rule: svc_step.cases)
  case (st_launch_lock a e)
  then show ?thesis by (auto intro!: heap_changeI ch_launch_lock)
next
  case (st_provision a e v io r s1)
  obtain e1 where "sv_heap s1 = (sv_heap s)(a := Some e1)" "prov_rel e e1"
    using touches_Some [OF provision_touches st_provision(3)] st_provision by blast
  with st_provision show ?thesis by (intro disjI2 heap_changeI) (auto intro!: ch_provision)
next
  case (st_start_lock a e)
  then show ?thesis by (auto simp: Start_check_def split: if_splits intro!: heap_changeI ch_start_lock)
next
  case (st_stop v a)
  then show ?thesis by (auto simp: Stop_mark_def split: if_splits option.splits intro!: heap_changeI ch_stop)
next
  case (st_handoff a e v ok s1)
  then show ?thesis using change_handoff [OF st_handoff(3-6)] by simp
next
  case (st_delete a e v s1)
  then show ?thesis by (auto simp: Delete_mark_def split: if_splits intro!: heap_changeI ch_delete)
next
  case (st_teardown a e removed)
  then show ?thesis by (intro disjI2 heap_changeI) (auto intro!: ch_teardown)
next
  case (st_drop a e w)
  then show ?thesis by (auto intro!: heap_changeI ch_drop)
next
  case (st_visited a e)
  then show ?thesis by (auto intro!: heap_changeI ch_visited)
next
  case (st_create_network c spec r)
  then show ?thesis using network_heap by blast
next
  case (st_delete_network c name r)
  then show ?thesis using network_heap(2) [of c name s r s'] by blast
qed (use ids in \<open>auto simp: Close_start_def Close_cancel_def
  intro: change_launch change_start change_boot change_supervise change_handoff change_visit change_lookup\<close>)


text \<open>Preservation of a property of single entries and of facts about the map.\<close>

lemma commit_frames [simp]:
  "frame s (commit v a e s)" "frame s (fail v msg a s)" "frame s (boot_commit v p a s)" "frame s (launch_commit v p a s)"
  "frame s (set_op m a s)" "frame s (clear_handoff a s)" "frame s (put_entry a e s)" "frame s (onNonce v i s)"
  "frame s (recordQuote v i stg q s)"
  by (auto simp: frame_def fail_def boot_commit_def launch_commit_def clear_handoff_def onNonce_def recordQuote_def on_entry_def
      split: option.splits sum.splits)

lemma touches_frameD: "touches a R s s' \<Longrightarrow> frame s s'"
  by (simp add: touches_def)

lemma startBoot_frame:
  assumes "startBoot v io a s = (r, s')"
  shows "frame s s'"
proof -
  obtain r1 s1 where st: "startProcess io a PhaseBoot None s = (r1, s1)" by fastforce
  then have "frame s s1" by (rule touches_frameD [OF startProcess_touches(1)])
  moreover have "s' = s1 \<or> (\<exists>p. s' = boot_commit v p a s1)"
    using assms st by (auto simp: startBoot_def split: sum.splits)
  ultimately show ?thesis using commit_frames(3) frame_trans by blast
qed

lemma boot_run_frame: "frame s (boot_run v io a s)"
proof -
  obtain r s1 where st: "startBoot v io a s = (r, s1)" by fastforce
  then have "frame s s1" by (rule startBoot_frame)
  moreover have "boot_run v io a s = s1 \<or> (\<exists>er. boot_run v io a s = fail v er a s1)"
    using st by (auto simp: boot_run_def split: sum.splits)
  ultimately show ?thesis using commit_frames(2) frame_trans by metis
qed

lemma Start_run_frame:
  assumes "Start_run v acquired io a s = (r, s')"
  shows "frame s s'"
proof -
  obtain r1 s1 where vol: "openVolume acquired a s = (r1, s1)" by fastforce
  obtain r2 s2 where st: "startBoot v io a s1 = (r2, s2)" by fastforce
  have "frame s s1" by (rule touches_frameD [OF openVolume_touches(1) [OF vol]])
  moreover have "frame s1 s2" using st by (rule startBoot_frame)
  moreover have "s' = s1 \<or> s' = s2 \<or> (\<exists>er. s' = fail v er a s2)"
    using assms vol st by (auto simp: Start_run_def split: sum.splits)
  ultimately show ?thesis using commit_frames(2) frame_trans by metis
qed

lemma run_round_frame: "run_round v ev a p s = Some s' \<Longrightarrow> frame s s'"
  by (auto simp: run_round_def onExit_def onTimeout_def onNotify_def on_entry_def svc_unsubscribe_def frame_def
      split: sup_event.splits option.splits prod.splits if_splits)

lemma mark_frames:
  "Stop_mark v a s = (r, s') \<Longrightarrow> frame s s'" "Delete_mark v i a s = (r, s') \<Longrightarrow> frame s s'"
  "boot_check v a s = (ok, s') \<Longrightarrow> frame s s'" "StoreReport w i rep s = (r, s') \<Longrightarrow> frame s s'"
  by (auto simp: Stop_mark_def Delete_mark_def boot_check_def StoreReport_def on_entry_def Let_def frame_def
      split: option.splits sum.splits if_splits)

text \<open>Which steps leave the frame.\<close>

lemma step_frame:
  assumes "svc_step s ev s'"
  shows "frame s s' \<or>
    (\<exists>a v fs draws machine mkdir sp. ev = EvCreate a \<and> allocate v fs draws machine mkdir sp s = Some (Inr a, s') \<and>
       (\<forall>b e. sv_heap s b = Some e \<longrightarrow> newID fs draws s \<noteq> Some (Inr (vm_id (en_rec e))))) \<or>
    (\<exists>a e w. ev = EvDrop a \<and> sv_heap s a = Some e \<and> s' = set_op OpFree a (snd (drop_entry w (vm_id (en_rec e)) s))) \<or>
    ev = EvShutdown \<and> s' = Close_start s \<or>
    (\<exists>a v. ev = EvVisit a \<and> s' = close_visit v a s) \<or>
    (\<exists>a. ev = EvVisited a \<and> s' = set_op OpFree a (s\<lparr>sv_toStop := removeAll a (sv_toStop s)\<rparr>)) \<or>
    ev = EvCancel \<and> s' = Close_cancel s"
  using assms
proof (cases rule: svc_step.cases)
  case (st_create v fs draws machine mkdir sp a)
  then show ?thesis by blast
next
  case (st_provision a e v io r s1)
  then show ?thesis using provision_touches [THEN touches_frameD] commit_frames(5) frame_trans by metis
next
  case (st_launch a e io img r s1 v)
  have "frame s s1" by (rule touches_frameD [OF startProcess_touches(1) [OF st_launch(5)]])
  moreover have "frame s1 s'"
    using st_launch(2) frame_trans [OF commit_frames(4) commit_frames(5)] by (auto split: sum.splits)
  ultimately show ?thesis using frame_trans by blast
next
  case (st_start a e v acquired io r s1)
  then show ?thesis using Start_run_frame commit_frames(5) frame_trans by metis
next
  case (st_supervise a e p v sev)
  then show ?thesis using run_round_frame by blast
next
  case (st_handoff a e v ok s1)
  then show ?thesis using mark_frames(3) commit_frames(5,6) frame_trans by metis
next
  case (st_boot a e v io)
  then show ?thesis using boot_run_frame commit_frames(5) frame_trans by metis
next
  case (st_delete a e v s1)
  then show ?thesis using mark_frames(2) commit_frames(5) frame_trans by metis
next
  case (st_teardown a e removed)
  then show ?thesis using teardown_simps(2) commit_frames(5) frame_trans by metis
next
  case (st_stop v a)
  then show ?thesis using mark_frames(1) by blast
next
  case (st_report w i rep r)
  then show ?thesis using mark_frames(4) by blast
next
  case (st_create_network c spec r)
  then show ?thesis using network_heap by blast
next
  case (st_delete_network c name r)
  then show ?thesis using network_heap(2) [of c name s r s'] by blast
next
  case (st_nonce i v)
  then show ?thesis by simp
next
  case (st_quote i stg q v)
  then show ?thesis by simp
qed (auto simp: frame_def)


lemma newID_fresh: "newID fs draws s = Some (Inr i) \<Longrightarrow> map_of (sv_vms s) i = None"
  by (induction fs draws s rule: newID.induct) (auto split: sum.splits if_splits)

lemma close_visit_frame:
  "sv_vms (close_visit v a s) = sv_vms s" "sv_next (close_visit v a s) = sv_next s"
  "sv_closing (close_visit v a s) = sv_closing s" "sv_cancelled (close_visit v a s) = sv_cancelled s"
  "sv_opts (close_visit v a s) = sv_opts s"
  by (auto simp: close_visit_def Stop_mark_def Let_def split: option.splits sum.splits prod.splits if_splits)

lemma ids_ok_step:
  assumes ids: "ids_ok s" and step: "svc_step s ev s'"
  shows "ids_ok s'"
proof (cases "\<exists>a. ev = EvCreate a")
  case True
  with step obtain a v fs draws machine mkdir sp where
    al: "allocate v fs draws machine mkdir sp s = Some (Inr a, s')" and
    fresh: "\<And>b e. sv_heap s b = Some e \<Longrightarrow> newID fs draws s \<noteq> Some (Inr (vm_id (en_rec e)))"
    by (auto elim: svc_step.cases)
  from al show ?thesis
  proof (rule allocate_cases)
    fix i m
    assume new: "a = sv_next s" "newID fs draws s = Some (Inr i)"
      "sv_heap s' = (sv_heap s)(a := Some (new_entry s (ev_now v) i m sp))"
      "sv_vms s' = AList.update i a (sv_vms s)" "sv_next s' = Suc (sv_next s)"
    have id: "vm_id (en_rec (new_entry s (ev_now v) i m sp)) = i" by (simp add: new_entry_def)
    have other: "vm_id (en_rec e) \<noteq> i" if "sv_heap s b = Some e" for b e using fresh [OF that] new(2) by auto
    show "ids_ok s'"
      using ids other id unfolding ids_ok_def new
      by (auto simp: less_Suc_eq) (metis less_irrefl option.inject)+
  qed
next
  case False
  with svc_step_heap [OF ids step] have hc: "heap_change s ev s'" by blast
  have nxt: "sv_next s' = sv_next s" and vms: "map_of (sv_vms s') i = Some a \<Longrightarrow> map_of (sv_vms s) i = Some a" for i a
    using step_frame [OF step] False
    by (auto simp: frame_def Close_start_def Close_cancel_def close_visit_frame split: if_splits)
  have keep: "\<exists>e. sv_heap s b = Some e \<and> vm_id (en_rec e) = vm_id (en_rec d)" if "sv_heap s' b = Some d" for b d
    using hc that by (auto simp: heap_change_def dest!: vm_change_id split: if_splits)
  have keep': "\<exists>e. sv_heap s' b = Some e \<and> vm_id (en_rec e) = vm_id (en_rec d)" if "sv_heap s b = Some d" for b d
    using hc that by (auto simp: heap_change_def dest!: vm_change_id)
  show ?thesis
    unfolding ids_ok_def nxt
  proof (intro conjI allI impI)
    fix i b
    assume "map_of (sv_vms s') i = Some b"
    then show "\<exists>e. sv_heap s' b = Some e \<and> vm_id (en_rec e) = i"
      using vms ids keep' unfolding ids_ok_def by metis
  next
    fix b1 b2 e1 e2
    assume "sv_heap s' b1 = Some e1 \<and> sv_heap s' b2 = Some e2 \<and> vm_id (en_rec e1) = vm_id (en_rec e2)"
    then show "b1 = b2" using keep [of b1 e1] keep [of b2 e2] ids unfolding ids_ok_def by metis
  next
    fix b e
    assume "sv_heap s' b = Some e"
    then show "b < sv_next s" using keep [of b e] ids unfolding ids_ok_def by metis
  qed
qed

text \<open>Rule of invariance: an invariant of single entries holds throughout when new
  entries have it and the machine of a VM keeps it.\<close>

lemma entry_invariance:
  assumes run: "svc_run es s"
    and init: "\<And>s now i m sp. I (new_entry s now i m sp)"
    and step: "\<And>c a ev e e'. I e \<Longrightarrow> vm_change c a ev e e' \<Longrightarrow> I e'"
  shows "ids_ok s \<and> (\<forall>a e. sv_heap s a = Some e \<longrightarrow> I e)"
  using run unfolding svc_run_def
proof (rule reachable_invariant)
  fix s
  assume "svc_init s"
  then show "ids_ok s \<and> (\<forall>a e. sv_heap s a = Some e \<longrightarrow> I e)"
    by (auto simp: svc_init_def Service_New_def ids_ok_def)
next
  fix es s ev s'
  assume inv: "ids_ok s \<and> (\<forall>a e. sv_heap s a = Some e \<longrightarrow> I e)" and st: "svc_step s ev s'"
  have "I e" if "sv_heap s' a = Some e" for a e
  proof (cases "\<exists>a. ev = EvCreate a")
    case True
    with st obtain b v fs draws machine mkdir sp where
      al: "allocate v fs draws machine mkdir sp s = Some (Inr b, s')" by (auto elim: svc_step.cases)
    then obtain i m where "sv_heap s' = (sv_heap s)(b := Some (new_entry s (ev_now v) i m sp))"
      by (rule allocate_cases)
    with that inv init show ?thesis by (auto split: if_splits)
  next
    case False
    with svc_step_heap [OF conjunct1 [OF inv] st] have "heap_change s ev s'" by blast
    with that inv step show ?thesis unfolding heap_change_def by (metis fun_upd_apply option.inject)
  qed
  with inv st show "ids_ok s' \<and> (\<forall>a e. sv_heap s' a = Some e \<longrightarrow> I e)" by (auto intro: ids_ok_step)
qed

section \<open>Fields of changed entries\<close>

lemma new_attestation_fields [simp]:
  "atn_required (new_attestation r d) = r" "atn_userDataReleased (new_attestation r d) = d"
  "atn_initrd (new_attestation r d) = None" "atn_ready (new_attestation r d) = None"
  by (simp_all add: new_attestation_def)

lemma launched_fields [simp]:
  "en_proc (launched p e) = Some p" "en_op (launched p e) = en_op e" "en_pending (launched p e) = en_pending e"
  "en_handoff (launched p e) = en_handoff e" "en_userData (launched p e) = en_userData e"
  "vm_id (en_rec (launched p e)) = vm_id (en_rec e)" "vm_spec' (en_rec (launched p e)) = vm_spec' (en_rec e)"
  "vm_st (en_rec (launched p e)) = StateInstalling" "vm_phase (en_rec (launched p e)) = PhaseInstall"
  "vm_ip (en_rec (launched p e)) = vm_ip (en_rec e)" "vm_cid (en_rec (launched p e)) = vm_cid (en_rec e)"
  "vm_booted (en_rec (launched p e)) = vm_booted (en_rec e)"
  "vm_attestation (en_rec (launched p e)) = vm_attestation (en_rec e)"
  "vm_installedAt (en_rec (launched p e)) = vm_installedAt (en_rec e)"
  "vm_bootedAt (en_rec (launched p e)) = vm_bootedAt (en_rec e)"
  "vm_readyAt (en_rec (launched p e)) = vm_readyAt (en_rec e)"
  "vm_processes (en_rec (launched p e)) = Some (pr_handles p)"
  by (simp_all add: launched_def)

lemma booted_fields [simp]:
  "en_proc (booted v p e) = Some p" "en_op (booted v p e) = en_op e" "en_pending (booted v p e) = en_pending e"
  "en_handoff (booted v p e) = en_handoff e" "en_userData (booted v p e) = en_userData e"
  "vm_id (en_rec (booted v p e)) = vm_id (en_rec e)" "vm_spec' (en_rec (booted v p e)) = vm_spec' (en_rec e)"
  "vm_st (en_rec (booted v p e)) = StateBooting" "vm_phase (en_rec (booted v p e)) = PhaseBoot"
  "vm_ip (en_rec (booted v p e)) = vm_ip (en_rec e)" "vm_cid (en_rec (booted v p e)) = vm_cid (en_rec e)"
  "vm_booted (en_rec (booted v p e)) = vm_booted (en_rec e)"
  "vm_attestation (en_rec (booted v p e)) = new_attestation (vsp_requireAttestation (vm_spec' (en_rec e))) (\<not> vsp_requireAttestation (vm_spec' (en_rec e)))"
  "vm_installedAt (en_rec (booted v p e)) = vm_installedAt (en_rec e)"
  "vm_bootedAt (en_rec (booted v p e)) = Some (ev_now v)" "vm_readyAt (en_rec (booted v p e)) = None"
  "vm_processes (en_rec (booted v p e)) = Some (pr_handles p)"
  by (simp_all add: booted_def)

lemma failed_fields [simp]:
  "en_proc (failed msg e) = en_proc e" "en_op (failed msg e) = en_op e" "en_pending (failed msg e) = en_pending e"
  "en_handoff (failed msg e) = en_handoff e" "en_userData (failed msg e) = en_userData e"
  "vm_id (en_rec (failed msg e)) = vm_id (en_rec e)" "vm_spec' (en_rec (failed msg e)) = vm_spec' (en_rec e)"
  "vm_st (en_rec (failed msg e)) = StateFailed" "vm_phase (en_rec (failed msg e)) = vm_phase (en_rec e)"
  "vm_ip (en_rec (failed msg e)) = vm_ip (en_rec e)" "vm_cid (en_rec (failed msg e)) = vm_cid (en_rec e)"
  "vm_booted (en_rec (failed msg e)) = vm_booted (en_rec e)"
  "vm_attestation (en_rec (failed msg e)) = vm_attestation (en_rec e)"
  "vm_installedAt (en_rec (failed msg e)) = vm_installedAt (en_rec e)"
  "vm_bootedAt (en_rec (failed msg e)) = vm_bootedAt (en_rec e)"
  "vm_readyAt (en_rec (failed msg e)) = vm_readyAt (en_rec e)"
  "vm_processes (en_rec (failed msg e)) = vm_processes (en_rec e)"
  by (simp_all add: failed_def)

lemma boot_refused_fields [simp]:
  "en_proc (boot_refused e) = en_proc e" "en_op (boot_refused e) = en_op e" "en_pending (boot_refused e) = en_pending e"
  "en_handoff (boot_refused e) = en_handoff e" "en_userData (boot_refused e) = en_userData e"
  "vm_id (en_rec (boot_refused e)) = vm_id (en_rec e)" "vm_spec' (en_rec (boot_refused e)) = vm_spec' (en_rec e)"
  "vm_st (en_rec (boot_refused e)) = StateStopped" "vm_phase (en_rec (boot_refused e)) = vm_phase (en_rec e)"
  "vm_ip (en_rec (boot_refused e)) = vm_ip (en_rec e)" "vm_cid (en_rec (boot_refused e)) = vm_cid (en_rec e)"
  "vm_booted (en_rec (boot_refused e)) = vm_booted (en_rec e)"
  "vm_attestation (en_rec (boot_refused e)) = vm_attestation (en_rec e)"
  "vm_installedAt (en_rec (boot_refused e)) = vm_installedAt (en_rec e)"
  "vm_bootedAt (en_rec (boot_refused e)) = vm_bootedAt (en_rec e)"
  "vm_readyAt (en_rec (boot_refused e)) = vm_readyAt (en_rec e)"
  "vm_processes (en_rec (boot_refused e)) = vm_processes (en_rec e)"
  by (simp_all add: boot_refused_def)

lemma marked_fields [simp]:
  "en_proc (marked st e) = en_proc e" "en_op (marked st e) = en_op e" "en_pending (marked st e) = en_pending e"
  "en_handoff (marked st e) = en_handoff e" "en_userData (marked st e) = en_userData e"
  "vm_id (en_rec (marked st e)) = vm_id (en_rec e)" "vm_spec' (en_rec (marked st e)) = vm_spec' (en_rec e)"
  "vm_st (en_rec (marked st e)) = st" "vm_phase (en_rec (marked st e)) = vm_phase (en_rec e)"
  "vm_ip (en_rec (marked st e)) = vm_ip (en_rec e)" "vm_cid (en_rec (marked st e)) = vm_cid (en_rec e)"
  "vm_booted (en_rec (marked st e)) = vm_booted (en_rec e)"
  "vm_attestation (en_rec (marked st e)) = vm_attestation (en_rec e)"
  "vm_installedAt (en_rec (marked st e)) = vm_installedAt (en_rec e)"
  "vm_bootedAt (en_rec (marked st e)) = vm_bootedAt (en_rec e)"
  "vm_readyAt (en_rec (marked st e)) = vm_readyAt (en_rec e)"
  "vm_processes (en_rec (marked st e)) = vm_processes (en_rec e)"
  by (simp_all add: marked_def)

lemma timed_out_fields [simp]:
  "en_proc (timed_out v t e) = en_proc e" "en_op (timed_out v t e) = en_op e"
  "en_pending (timed_out v t e) = en_pending e" "en_handoff (timed_out v t e) = en_handoff e"
  "en_userData (timed_out v t e) = en_userData e" "vm_id (en_rec (timed_out v t e)) = vm_id (en_rec e)"
  "vm_spec' (en_rec (timed_out v t e)) = vm_spec' (en_rec e)" "vm_st (en_rec (timed_out v t e)) = StateRunning"
  "vm_phase (en_rec (timed_out v t e)) = vm_phase (en_rec e)" "vm_ip (en_rec (timed_out v t e)) = vm_ip (en_rec e)"
  "vm_cid (en_rec (timed_out v t e)) = vm_cid (en_rec e)" "vm_booted (en_rec (timed_out v t e)) = vm_booted (en_rec e)"
  "vm_attestation (en_rec (timed_out v t e)) = vm_attestation (en_rec e)"
  "vm_installedAt (en_rec (timed_out v t e)) = vm_installedAt (en_rec e)"
  "vm_bootedAt (en_rec (timed_out v t e)) = vm_bootedAt (en_rec e)"
  "vm_readyAt (en_rec (timed_out v t e)) = vm_readyAt (en_rec e)"
  "vm_processes (en_rec (timed_out v t e)) = vm_processes (en_rec e)"
  by (simp_all add: timed_out_def)

lemma notified_fields [simp]:
  "en_proc (notified v n e) = en_proc e" "en_op (notified v n e) = en_op e" "en_pending (notified v n e) = en_pending e"
  "en_handoff (notified v n e) = en_handoff e" "en_userData (notified v n e) = en_userData e"
  "vm_id (en_rec (notified v n e)) = vm_id (en_rec e)" "vm_spec' (en_rec (notified v n e)) = vm_spec' (en_rec e)"
  "vm_st (en_rec (notified v n e)) = (if Notification_Ready n \<and> vm_st (en_rec e) \<in> {StateBooting, StateAttesting, StateRunning} then StateReady' else vm_st (en_rec e))"
  "vm_phase (en_rec (notified v n e)) = vm_phase (en_rec e)" "vm_ip (en_rec (notified v n e)) = vm_ip (en_rec e)"
  "vm_cid (en_rec (notified v n e)) = vm_cid (en_rec e)"
  "vm_booted (en_rec (notified v n e)) = (vm_booted (en_rec e) \<or> Notification_Ready n \<and> vm_st (en_rec e) \<in> {StateBooting, StateAttesting, StateRunning})"
  "vm_attestation (en_rec (notified v n e)) = vm_attestation (en_rec e)"
  "vm_installedAt (en_rec (notified v n e)) = vm_installedAt (en_rec e)"
  "vm_bootedAt (en_rec (notified v n e)) = vm_bootedAt (en_rec e)"
  "vm_readyAt (en_rec (notified v n e)) = (if Notification_Ready n \<and> vm_st (en_rec e) \<in> {StateBooting, StateAttesting, StateRunning} then Some (ev_now v) else vm_readyAt (en_rec e))"
  "vm_processes (en_rec (notified v n e)) = vm_processes (en_rec e)"
  by (auto simp: notified_def Let_def)

lemma exited_fields [simp]:
  "en_proc (exited v t x p e) = None" "en_op (exited v t x p e) = en_op e" "en_pending (exited v t x p e) = en_pending e"
  "en_handoff (exited v t x p e) = en_handoff e" "en_userData (exited v t x p e) = en_userData e"
  "vm_id (en_rec (exited v t x p e)) = vm_id (en_rec e)" "vm_spec' (en_rec (exited v t x p e)) = vm_spec' (en_rec e)"
  "vm_st (en_rec (exited v t x p e)) = (if vm_st (en_rec e) = StateDeleting then StateDeleting else if vm_st (en_rec e) = StateStopping then StateStopped
       else if installed_run p x e then vm_st (en_rec e)
       else if pr_phase p = PhaseInstall \<and> vm_st (en_rec e) = StateInstalling then StateFailed
       else if ex_code x = 0 then StateStopped else StateFailed)"
  "vm_phase (en_rec (exited v t x p e)) = vm_phase (en_rec e)" "vm_ip (en_rec (exited v t x p e)) = vm_ip (en_rec e)"
  "vm_cid (en_rec (exited v t x p e)) = vm_cid (en_rec e)" "vm_booted (en_rec (exited v t x p e)) = vm_booted (en_rec e)"
  "vm_attestation (en_rec (exited v t x p e)) = vm_attestation (en_rec e)"
  "vm_installedAt (en_rec (exited v t x p e)) = (if installed_run p x e then Some (ev_now v) else vm_installedAt (en_rec e))"
  "vm_bootedAt (en_rec (exited v t x p e)) = vm_bootedAt (en_rec e)"
  "vm_readyAt (en_rec (exited v t x p e)) = vm_readyAt (en_rec e)" "vm_processes (en_rec (exited v t x p e)) = None"
  by (simp_all add: exited_def Let_def installed_run_def)

lemma nonced_fields [simp]:
  "en_proc (nonced v e) = en_proc e" "en_op (nonced v e) = en_op e" "en_pending (nonced v e) = en_pending e"
  "en_handoff (nonced v e) = en_handoff e" "en_userData (nonced v e) = en_userData e"
  "vm_id (en_rec (nonced v e)) = vm_id (en_rec e)" "vm_spec' (en_rec (nonced v e)) = vm_spec' (en_rec e)"
  "vm_st (en_rec (nonced v e)) = (if atn_required (vm_attestation (en_rec e)) \<and> vm_st (en_rec e) = StateBooting then StateAttesting else vm_st (en_rec e))"
  "vm_phase (en_rec (nonced v e)) = vm_phase (en_rec e)" "vm_ip (en_rec (nonced v e)) = vm_ip (en_rec e)"
  "vm_cid (en_rec (nonced v e)) = vm_cid (en_rec e)" "vm_booted (en_rec (nonced v e)) = vm_booted (en_rec e)"
  "vm_attestation (en_rec (nonced v e)) = (if atn_nonceIssuedAt (vm_attestation (en_rec e)) = None then (vm_attestation (en_rec e))\<lparr>atn_nonceIssuedAt := Some (ev_now v)\<rparr> else vm_attestation (en_rec e))"
  "vm_installedAt (en_rec (nonced v e)) = vm_installedAt (en_rec e)"
  "vm_bootedAt (en_rec (nonced v e)) = vm_bootedAt (en_rec e)" "vm_readyAt (en_rec (nonced v e)) = vm_readyAt (en_rec e)"
  "vm_processes (en_rec (nonced v e)) = vm_processes (en_rec e)"
  by (simp_all add: nonced_def Let_def)

lemma quoted_fields [simp]:
  "en_proc (quoted v stg q e) = en_proc e" "en_op (quoted v stg q e) = en_op e"
  "en_pending (quoted v stg q e) = en_pending e" "en_handoff (quoted v stg q e) = en_handoff e"
  "en_userData (quoted v stg q e) = en_userData e" "vm_id (en_rec (quoted v stg q e)) = vm_id (en_rec e)"
  "vm_spec' (en_rec (quoted v stg q e)) = vm_spec' (en_rec e)" "vm_st (en_rec (quoted v stg q e)) = vm_st (en_rec e)"
  "vm_phase (en_rec (quoted v stg q e)) = vm_phase (en_rec e)" "vm_ip (en_rec (quoted v stg q e)) = vm_ip (en_rec e)"
  "vm_cid (en_rec (quoted v stg q e)) = vm_cid (en_rec e)" "vm_booted (en_rec (quoted v stg q e)) = vm_booted (en_rec e)"
  "vm_installedAt (en_rec (quoted v stg q e)) = vm_installedAt (en_rec e)"
  "vm_bootedAt (en_rec (quoted v stg q e)) = vm_bootedAt (en_rec e)"
  "vm_readyAt (en_rec (quoted v stg q e)) = vm_readyAt (en_rec e)"
  "vm_processes (en_rec (quoted v stg q e)) = vm_processes (en_rec e)"
  by (simp_all add: quoted_def Let_def)

lemma quoted_attestation [simp]:
  "atn_required (vm_attestation (en_rec (quoted v stg q e))) = atn_required (vm_attestation (en_rec e))"
  "atn_userDataReleased (vm_attestation (en_rec (quoted v stg q e))) \<longleftrightarrow>
     atn_userDataReleased (vm_attestation (en_rec e)) \<or> ReleasesUserData stg (vq_verified q)"
  by (simp_all add: quoted_def Let_def)

end
