(* ===== verification/VM_Invariants.thy ===== *)
theory VM_Invariants
  imports VM_Steps
begin

text \<open>
  Invariants of the VM service: which states go with a running process, what a
  start in progress relies on, and which state changes happen.  The invariant of an
  entry is kept by the machine of a VM, hence by every step of the service.
\<close>

section \<open>Processes and states\<close>

text \<open>
  The table of the package documentation.  \<open>proc_states\<close> are the states a VM with a
  running QEMU can be in, by boot phase; \<open>idle_states\<close> those of a VM without one.
  An installed VM without a process in state installing is between its two boots.
\<close>

definition proc_states :: "phase \<Rightarrow> lifecycle set" where
  "proc_states ph = (case ph of
     PhaseInstall \<Rightarrow> {StateInstalling, StateStopping, StateDeleting}
   | PhaseBoot \<Rightarrow> {StateBooting, StateAttesting, StateReady', StateRunning, StateStopping, StateDeleting}
   | PhaseUnset \<Rightarrow> {})"

definition idle_states :: "lifecycle set" where
  "idle_states = {StateCreating, StateInstalling, StateStopped, StateFailed, StateDeleting}"

definition in_create :: "entry \<Rightarrow> bool" where
  "in_create e \<longleftrightarrow> en_pending e \<or> en_op e \<in> {OpLaunch, OpProvisioned, OpDiscard}"

definition base_inv :: "entry \<Rightarrow> bool" where
  "base_inv e \<longleftrightarrow>
     (en_handoff e \<longrightarrow> vm_installedAt (en_rec e) \<noteq> None) \<and>
     (en_op e = OpDelete \<longrightarrow> vm_st (en_rec e) = StateDeleting) \<and>
     (en_op e = OpTorn \<longrightarrow> vm_st (en_rec e) \<in> {StateCreating, StateDeleting}) \<and>
     (vm_st (en_rec e) = StateReady' \<longrightarrow> vm_readyAt (en_rec e) \<noteq> None \<and> vm_booted (en_rec e)) \<and>
     atn_required (vm_attestation (en_rec e)) = vsp_requireAttestation (vm_spec' (en_rec e))"

definition proc_inv :: "process \<Rightarrow> entry \<Rightarrow> bool" where
  "proc_inv p e \<longleftrightarrow>
     vm_processes (en_rec e) \<noteq> None \<and> pr_phase p = vm_phase (en_rec e) \<and> vm_st (en_rec e) \<in> proc_states (pr_phase p) \<and>
     en_op e \<in> {OpFree, OpDelete, OpClose} \<and> \<not> en_pending e \<and>
     (pr_phase p = PhaseBoot \<longrightarrow> vm_installedAt (en_rec e) \<noteq> None \<and> vm_bootedAt (en_rec e) \<noteq> None)"

definition idle_inv :: "entry \<Rightarrow> bool" where
  "idle_inv e \<longleftrightarrow>
     vm_processes (en_rec e) = None \<and> vm_st (en_rec e) \<in> idle_states \<and>
     (vm_st (en_rec e) = StateInstalling \<longrightarrow> en_handoff e \<or> en_op e = OpBoot) \<and>
     (en_op e \<in> {OpStart, OpBoot} \<longrightarrow> vm_installedAt (en_rec e) \<noteq> None) \<and>
     (in_create e \<longrightarrow> vm_installedAt (en_rec e) = None \<and> vm_st (en_rec e) \<in> {StateCreating, StateDeleting}) \<and>
     (en_pending e \<longrightarrow> en_op e \<in> {OpFree, OpDelete, OpTorn}) \<and>
     (en_op e = OpBoot \<longrightarrow> vm_st (en_rec e) = StateInstalling)"

definition entry_inv :: "entry \<Rightarrow> bool" where
  "entry_inv e \<longleftrightarrow> base_inv e \<and> (case en_proc e of None \<Rightarrow> idle_inv e | Some p \<Rightarrow> proc_inv p e)"

lemma entry_inv_simps:
  "en_proc e = None \<Longrightarrow> entry_inv e \<longleftrightarrow> base_inv e \<and> idle_inv e"
  "en_proc e = Some p \<Longrightarrow> entry_inv e \<longleftrightarrow> base_inv e \<and> proc_inv p e"
  by (simp_all add: entry_inv_def)

lemma new_entry_inv: "entry_inv (new_entry s now i m sp)"
  by (simp add: entry_inv_def base_inv_def idle_inv_def new_entry_def new_attestation_def idle_states_def in_create_def)

lemmas idle_defs = base_inv_def idle_inv_def idle_states_def in_create_def
lemmas proc_defs = base_inv_def proc_inv_def proc_states_def

lemma op_idle: "entry_inv e \<Longrightarrow> en_op e \<notin> {OpFree, OpDelete, OpClose} \<Longrightarrow> en_proc e = None"
  by (cases "en_proc e") (simp_all add: entry_inv_simps proc_inv_def)

lemma entry_invI:
  "en_proc e = None \<Longrightarrow> base_inv e \<and> idle_inv e \<Longrightarrow> entry_inv e"
  "en_proc e = Some p \<Longrightarrow> base_inv e \<and> proc_inv p e \<Longrightarrow> entry_inv e"
  by (simp_all add: entry_inv_simps)

text \<open>The part of an entry the invariant reads.\<close>

definition core :: "entry \<Rightarrow> _" where
  "core e = (en_proc e, en_op e, en_pending e, en_handoff e,
     (vm_st (en_rec e), vm_phase (en_rec e), vm_processes (en_rec e), vm_installedAt (en_rec e)),
     (vm_bootedAt (en_rec e), vm_readyAt (en_rec e), vm_booted (en_rec e), atn_required (vm_attestation (en_rec e)),
      vsp_requireAttestation (vm_spec' (en_rec e))))"

lemma entry_inv_core: "core e' = core e \<Longrightarrow> entry_inv e' \<longleftrightarrow> entry_inv e"
  by (cases "en_proc e") (simp_all add: core_def entry_inv_def base_inv_def idle_inv_def proc_inv_def in_create_def)

lemma core_rels:
  "prov_rel e e1 \<Longrightarrow> core e1 = core e" "cid_rel e e1 \<Longrightarrow> core e1 = core e" "vol_rel e e1 \<Longrightarrow> core e1 = core e"
  by (auto simp: prov_rel_def cid_rel_def vol_rel_def core_def)

lemma core_cong:
  assumes "core e1 = core e"
  shows "core (e1\<lparr>en_op := m\<rparr>) = core (e\<lparr>en_op := m\<rparr>)"
    "core ((launched p e1)\<lparr>en_op := m\<rparr>) = core ((launched p e)\<lparr>en_op := m\<rparr>)"
    "core ((booted v p e1)\<lparr>en_op := m\<rparr>) = core ((booted v p e)\<lparr>en_op := m\<rparr>)"
    "core ((failed msg e1)\<lparr>en_op := m\<rparr>) = core ((failed msg e)\<lparr>en_op := m\<rparr>)"
  using assms by (simp_all add: core_def)

lemma entry_inv_idle:
  assumes "entry_inv e" "en_proc e = None"
  shows "en_op e = OpFree \<Longrightarrow> en_pending e \<Longrightarrow> entry_inv (e\<lparr>en_pending := False, en_op := OpLaunch\<rparr>)"
    and "en_op e = OpLaunch \<Longrightarrow> entry_inv (e\<lparr>en_op := (if f then OpDiscard else OpProvisioned)\<rparr>)"
    and "en_op e = OpProvisioned \<Longrightarrow> entry_inv (e\<lparr>en_op := OpDiscard\<rparr>)"
    and "en_op e = OpFree \<Longrightarrow> vm_installedAt (en_rec e) = Some t \<Longrightarrow> entry_inv (e\<lparr>en_op := OpStart\<rparr>)"
    and "en_op e = OpStart \<Longrightarrow> entry_inv (e\<lparr>en_op := OpFree\<rparr>)"
    and "en_op e = OpDelete \<or> en_op e = OpDiscard \<Longrightarrow> entry_inv (e\<lparr>en_forwards := fs, en_volume := vol, en_op := OpTorn\<rparr>)"
    and "en_op e = OpTorn \<Longrightarrow> entry_inv (e\<lparr>en_op := OpFree\<rparr>)"
    and "en_op e = OpClose \<Longrightarrow> entry_inv (e\<lparr>en_op := OpFree\<rparr>)"
    and "en_op e = OpFree \<Longrightarrow> en_handoff e \<Longrightarrow> vm_st (en_rec e) = StateInstalling \<Longrightarrow> entry_inv (e\<lparr>en_handoff := False, en_op := OpBoot\<rparr>)"
    and "en_op e = OpFree \<Longrightarrow> en_handoff e \<Longrightarrow> vm_st (en_rec e) = StateInstalling \<Longrightarrow> entry_inv ((boot_refused e)\<lparr>en_handoff := False, en_op := OpFree\<rparr>)"
    and "en_op e = OpFree \<Longrightarrow> vm_st (en_rec e) \<noteq> StateInstalling \<Longrightarrow> entry_inv (e\<lparr>en_handoff := False, en_op := OpFree\<rparr>)"
    and "en_op e = OpFree \<Longrightarrow> entry_inv ((marked StateDeleting e)\<lparr>en_op := OpDelete\<rparr>)"
    and "en_op e = OpStart \<or> en_op e = OpBoot \<Longrightarrow> entry_inv ((failed msg e)\<lparr>en_op := OpFree\<rparr>)"
  by ((rule entry_invI(1), simp add: assms, insert assms(1), unfold entry_inv_simps(1) [OF assms(2)] idle_defs,
      elim conjE disjE, simp_all)[1])+

lemma entry_inv_started:
  assumes "entry_inv e" "en_proc e = None"
  shows "en_op e = OpProvisioned \<Longrightarrow> pr_phase p = PhaseInstall \<Longrightarrow> entry_inv ((launched p e)\<lparr>en_op := OpFree\<rparr>)"
    and "en_op e = OpStart \<or> en_op e = OpBoot \<Longrightarrow> pr_phase p = PhaseBoot \<Longrightarrow> entry_inv ((booted v p e)\<lparr>en_op := OpFree\<rparr>)"
  by ((rule entry_invI(2), simp, insert assms(1), unfold entry_inv_simps(1) [OF assms(2)] idle_defs proc_defs,
      elim conjE disjE, simp_all)[1])+

lemma entry_inv_proc:
  assumes "entry_inv e" "en_proc e = Some p"
  shows "vm_st (en_rec e) \<noteq> StateDeleting \<Longrightarrow> entry_inv (marked StateStopping e)"
    and "en_op e = OpFree \<Longrightarrow> vm_st (en_rec e) \<noteq> StateDeleting \<Longrightarrow> entry_inv ((marked StateStopping e)\<lparr>en_op := OpClose\<rparr>)"
    and "en_op e = OpFree \<Longrightarrow> entry_inv ((marked StateDeleting e)\<lparr>en_op := OpDelete\<rparr>)"
    and "entry_inv (e\<lparr>en_proc := Some (p\<lparr>pr_timedOut := b\<rparr>)\<rparr>)"
    and "entry_inv (e\<lparr>en_proc := Some (p\<lparr>pr_notify := ch\<rparr>)\<rparr>)"
    and "pr_phase p = PhaseBoot \<Longrightarrow> vm_st (en_rec e) \<in> {StateBooting, StateAttesting} \<Longrightarrow> entry_inv (timed_out v t e)"
    and "en_op e = OpFree \<Longrightarrow> entry_inv (e\<lparr>en_handoff := False, en_op := OpFree\<rparr>)"
  by ((rule entry_invI(2), simp add: assms(2), insert assms(1), unfold entry_inv_simps(2) [OF assms(2)] proc_defs,
      elim conjE disjE, cases "pr_phase p"; cases "en_op e"; simp)[1])+

lemma entry_inv_exited:
  assumes "entry_inv e" "en_proc e = Some p"
  shows "entry_inv ((exited v t x p e)\<lparr>en_handoff := installed_run p x e\<rparr>)"
  by (rule entry_invI(1), simp, insert assms(1), unfold entry_inv_simps(2) [OF assms(2)] idle_defs proc_defs,
      elim conjE disjE, cases "pr_phase p"; cases "vm_st (en_rec e)"; cases "en_op e") (simp_all add: installed_run_def)

lemma entry_inv_notified:
  assumes "entry_inv e" "en_proc e = Some p"
  shows "entry_inv (notified v n e)"
  by (rule entry_invI(2), simp add: assms(2), insert assms(1), unfold entry_inv_simps(2) [OF assms(2)] proc_defs,
      elim conjE disjE, cases "pr_phase p"; cases "vm_st (en_rec e)"; cases "en_op e") simp_all

lemma entry_inv_nonced:
  assumes "entry_inv e"
  shows "entry_inv (nonced v e)"
proof (cases "atn_required (vm_attestation (en_rec e)) \<and> vm_st (en_rec e) = StateBooting")
  case False
  then have "core (nonced v e) = core e" by (auto simp: core_def)
  with assms show ?thesis using entry_inv_core by metis
next
  case True
  then obtain p where p: "en_proc e = Some p"
    using assms by (cases "en_proc e") (auto simp: entry_inv_simps idle_inv_def idle_states_def)
  show ?thesis
    by (rule entry_invI(2), simp add: p, insert assms True, unfold entry_inv_simps(2) [OF p] proc_defs, elim conjE,
        cases "pr_phase p"; cases "en_op e") simp_all
qed

lemma entry_inv_quoted: "entry_inv e \<Longrightarrow> entry_inv (quoted v stg q e)"
  by (subst entry_inv_core [of _ e]) (simp_all add: core_def)

lemma entry_inv_rels:
  assumes "core e1 = core e"
  shows "entry_inv (e\<lparr>en_op := m\<rparr>) \<Longrightarrow> entry_inv (e1\<lparr>en_op := m\<rparr>)"
    "entry_inv ((launched p e)\<lparr>en_op := m\<rparr>) \<Longrightarrow> entry_inv ((launched p e1)\<lparr>en_op := m\<rparr>)"
    "entry_inv ((booted v p e)\<lparr>en_op := m\<rparr>) \<Longrightarrow> entry_inv ((booted v p e1)\<lparr>en_op := m\<rparr>)"
    "entry_inv ((failed msg e)\<lparr>en_op := m\<rparr>) \<Longrightarrow> entry_inv ((failed msg e1)\<lparr>en_op := m\<rparr>)"
  by (rule iffD2 [OF entry_inv_core [OF core_cong(1) [OF assms]]] iffD2 [OF entry_inv_core [OF core_cong(2) [OF assms]]]
      iffD2 [OF entry_inv_core [OF core_cong(3) [OF assms]]] iffD2 [OF entry_inv_core [OF core_cong(4) [OF assms]]]; assumption)+

lemma entry_inv_change:
  assumes inv: "entry_inv e" and change: "vm_change c a ev e e'"
  shows "entry_inv e'"
  using change
proof (cases rule: vm_change.cases)
  case ch_launch_lock
  then have "en_proc e = None" using inv by (cases "en_proc e") (simp_all add: entry_inv_simps proc_inv_def)
  with ch_launch_lock inv show ?thesis by (simp add: entry_inv_idle(1))
next
  case (ch_provision e1 f)
  with inv have "entry_inv (e\<lparr>en_op := if f then OpDiscard else OpProvisioned\<rparr>)"
    using op_idle by (simp add: entry_inv_idle(2) del: if_split)
  then show ?thesis unfolding ch_provision(2) by (rule entry_inv_rels(1) [OF core_rels(1) [OF ch_provision(4)]])
next
  case (ch_launch_failed e1)
  with inv have "entry_inv (e\<lparr>en_op := OpDiscard\<rparr>)" using op_idle by (simp add: entry_inv_idle(3))
  then show ?thesis unfolding ch_launch_failed(2) by (rule entry_inv_rels(1) [OF core_rels(2) [OF ch_launch_failed(4)]])
next
  case (ch_launch e1 p)
  with inv have "entry_inv ((launched p e)\<lparr>en_op := OpFree\<rparr>)" using op_idle by (simp add: entry_inv_started(1))
  then show ?thesis unfolding ch_launch(2) by (rule entry_inv_rels(2) [OF core_rels(2) [OF ch_launch(4)]])
next
  case ch_start_lock
  with inv show ?thesis by (auto intro: entry_inv_idle(4))
next
  case (ch_start e1 e2 p v)
  with inv have "entry_inv ((booted v p e)\<lparr>en_op := OpFree\<rparr>)" using op_idle by (simp add: entry_inv_started(2))
  then show ?thesis unfolding ch_start(2)
    by (rule entry_inv_rels(3) [OF trans [OF core_rels(2) [OF ch_start(5)] core_rels(3) [OF ch_start(4)]]])
next
  case ch_start_no_volume
  with inv show ?thesis using op_idle by (simp add: entry_inv_idle(5))
next
  case (ch_start_failed e1 e2 er)
  with inv have "entry_inv ((failed (NoteStart er) e)\<lparr>en_op := OpFree\<rparr>)" using op_idle by (simp add: entry_inv_idle(13))
  then show ?thesis unfolding ch_start_failed(2)
    by (rule entry_inv_rels(4) [OF trans [OF core_rels(2) [OF ch_start_failed(5)] core_rels(3) [OF ch_start_failed(4)]]])
next
  case (ch_boot e1 p v)
  with inv have "entry_inv ((booted v p e)\<lparr>en_op := OpFree\<rparr>)" using op_idle by (simp add: entry_inv_started(2))
  then show ?thesis unfolding ch_boot(2) by (rule entry_inv_rels(3) [OF core_rels(2) [OF ch_boot(4)]])
next
  case (ch_boot_failed e1 er)
  with inv have "entry_inv ((failed (NoteHandoff er) e)\<lparr>en_op := OpFree\<rparr>)" using op_idle by (simp add: entry_inv_idle(13))
  then show ?thesis unfolding ch_boot_failed(2) by (rule entry_inv_rels(4) [OF core_rels(2) [OF ch_boot_failed(4)]])
next
  case ch_stop
  with inv show ?thesis by (auto intro: entry_inv_proc(1))
next
  case ch_visit
  with inv show ?thesis by (auto intro: entry_inv_proc(2))
next
  case (ch_timeout p v t)
  with inv show ?thesis by (simp add: entry_inv_proc(6))
next
  case ch_handoff_over
  with inv show ?thesis
    by (cases "en_proc e") (auto intro: entry_inv_idle(11) entry_inv_proc(7))
next
  case ch_delete
  with inv show ?thesis by (cases "en_proc e") (auto intro: entry_inv_idle(12) entry_inv_proc(3))
next
  case ch_teardown
  with inv show ?thesis by (simp add: entry_inv_idle(6))
next
  case ch_drop
  with inv show ?thesis using op_idle by (simp add: entry_inv_idle(7))
next
  case (ch_report i b)
  have "core (e\<lparr>en_report := b\<rparr>) = core e" by (simp add: core_def)
  with ch_report inv show ?thesis using entry_inv_core by metis
qed (use inv in \<open>auto intro: entry_inv_exited entry_inv_notified entry_inv_nonced entry_inv_quoted
  entry_inv_proc(4,5) entry_inv_idle(8,9,10)\<close>)

end
