(* ===== verification/VM_Demo.thy ===== *)
theory VM_Demo
  imports VM_Steps
begin

text \<open>
  A run of the VM service on a concrete configuration: one network, one VM that is
  created, installed and booted.  The properties of the service are instantiated on it.
\<close>

definition demo_opts :: svc_opts where
  "demo_opts = \<lparr>op_stateDir = ''/s'', op_region = ''r'', op_ovmfCode = ''c'', op_ovmfVarsTemplate = ''t'',
     op_installTimeout = 1, op_bootTimeout = 1, op_stopTimeout = 1, op_detachOnClose = False\<rparr>"

definition demo_vm_net :: network where
  "demo_vm_net = demo_net\<lparr>nw_dir := ''/run/networks/default'', nw_socket := ''/run/networks/default/qemu.sock'',
     nw_leases := [(''00000000'', 0x0A000002)]\<rparr>"

definition demo_mgr :: manager where
  "demo_mgr = \<lparr>mg_stateDir = ''/run'', mg_nets = [(''default'', demo_vm_net)]\<rparr>"

definition demo_vspec :: vm_spec where
  "demo_vspec = \<lparr>vsp_name = ''vm'', vsp_image = ''i'', vsp_kubernetesVersion = [], vsp_cpus = 1, vsp_memoryMiB = 512,
     vsp_diskGiB = 1, vsp_network = ''default'', vsp_userData = [1], vsp_sshAuthorizedKeys = [], vsp_hostname = ''vm'',
     vsp_metadata = [], vsp_region = [], vsp_zone = [], vsp_requireAttestation = True, vsp_waitFor = []\<rparr>"

definition demo_env :: env where
  "demo_env = \<lparr>ev_now = 1, ev_write = True, ev_console = None\<rparr>"

definition demo_pio :: prov_io where
  "demo_pio = \<lparr>pv_key = Inr ''k'', pv_userData = Inr (), pv_ovmf = Inr (),
     pv_volume = Inr \<lparr>vo_name = ''v'', vo_path = ''/v'', vo_sizeBytes = 1\<rparr>, pv_attach = None, pv_netWrite = True\<rparr>"

definition demo_handle :: proc_handle where "demo_handle = \<lparr>ha_unit = ''u'', ha_pid = 7\<rparr>"

definition demo_sio :: start_io where
  "demo_sio = \<lparr>si_ctx = None, si_tpm = Inr (''/t'', demo_handle), si_qemu = (\<lambda>_ _. Inr demo_handle), si_env = (\<lambda>_. demo_env)\<rparr>"

definition demo_svc :: service where
  "demo_svc = Service_New demo_opts demo_mgr (newNotifyListener 4711)"

text \<open>The VM at address 0, with the map of VMs and the shutdown state.\<close>

type_synonym demo_ctl = "(string, nat) gomap \<times> bool \<times> bool \<times> nat list"

definition demo_at :: "demo_ctl \<Rightarrow> service \<Rightarrow> entry \<Rightarrow> bool" where
  "demo_at c s e \<longleftrightarrow> sv_heap s = (\<lambda>_. None)(0 := Some e) \<and>
     sv_vms s = fst c \<and> sv_closing s = fst (snd c) \<and> sv_cancelled s = fst (snd (snd c)) \<and> sv_toStop s = snd (snd (snd c)) \<and>
     sv_nets s = demo_mgr \<and> sv_opts s = demo_opts \<and>
     vm_id (en_rec e) = ''00000000'' \<and> vm_network (en_rec e) = ''default'' \<and>
     vsp_requireAttestation (vm_spec' (en_rec e)) \<and> vsp_image (vm_spec' (en_rec e)) = ''i'' \<and> en_userData e = [1]"

definition demo_open :: demo_ctl where "demo_open = ([(''00000000'', 0)], False, False, [])"

lemma demo_mgr_inv: "mgr_inv demo_mgr"
proof -
  have l: "lease_ok (nw_layout demo_vm_net) (nw_leases demo_vm_net)" by code_simp
  have s: "nw_socket demo_vm_net = filepath_Join [nw_dir demo_vm_net, SocketName]" by code_simp
  have d: "nw_dir demo_vm_net = Manager_Dir demo_mgr ''default''" by code_simp
  have "length (nw_socket demo_vm_net) \<le> maxSocketPath" by (simp add: demo_vm_net_def maxSocketPath_def)
  then have "net_inv demo_vm_net"
    using demo_inv l s by (simp only: net_inv_def) (simp add: demo_vm_net_def)
  then show ?thesis
    using d by (simp add: mgr_inv_def demo_mgr_def demo_vm_net_def demo_net_def demo_spec_def)
qed

lemma demo_attach: "svc_attach None ''default'' ''00000000'' s = (Inr (network_attachment demo_vm_net ''00000000'' 0x0A000002), s)"
  if "sv_nets s = demo_mgr"
  using that by (simp add: svc_attach_def with_network_def demo_mgr_def Network_Attach_def demo_vm_net_def demo_net_def)

lemma svc_run_step: "svc_run es s \<Longrightarrow> svc_step s ev s' \<Longrightarrow> svc_run (ev # es) s'"
  unfolding svc_run_def by (rule reach_step)

lemma demo_created:
  obtains s e where "svc_run [EvCreate 0] s" "demo_at demo_open s e" "en_pending e" "en_op e = OpFree" "en_proc e = None"
    "vm_st (en_rec e) = StateCreating"
proof -
  have hex: "hex_EncodeToString [0, 0, 0, 0] = ''00000000''" by code_simp
  define s where "s = snd (the (allocate demo_env (\<lambda>_. NoFile) [Some [0, 0, 0, 0]] (Some []) True demo_vspec demo_svc))"
  define e where "e = the (sv_heap s 0)"
  have al: "allocate demo_env (\<lambda>_. NoFile) [Some [0, 0, 0, 0]] (Some []) True demo_vspec demo_svc = Some (Inr 0, s)"
    and at: "demo_at demo_open s e"
    and e: "en_pending e" "en_op e = OpFree" "en_proc e = None" "vm_st (en_rec e) = StateCreating"
    unfolding e_def s_def demo_at_def
    by (simp_all add: allocate_def demo_svc_def Service_New_def entries_def randomHex_def hex fileExists_def demo_env_def
        persist_def Let_def new_entry_def demo_vspec_def map_filter_simps demo_open_def)
  have "svc_run [] demo_svc"
    unfolding svc_run_def using demo_mgr_inv by (intro reach_init) (auto simp: svc_init_def demo_svc_def)
  moreover have "svc_step demo_svc (EvCreate 0) s"
    using al by (rule st_create) (simp_all add: demo_svc_def Service_New_def demo_mgr_def demo_vspec_def)
  ultimately have "svc_run [EvCreate 0] s" by (rule svc_run_step)
  with at e that show thesis by blast
qed

lemma demo_provision:
  assumes "demo_at c s e"
  obtains s' e' where "provision demo_env demo_pio 0 s = (Inr (), s')" "demo_at c s' e'" "vm_ip (en_rec e') = ''10.0.0.2''"
proof -
  have ip: "Addr_String (at_ip (network_attachment demo_vm_net ''00000000'' 0x0A000002)) = ''10.0.0.2''" by code_simp
  define s' where "s' = snd (provision demo_env demo_pio 0 s)"
  define e' where "e' = the (sv_heap s' 0)"
  have "provision demo_env demo_pio 0 s = (Inr (), s')" "demo_at c s' e'" "vm_ip (en_rec e') = ''10.0.0.2''"
    using assms unfolding s'_def e'_def demo_at_def
    by (simp_all add: provision_def demo_pio_def demo_attach Let_def persistNetworks_def ip)
  with that show thesis by blast
qed

lemma demo_process:
  assumes "demo_at c s e"
  obtains s' p where "startProcess demo_sio 0 ph img s = (Inr p, s')" "demo_at c s' e" "pr_phase p = ph" "\<not> pr_timedOut p"
proof -
  obtain ch s1 where sub: "svc_subscribe ph (vm_cid (en_rec e)) s = (ch, s1)" by fastforce
  then have "startProcess demo_sio 0 ph img s =
      (Inr \<lparr>pr_phase = ph, pr_handles = \<lparr>ps_qemu = demo_handle, ps_tpm = demo_handle\<rparr>, pr_notify = ch, pr_timedOut = False\<rparr>, s1)"
    using assms by (simp add: startProcess_def demo_at_def demo_sio_def demo_attach clone_def Let_def start_attempts.simps)
  moreover have "demo_at c s1 e"
    using assms svc_subscribe_frame [OF sub] by (simp add: demo_at_def frame_def)
  ultimately show thesis using that by simp
qed

text \<open>The rest of \<open>Create\<close>, from an allocated VM whatever happened since.\<close>

lemma demo_launch_from:
  assumes s: "svc_run es s" and at: "demo_at c s e" and e: "en_pending e" "en_op e = OpFree"
  obtains s' e' p where "svc_run (EvLaunch 0 False # EvProvision 0 False # EvLaunchLock 0 # es) s'" "demo_at c s' e'"
    "en_op e' = OpFree" "en_proc e' = Some p" "pr_phase p = PhaseInstall" "\<not> pr_timedOut p"
    "vm_st (en_rec e') = StateInstalling" "vm_ip (en_rec e') = ''10.0.0.2''"
proof -
  define s1 where "s1 = put_entry 0 (e\<lparr>en_pending := False, en_op := OpLaunch\<rparr>) s"
  have r1: "svc_run (EvLaunchLock 0 # es) s1"
    using s e at unfolding s1_def by (elim svc_run_step) (auto simp: demo_at_def intro: st_launch_lock)
  have at1: "demo_at c s1 (e\<lparr>en_pending := False, en_op := OpLaunch\<rparr>)"
    using at e unfolding s1_def demo_at_def by auto
  obtain s2 e2 where p2: "provision demo_env demo_pio 0 s1 = (Inr (), s2)" and at2: "demo_at c s2 e2"
    and ip: "vm_ip (en_rec e2) = ''10.0.0.2''"
    using at1 by (metis demo_provision)
  define s3 where "s3 = set_op OpProvisioned 0 s2"
  have "svc_step s1 (EvProvision 0 False) s3"
    using st_provision [OF _ _ p2] at1 unfolding s3_def demo_at_def by simp
  with r1 have r3: "svc_run (EvProvision 0 False # EvLaunchLock 0 # es) s3" by (rule svc_run_step)
  let ?e3 = "e2\<lparr>en_op := OpProvisioned\<rparr>"
  have at3: "demo_at c s3 ?e3"
    using at2 by (simp add: s3_def demo_at_def fun_eq_iff)
  obtain s4 p where p4: "startProcess demo_sio 0 PhaseInstall (Some undefined) s3 = (Inr p, s4)"
    and at4: "demo_at c s4 ?e3" "pr_phase p = PhaseInstall" "\<not> pr_timedOut p"
    using at3 by (metis demo_process)
  define s5 where "s5 = set_op OpFree 0 (launch_commit demo_env p 0 s4)"
  have "svc_step s3 (EvLaunch 0 False) s5"
    using st_launch [OF _ _ p4, of ?e3 demo_env] at3 unfolding s5_def demo_at_def by simp
  with r3 have "svc_run (EvLaunch 0 False # EvProvision 0 False # EvLaunchLock 0 # es) s5" by (rule svc_run_step)
  moreover have "demo_at c s5 ((launched p ?e3)\<lparr>en_op := OpFree\<rparr>)"
    using at4 by (simp add: s5_def demo_at_def launch_commit_def on_entry_def fun_eq_iff)
  ultimately show thesis using at4 ip by (intro that [of s5 "(launched p ?e3)\<lparr>en_op := OpFree\<rparr>"]) simp_all
qed

definition demo_launch :: "svc_event list" where
  "demo_launch = [EvLaunch 0 False, EvProvision 0 False, EvLaunchLock 0, EvCreate 0]"

definition demo_exit :: exit_status where "demo_exit = \<lparr>ex_code = 0, ex_text = []\<rparr>"

definition demo_boot :: "svc_event list" where
  "demo_boot = [EvBoot 0 False, EvHandoff 0 True, EvSupervise 0 (SupExit demo_exit)] @ demo_launch"

lemma demo_installed:
  obtains s e where "svc_run (EvSupervise 0 (SupExit demo_exit) # demo_launch) s" "demo_at demo_open s e"
    "en_op e = OpFree" "en_proc e = None" "vm_st (en_rec e) = StateInstalling" "en_handoff e" "vm_ip (en_rec e) = ''10.0.0.2''"
proof -
  obtain s0 e0 where s0: "svc_run [EvCreate 0] s0" and at0: "demo_at demo_open s0 e0" and e0: "en_pending e0" "en_op e0 = OpFree"
    by (rule demo_created)
  obtain s e p where s: "svc_run demo_launch s" and at: "demo_at demo_open s e"
    and e: "en_op e = OpFree" "en_proc e = Some p" "pr_phase p = PhaseInstall" "\<not> pr_timedOut p"
      "vm_st (en_rec e) = StateInstalling" "vm_ip (en_rec e) = ''10.0.0.2''"
    by (rule demo_launch_from [OF s0 at0 e0]) (simp add: demo_launch_def)
  define s1 where "s1 = onExit demo_env 0 p demo_exit (run_timeout s p) s"
  let ?e1 = "(exited demo_env (run_timeout s p) demo_exit p e)\<lparr>en_handoff := True\<rparr>"
  have "svc_step s (EvSupervise 0 (SupExit demo_exit)) s1"
    using at e by (intro st_supervise [where e = e and p = p and v = demo_env]) (simp_all add: demo_at_def run_round_def s1_def)
  with s have "svc_run (EvSupervise 0 (SupExit demo_exit) # demo_launch) s1" by (rule svc_run_step)
  moreover have "demo_at demo_open s1 ?e1"
    using at e by (simp add: s1_def demo_at_def onExit_def on_entry_def installed_run_def demo_exit_def svc_unsubscribe_def fun_eq_iff)
  ultimately show thesis using e by (intro that [of s1 ?e1]) (simp_all add: installed_run_def demo_exit_def)
qed

lemma demo_booted:
  obtains s e p where "svc_run demo_boot s" "demo_at demo_open s e" "en_op e = OpFree" "en_proc e = Some p"
    "vm_st (en_rec e) = StateBooting" "pr_phase p = PhaseBoot" "vm_ip (en_rec e) = ''10.0.0.2''"
proof -
  obtain s e where s: "svc_run (EvSupervise 0 (SupExit demo_exit) # demo_launch) s" and at: "demo_at demo_open s e"
    and e: "en_op e = OpFree" "en_proc e = None" "vm_st (en_rec e) = StateInstalling" "en_handoff e"
      "vm_ip (en_rec e) = ''10.0.0.2''"
    by (rule demo_installed)
  define s1 where "s1 = set_op OpBoot 0 (clear_handoff 0 s)"
  let ?e1 = "e\<lparr>en_op := OpBoot, en_handoff := False\<rparr>"
  have "boot_check demo_env 0 s = (True, s)"
    using at e by (simp add: boot_check_def demo_at_def demo_open_def)
  then have "svc_step s (EvHandoff 0 True) s1"
    using at e st_handoff [of s 0 e demo_env True s] by (simp add: demo_at_def s1_def)
  note r1 = svc_run_step [OF s this]
  have at1: "demo_at demo_open s1 ?e1"
    using at e by (simp add: s1_def demo_at_def clear_handoff_def on_entry_def fun_eq_iff)
  obtain s2 p where p2: "startProcess demo_sio 0 PhaseBoot None s1 = (Inr p, s2)"
    and at2: "demo_at demo_open s2 ?e1" "pr_phase p = PhaseBoot"
    using at1 by (metis demo_process)
  define s3 where "s3 = set_op OpFree 0 (boot_run demo_env demo_sio 0 s1)"
  have b: "boot_run demo_env demo_sio 0 s1 = boot_commit demo_env p 0 s2"
    by (simp add: boot_run_def startBoot_def p2)
  have "svc_step s1 (EvBoot 0 False) s3"
    using at1 st_boot [of s1 0 ?e1 demo_env demo_sio] by (simp add: s3_def demo_at_def startBoot_def p2)
  with r1 have "svc_run demo_boot s3" unfolding demo_boot_def append_Cons append_Nil by (rule svc_run_step)
  moreover have "demo_at demo_open s3 ((booted demo_env p ?e1)\<lparr>en_op := OpFree\<rparr>)"
    using at2 by (simp add: s3_def b demo_at_def boot_commit_def on_entry_def fun_eq_iff)
  ultimately show thesis using at2 e by (intro that [of s3 "(booted demo_env p ?e1)\<lparr>en_op := OpFree\<rparr>"]) simp_all
qed

lemma demo_stop:
  assumes "demo_at c s e" "en_proc e = Some p" "vm_st (en_rec e) = StateBooting"
  obtains s' where "svc_step s (EvStop 0) s'" "sv_heap s' 0 = Some (marked StateStopping e)" "sv_changed s' = Suc (sv_changed s)"
proof -
  have "Stop_mark demo_env 0 s = (Inr (), commit demo_env 0 (marked StateStopping e) s)"
    using assms by (simp add: Stop_mark_def demo_at_def)
  from st_stop [OF this] that show thesis by simp
qed

lemma demo_attested:
  obtains s e where "svc_run (EvQuote ''00000000'' StageInitrd True # demo_boot) s" "demo_at demo_open s e"
    "LookupByIP s ''10.0.0.2'' = Some (instanceOf e)" "atn_userDataReleased (vm_attestation (en_rec e))"
proof -
  obtain s e p where s: "svc_run demo_boot s" and at: "demo_at demo_open s e" and e: "en_op e = OpFree" "en_proc e = Some p"
    "vm_st (en_rec e) = StateBooting" "vm_ip (en_rec e) = ''10.0.0.2''"
    by (rule demo_booted)
  define q where "q = \<lparr>vq_verified = True, vq_message = undefined, vq_at = 1, vq_akFingerprint = [], vq_pcrs = [], vq_learned = []\<rparr>"
  define s1 where "s1 = recordQuote demo_env ''00000000'' StageInitrd q s"
  let ?e1 = "quoted demo_env StageInitrd q e"
  have "svc_step s (EvQuote ''00000000'' StageInitrd True) s1"
    using st_quote [of s "''00000000''" StageInitrd q demo_env] by (simp add: s1_def q_def)
  with s have r: "svc_run (EvQuote ''00000000'' StageInitrd True # demo_boot) s1" by (rule svc_run_step)
  have at1: "demo_at demo_open s1 ?e1"
    using at by (simp add: s1_def demo_at_def demo_open_def recordQuote_def lookup_def on_entry_def fun_eq_iff)
  moreover have "LookupByIP s1 ''10.0.0.2'' = Some (instanceOf ?e1)"
    using at1 e by (simp add: LookupByIP_def entries_def demo_at_def demo_open_def map_filter_simps)
  ultimately show thesis using r by (intro that [of s1 ?e1]) (simp_all add: q_def ReleasesUserData_def)
qed

end
