(* ===== verification/VM_Safety.thy ===== *)
theory VM_Safety
  imports VM_Invariants VM_Demo
begin

text \<open>
  Properties of the VM service over all interleavings of its operations: which
  states go with a running process, that every state change is documented, when
  user-data is released, that waiters are woken, that the handoff between the two
  boots makes progress, and what a shutdown leaves running.
\<close>

section \<open>Processes\<close>

lemma run_entry_inv: "svc_run es s \<Longrightarrow> sv_heap s a = Some e \<Longrightarrow> entry_inv e"
  using entry_invariance [of es s entry_inv] new_entry_inv entry_inv_change by blast

lemma run_ids_ok: "svc_run es s \<Longrightarrow> ids_ok s"
  using entry_invariance [of es s entry_inv] new_entry_inv entry_inv_change by blast



section \<open>State changes\<close>

text \<open>The transitions of the package documentation, by what causes them.  A \<open>Start\<close> that
  fails leaves a stopped VM failed.\<close>

definition live :: "lifecycle set" where
  "live = {StateInstalling, StateBooting, StateAttesting, StateReady', StateRunning}"

fun transition :: "svc_event \<Rightarrow> lifecycle \<Rightarrow> lifecycle \<Rightarrow> bool" where
  "transition (EvLaunch _ _) st st' \<longleftrightarrow> st = StateCreating \<and> st' = StateInstalling"
| "transition (EvStart _ f) st st' \<longleftrightarrow>
     st \<in> {StateInstalling, StateStopped, StateFailed} \<and> st' = (if f then StateFailed else StateBooting)"
| "transition (EvStop _) st st' \<longleftrightarrow> st \<in> live \<and> st' = StateStopping"
| "transition (EvVisit _) st st' \<longleftrightarrow> st \<in> live \<and> st' = StateStopping"
| "transition (EvSupervise _ (SupExit x)) st st' \<longleftrightarrow>
     st = StateStopping \<and> st' = StateStopped \<or>
     st = StateInstalling \<and> st' = StateFailed \<or>
     st \<in> live - {StateInstalling} \<and> st' = (if ex_code x = 0 then StateStopped else StateFailed)"
| "transition (EvSupervise _ SupNotify) st st' \<longleftrightarrow> st \<in> {StateBooting, StateAttesting, StateRunning} \<and> st' = StateReady'"
| "transition (EvSupervise _ SupTimeout) st st' \<longleftrightarrow> st \<in> {StateBooting, StateAttesting} \<and> st' = StateRunning"
| "transition (EvHandoff _ ok) st st' \<longleftrightarrow> \<not> ok \<and> st = StateInstalling \<and> st' = StateStopped"
| "transition (EvBoot _ _) st st' \<longleftrightarrow> st = StateInstalling \<and> st' \<in> {StateBooting, StateFailed}"
| "transition (EvDelete _) st st' \<longleftrightarrow> st' = StateDeleting"
| "transition (EvNonce _) st st' \<longleftrightarrow> st = StateBooting \<and> st' = StateAttesting"
| "transition _ st st' \<longleftrightarrow> False"

lemma rels_st:
  "prov_rel e e' \<Longrightarrow> vm_st (en_rec e') = vm_st (en_rec e)"
  "cid_rel e e' \<Longrightarrow> vm_st (en_rec e') = vm_st (en_rec e)"
  "vol_rel e e' \<Longrightarrow> vm_st (en_rec e') = vm_st (en_rec e)"
  by (auto simp: prov_rel_def cid_rel_def vol_rel_def)

lemma rels_fields:
  "prov_rel e e' \<Longrightarrow> vm_installedAt (en_rec e') = vm_installedAt (en_rec e)"
  "cid_rel e e' \<Longrightarrow> vm_installedAt (en_rec e') = vm_installedAt (en_rec e)"
  "vol_rel e e' \<Longrightarrow> vm_installedAt (en_rec e') = vm_installedAt (en_rec e)"
  by (auto simp: prov_rel_def cid_rel_def vol_rel_def)

definition start_inv :: "entry \<Rightarrow> bool" where
  "start_inv e \<longleftrightarrow>
     (vm_st (en_rec e) = StateCreating \<longrightarrow> vm_installedAt (en_rec e) = None) \<and>
     (en_op e = OpStart \<longrightarrow> vm_st (en_rec e) \<noteq> StateDeleting)"

lemma start_inv_change: "vm_change c a ev e e' \<Longrightarrow> start_inv e \<Longrightarrow> start_inv e'"
  by (erule vm_change.cases) (simp_all add: start_inv_def installed_run_def rels_st rels_fields split: if_splits)

lemma inv_states:
  assumes "entry_inv e"
  shows "en_proc e \<noteq> None \<Longrightarrow> vm_st (en_rec e) \<in> live \<union> {StateStopping, StateDeleting}"
    and "en_op e = OpProvisioned \<Longrightarrow> vm_st (en_rec e) \<in> {StateCreating, StateDeleting}"
    and "en_op e = OpBoot \<Longrightarrow> vm_st (en_rec e) = StateInstalling"
    and "en_op e = OpStart \<Longrightarrow> start_inv e \<Longrightarrow> vm_st (en_rec e) \<in> {StateInstalling, StateStopped, StateFailed}"
    and "en_proc e = Some p \<Longrightarrow> vm_st (en_rec e) = StateInstalling \<Longrightarrow> pr_phase p = PhaseInstall"
proof -
  show "en_proc e \<noteq> None \<Longrightarrow> vm_st (en_rec e) \<in> live \<union> {StateStopping, StateDeleting}"
    using assms by (auto simp: entry_inv_def proc_inv_def proc_states_def live_def split: phase.splits)
  show "en_op e = OpProvisioned \<Longrightarrow> vm_st (en_rec e) \<in> {StateCreating, StateDeleting}"
    using assms op_idle [OF assms] by (simp add: entry_inv_simps idle_inv_def in_create_def)
  show "en_op e = OpBoot \<Longrightarrow> vm_st (en_rec e) = StateInstalling"
    using assms op_idle [OF assms] by (simp add: entry_inv_simps idle_inv_def)
  show "en_op e = OpStart \<Longrightarrow> start_inv e \<Longrightarrow> vm_st (en_rec e) \<in> {StateInstalling, StateStopped, StateFailed}"
    using assms op_idle [OF assms] by (auto simp: entry_inv_simps idle_inv_def idle_states_def start_inv_def)
  show "en_proc e = Some p \<Longrightarrow> vm_st (en_rec e) = StateInstalling \<Longrightarrow> pr_phase p = PhaseInstall"
    using assms by (auto simp: entry_inv_simps proc_inv_def proc_states_def split: phase.splits)
qed

lemma change_transition:
  assumes ch: "vm_change c a ev e e'" and inv: "entry_inv e" and start: "start_inv e" and ne: "vm_st (en_rec e') \<noteq> vm_st (en_rec e)"
  shows "transition ev (vm_st (en_rec e)) (vm_st (en_rec e')) \<or>
    ev = EvLaunch a False \<and> vm_st (en_rec e) = StateDeleting \<and> vm_st (en_rec e') = StateInstalling"
  using ch
proof (cases rule: vm_change.cases)
  case (ch_launch e1 p)
  then show ?thesis using inv_states(2) [OF inv] by (auto simp: rels_st)
next
  case (ch_start e1 e2 p v)
  then show ?thesis using inv_states(4) [OF inv] start by (auto simp: rels_st)
next
  case (ch_start_failed e1 e2 er)
  then show ?thesis using inv_states(4) [OF inv] start by (auto simp: rels_st)
next
  case (ch_boot e1 p v)
  then show ?thesis using inv_states(3) [OF inv] by (auto simp: rels_st)
next
  case (ch_boot_failed e1 er)
  then show ?thesis using inv_states(3) [OF inv] by (auto simp: rels_st)
next
  case (ch_exit p x v t)
  then show ?thesis using inv_states(1,5) [OF inv] ne by (auto split: if_splits)
next
  case ch_stop
  then show ?thesis using inv_states(1) [OF inv] ne by auto
next
  case ch_visit
  then show ?thesis using inv_states(1) [OF inv] ne by auto
qed (use ne in \<open>simp_all add: rels_st split: if_splits\<close>)

lemma create_allocate:
  assumes "svc_step s (EvCreate a) s'"
  obtains v fs draws machine mkdir sp where "allocate v fs draws machine mkdir sp s = Some (Inr a, s')"
    "\<And>b e. sv_heap s b = Some e \<Longrightarrow> newID fs draws s \<noteq> Some (Inr (vm_id (en_rec e)))"
    "map_of (mg_nets (sv_nets s)) (vsp_network sp) \<noteq> None"
  using assms by (auto elim: svc_step.cases)

lemma step_change:
  assumes ids: "ids_ok s" and step: "svc_step s ev s'" and e: "sv_heap s a = Some e"
  obtains e' where "sv_heap s' a = Some e'" "e' = e \<or> vm_change (sv_closing s) a ev e e'"
proof (cases "\<exists>b. ev = EvCreate b")
  case True
  with step obtain b v fs draws machine mkdir sp where
    al: "allocate v fs draws machine mkdir sp s = Some (Inr b, s')" by (metis create_allocate)
  have "a < sv_next s" using ids e by (auto simp: ids_ok_def)
  with al e that show ?thesis by (elim allocate_cases) auto
next
  case False
  with svc_step_heap [OF ids step] have "heap_change s ev s'" by blast
  then show ?thesis unfolding heap_change_def
  proof (elim disjE exE conjE)
    assume "sv_heap s' = sv_heap s"
    with e that show ?thesis by simp
  next
    fix b d d'
    assume "sv_heap s b = Some d" "sv_heap s' = (sv_heap s)(b := Some d')" "vm_change (sv_closing s) b ev d d'"
    with e that show ?thesis by (cases "a = b") auto
  qed
qed

lemma step_new:
  assumes ids: "ids_ok s" and step: "svc_step s ev s'" and new: "sv_heap s a = None" "sv_heap s' a = Some e'"
  obtains now i m sp where "e' = new_entry s now i m sp" "ev = EvCreate a"
proof (cases "\<exists>b. ev = EvCreate b")
  case True
  with step obtain b v fs draws machine mkdir sp where
    al: "ev = EvCreate b" "allocate v fs draws machine mkdir sp s = Some (Inr b, s')" by (metis create_allocate)
  from al(2) show ?thesis
  proof (rule allocate_cases)
    fix i m
    assume "sv_heap s' = (sv_heap s)(b := Some (new_entry s (ev_now v) i m sp))"
    with new al that show ?thesis by (cases "a = b") auto
  qed
next
  case False
  with svc_step_heap [OF ids step] have "heap_change s ev s'" by blast
  with new have False by (auto simp: heap_change_def split: if_splits)
  then show ?thesis ..
qed

lemma new_start_inv: "start_inv (new_entry s now i m sp)"
  by (simp add: start_inv_def new_entry_def)

lemma run_start_inv: "svc_run es s \<Longrightarrow> sv_heap s a = Some e \<Longrightarrow> start_inv e"
  using entry_invariance [of es s start_inv] new_start_inv start_inv_change by blast



lemma start_op:
  "svc_step s (EvStart a f) s' \<Longrightarrow> sv_heap s a = Some e \<Longrightarrow> sv_heap s' a = Some e' \<Longrightarrow> en_op e = OpStart \<and> en_op e' = OpFree"
  "svc_step s (EvBoot a f) s' \<Longrightarrow> sv_heap s a = Some e \<Longrightarrow> sv_heap s' a = Some e' \<Longrightarrow> en_op e = OpBoot \<and> en_op e' = OpFree"
  by (erule svc_step.cases; auto)+

text \<open>An invariant of an entry that depends on the events so far.\<close>

lemma entry_history:
  assumes run: "svc_run es s"
    and init: "\<And>es a s now i m sp. P (EvCreate a # es) a (new_entry s now i m sp)"
    and step: "\<And>es c a ev e e'. P es a e \<Longrightarrow> entry_inv e \<Longrightarrow> vm_change c a ev e e' \<Longrightarrow> P (ev # es) a e'"
    and keep: "\<And>es a ev e. P es a e \<Longrightarrow> \<forall>f. ev \<noteq> EvStart a f \<and> ev \<noteq> EvBoot a f \<Longrightarrow> P (ev # es) a e"
  shows "\<forall>a e. sv_heap s a = Some e \<longrightarrow> P es a e"
  using run unfolding svc_run_def
proof (induction rule: reachable.induct)
  case (reach_init s)
  then show ?case by (auto simp: svc_init_def Service_New_def)
next
  case (reach_step es s ev s')
  have run: "svc_run es s" using reach_step.hyps(1) by (simp add: svc_run_def)
  have st: "svc_step s ev s'" by (rule reach_step.hyps(2))
  show ?case
  proof (intro allI impI)
    fix a e'
    assume e': "sv_heap s' a = Some e'"
    show "P (ev # es) a e'"
    proof (cases "sv_heap s a")
      case None
      then obtain now i m sp where "e' = new_entry s now i m sp" "ev = EvCreate a"
        using step_new [OF run_ids_ok [OF run] st _ e'] by blast
      with init show ?thesis by simp
    next
      case (Some e)
      then have P: "P es a e" using reach_step.IH by blast
      consider "vm_change (sv_closing s) a ev e e'" | "e' = e"
        using step_change [OF run_ids_ok [OF run] st Some] e' by (metis option.inject)
      then show ?thesis
      proof cases
        case 1
        with P run_entry_inv [OF run Some] show ?thesis by (rule step)
      next
        case 2
        have "\<forall>f. ev \<noteq> EvStart a f \<and> ev \<noteq> EvBoot a f"
          using start_op [of s a _ s' e e'] st Some e' 2 by fastforce
        with P 2 keep show ?thesis by blast
      qed
    qed
  qed
qed


section \<open>User-data\<close>

text \<open>A verified initrd quote since the VM was last started.\<close>

fun quoted_since :: "nat \<Rightarrow> string \<Rightarrow> svc_event list \<Rightarrow> bool" where
  "quoted_since a i [] \<longleftrightarrow> False"
| "quoted_since a i (ev # es) \<longleftrightarrow>
     ev = EvQuote i StageInitrd True \<or> (ev \<noteq> EvStart a False \<and> ev \<noteq> EvBoot a False \<and> quoted_since a i es)"

definition released_inv :: "svc_event list \<Rightarrow> nat \<Rightarrow> entry \<Rightarrow> bool" where
  "released_inv es a e \<longleftrightarrow>
     (vsp_requireAttestation (vm_spec' (en_rec e)) \<and> atn_userDataReleased (vm_attestation (en_rec e)) \<longrightarrow>
      quoted_since a (vm_id (en_rec e)) es)"

lemma rels_attestation:
  "prov_rel e e' \<Longrightarrow> vm_attestation (en_rec e') = vm_attestation (en_rec e)"
  "cid_rel e e' \<Longrightarrow> vm_attestation (en_rec e') = vm_attestation (en_rec e)"
  "vol_rel e e' \<Longrightarrow> vm_attestation (en_rec e') = vm_attestation (en_rec e)"
  "prov_rel e e' \<Longrightarrow> vm_spec' (en_rec e') = vm_spec' (en_rec e)"
  "cid_rel e e' \<Longrightarrow> vm_spec' (en_rec e') = vm_spec' (en_rec e)"
  "vol_rel e e' \<Longrightarrow> vm_spec' (en_rec e') = vm_spec' (en_rec e)"
  "prov_rel e e' \<Longrightarrow> vm_id (en_rec e') = vm_id (en_rec e)"
  "cid_rel e e' \<Longrightarrow> vm_id (en_rec e') = vm_id (en_rec e)"
  "vol_rel e e' \<Longrightarrow> vm_id (en_rec e') = vm_id (en_rec e)"
  by (auto simp: prov_rel_def cid_rel_def vol_rel_def)

lemma released_change:
  "released_inv es a e \<Longrightarrow> vm_change c a ev e e' \<Longrightarrow> released_inv (ev # es) a e'"
  by (erule vm_change.cases) (simp_all add: released_inv_def ReleasesUserData_def rels_attestation split: if_splits, blast)

lemma new_released: "released_inv (EvCreate a # es) a (new_entry s now i m sp)"
  by (simp add: released_inv_def new_entry_def)

lemma released_keep:
  "released_inv es a e \<Longrightarrow> \<forall>f. ev \<noteq> EvStart a f \<and> ev \<noteq> EvBoot a f \<Longrightarrow> released_inv (ev # es) a e"
  by (simp add: released_inv_def)

lemma released_lookup:
  assumes "svc_run es s" "LookupByIP s addr = Some inst" "in_userDataReleased inst"
  shows "\<exists>a e. sv_heap s a = Some e \<and> inst = instanceOf e \<and> vm_ip (en_rec e) = addr \<and> vm_st (en_rec e) \<noteq> StateDeleting \<and>
    (vsp_requireAttestation (vm_spec' (en_rec e)) \<longrightarrow> quoted_since a (in_id inst) es)"
proof -
  obtain e where e: "e \<in> set (entries s)" "inst = instanceOf e" "vm_ip (en_rec e) = addr" "vm_st (en_rec e) \<noteq> StateDeleting"
    using assms(2) unfolding LookupByIP_def by (auto dest!: find_SomeD)
  then obtain a where a: "sv_heap s a = Some e" by (auto simp: entries_def map_filter_def)
  have "\<forall>a e. sv_heap s a = Some e \<longrightarrow> released_inv es a e"
    using entry_history [OF assms(1), of released_inv] new_released released_change released_keep by blast
  with a e assms(3) show ?thesis by (auto simp: released_inv_def instanceOf_def Let_def clone_def)
qed



section \<open>Waiters\<close>

definition milestone :: "vm \<Rightarrow> lifecycle \<times> timestamp option \<times> timestamp option \<times> timestamp option \<times> attestation" where
  "milestone v = (vm_st v, vm_installedAt v, vm_bootedAt v, vm_readyAt v, vm_attestation v)"

definition wakes :: "service \<Rightarrow> service \<Rightarrow> bool" where
  "wakes s s' \<longleftrightarrow> sv_changed s' = Suc (sv_changed s) \<or>
     (\<forall>a e. sv_heap s a = Some e \<longrightarrow> (\<exists>e'. sv_heap s' a = Some e' \<and> milestone (en_rec e') = milestone (en_rec e)))"

lemma wakes_same: "sv_heap s' = sv_heap s \<Longrightarrow> wakes s s'"
  by (simp add: wakes_def)

lemma milestone_reached: "milestone v = milestone v' \<Longrightarrow> reached w v = reached w v'"
  by (simp add: milestone_def reached_def)

lemma rels_milestone:
  "prov_rel e e' \<Longrightarrow> milestone (en_rec e') = milestone (en_rec e)"
  "cid_rel e e' \<Longrightarrow> milestone (en_rec e') = milestone (en_rec e)"
  "vol_rel e e' \<Longrightarrow> milestone (en_rec e') = milestone (en_rec e)"
  by (auto simp: milestone_def prov_rel_def cid_rel_def vol_rel_def)

lemma wakes_supervise:
  assumes "sv_heap s a = Some e" "en_proc e = Some p" "run_round v ev a p s = Some s'"
  shows "wakes s s'"
proof (cases ev)
  case (SupExit x)
  with assms have "s' = onExit v a p x (run_timeout s p) s" by (simp add: run_round_def)
  with assms show ?thesis by (simp add: onExit_def on_entry_def wakes_def)
next
  case SupTimeout
  with assms have "s' = onTimeout v a p (run_timeout s p) s" by (simp add: run_round_def)
  with assms show ?thesis by (simp add: onTimeout_def on_entry_def wakes_def)
next
  case SupNotify
  with assms show ?thesis
    by (auto simp: run_round_def onNotify_def on_entry_def wakes_def split: option.splits prod.splits)
qed

lemma wakes_start:
  assumes "sv_heap s a = Some e" "Start_run v acquired io a s = (r, s')"
  shows "wakes s (set_op OpFree a s')"
proof -
  obtain r1 s1 where vol: "openVolume acquired a s = (r1, s1)" by fastforce
  obtain e1 where e1: "sv_heap s1 = (sv_heap s)(a := Some e1)" "vol_rel e e1"
    using touches_Some [OF openVolume_touches(1) [OF vol] assms(1)] by blast
  obtain r2 s2 where st: "startBoot v io a s1 = (r2, s2)" by fastforce
  show ?thesis
  proof (cases r1)
    case (Inl er)
    with assms vol have "s' = s1" by (auto simp: Start_run_def)
    with e1 assms show ?thesis by (auto simp: wakes_def rels_milestone)
  next
    case (Inr u)
    have "sv_heap s1 a = Some e1" using e1 by simp
    with st show ?thesis
      by (rule startBoot_cases)
        (use assms vol st Inr openVolume_touches(3) [OF vol] in \<open>auto simp: Start_run_def fail_def on_entry_def wakes_def\<close>)
  qed
qed

lemma wakes_boot:
  assumes "sv_heap s a = Some e"
  shows "wakes s (set_op OpFree a (boot_run v io a s))"
proof -
  obtain r2 s2 where st: "startBoot v io a s = (r2, s2)" by fastforce
  from st assms show ?thesis
    by (rule startBoot_cases) (use st in \<open>auto simp: boot_run_def fail_def on_entry_def wakes_def\<close>)
qed

lemma wakes_launch:
  assumes "sv_heap s a = Some e" "startProcess io a PhaseInstall (Some img) s = (r, s')"
  shows "wakes s (case r of Inl _ \<Rightarrow> set_op OpDiscard a s' | Inr p \<Rightarrow> set_op OpFree a (launch_commit v p a s'))"
proof -
  obtain e1 where e1: "sv_heap s' = (sv_heap s)(a := Some e1)" "cid_rel e e1"
    using touches_Some [OF startProcess_touches(1) [OF assms(2)] assms(1)] by blast
  show ?thesis
  proof (cases r)
    case (Inl er)
    with e1 assms show ?thesis by (auto simp: wakes_def rels_milestone)
  next
    case (Inr p)
    with e1 startProcess_touches(2) [OF assms(2)] show ?thesis by (simp add: launch_commit_def on_entry_def wakes_def)
  qed
qed

lemma step_wakes:
  assumes ids: "ids_ok s" and step: "svc_step s ev s'"
  shows "wakes s s'"
  using step
proof (cases rule: svc_step.cases)
  case (st_create v fs draws machine mkdir sp a)
  from st_create(2) show ?thesis
    by (rule allocate_cases) (use ids in \<open>auto simp: wakes_def ids_ok_def\<close>)
next
  case (st_launch_lock a e)
  then show ?thesis by (auto simp: wakes_def)
next
  case (st_provision a e v io r s1)
  obtain e1 where "sv_heap s1 = (sv_heap s)(a := Some e1)" "prov_rel e e1"
    using touches_Some [OF provision_touches st_provision(3)] st_provision by blast
  with st_provision show ?thesis by (auto simp: wakes_def rels_milestone)
next
  case (st_launch a e io img r s1 v)
  with wakes_launch show ?thesis by simp
next
  case (st_start a e v acquired io r s1)
  with wakes_start show ?thesis by simp
next
  case (st_supervise a e p v sev)
  then show ?thesis using wakes_supervise by blast
next
  case (st_boot a e v io)
  with wakes_boot show ?thesis by simp
next
  case (st_stop v a)
  then show ?thesis by (auto simp: Stop_mark_def wakes_def split: if_splits option.splits)
next
  case (st_delete a e v s1)
  then show ?thesis by (auto simp: Delete_mark_def wakes_def split: if_splits option.splits)
next
  case (st_handoff a e v ok s1)
  then show ?thesis
    by (auto simp: boot_check_def clear_handoff_def on_entry_def wakes_def Let_def split: if_splits option.splits)
next
  case (st_visit a e v)
  then show ?thesis
    by (auto simp: close_visit_def Stop_mark_def wakes_def Let_def split: if_splits option.splits sum.splits prod.splits)
next
  case (st_report w i rep r)
  then show ?thesis by (auto simp: StoreReport_def on_entry_def wakes_def Let_def split: option.splits sum.splits)
next
  case (st_create_network c spec r)
  then show ?thesis using network_heap by (blast intro: wakes_same)
next
  case (st_delete_network c name r)
  then show ?thesis using network_heap(2) [of c name s r s'] by (blast intro: wakes_same)
qed (auto simp: wakes_def Close_start_def Close_cancel_def onNonce_def recordQuote_def on_entry_def split: sum.splits option.splits)

text \<open>
  C13. No wakeup is lost: a step that changes what \<open>waitFor\<close> would answer for a VM, for
  any milestone, also closes the channel its waiters block on.
\<close>

theorem no_lost_wakeup:
  assumes "svc_run es s" "svc_step s ev s'" "sv_heap s a = Some e" "sv_heap s' a = Some e'"
    "reached w (en_rec e') \<noteq> reached w (en_rec e)"
  shows "sv_changed s' = Suc (sv_changed s)"
  using step_wakes [OF run_ids_ok [OF assms(1)] assms(2)] assms(3-) milestone_reached
  unfolding wakes_def by (metis option.inject)

theorem no_lost_wakeup_witness:
  "\<exists>s s' e e'. svc_run demo_boot s \<and> svc_step s (EvStop 0) s' \<and> sv_heap s 0 = Some e \<and> sv_heap s' 0 = Some e' \<and>
     reached WaitReady (en_rec e') \<noteq> reached WaitReady (en_rec e) \<and> sv_changed s' = Suc (sv_changed s)"
proof -
  obtain s e p where s: "svc_run demo_boot s" and at: "demo_at demo_open s e" and e: "en_proc e = Some p" "vm_st (en_rec e) = StateBooting"
    by (rule demo_booted)
  obtain s' where s': "svc_step s (EvStop 0) s'" "sv_heap s' 0 = Some (marked StateStopping e)"
    using demo_stop [OF at e] by blast
  have h: "sv_heap s 0 = Some e" using at by (simp add: demo_at_def)
  have ne: "reached WaitReady (en_rec (marked StateStopping e)) \<noteq> reached WaitReady (en_rec e)"
    using e by (simp add: reached_def WaitReady_def WaitInstalled_def WaitAttested_def)
  from no_lost_wakeup [OF s s'(1) h s'(2) ne] s s' h ne show ?thesis by blast
qed

section \<open>From the installer to the first boot\<close>

definition handoff_rank :: "entry \<Rightarrow> nat" where
  "handoff_rank e = (if en_op e = OpBoot then 0 else if en_op e = OpFree then 1 else 2)"

definition own_step :: "nat \<Rightarrow> svc_event \<Rightarrow> bool" where
  "own_step a ev \<longleftrightarrow> (\<exists>f. ev = EvHandoff a f \<or> ev = EvBoot a f \<or> ev = EvStart a f) \<or> ev = EvVisited a"

lemma handoff_enabled:
  assumes inv: "entry_inv e" and e: "sv_heap s a = Some e" "vm_st (en_rec e) = StateInstalling" "en_proc e = None"
  shows "\<exists>ev s'. own_step a ev \<and> svc_step s ev s'"
proof -
  have *: "en_handoff e \<or> en_op e = OpBoot" "en_op e \<notin> {OpLaunch, OpProvisioned, OpDiscard, OpDelete, OpTorn}"
    using inv e by (auto simp: entry_inv_simps idle_inv_def base_inv_def in_create_def)
  obtain r s1 where run: "Start_run undefined undefined undefined a s = (r, s1)" by fastforce
  obtain ok s2 where check: "boot_check undefined a s = (ok, s2)" by fastforce
  from * consider "en_op e = OpBoot" | "en_op e = OpFree" "en_handoff e" | "en_op e = OpStart" | "en_op e = OpClose"
    by (cases "en_op e") auto
  then show ?thesis
  proof cases
    case 1
    from st_boot [OF e(1) this] show ?thesis by (auto simp: own_step_def)
  next
    case 2
    from st_handoff [OF e(1) this(2,1) check] show ?thesis by (auto simp: own_step_def)
  next
    case 3
    from st_start [OF e(1) this run] show ?thesis by (auto simp: own_step_def)
  next
    case 4
    from st_visited [OF e(1) this e(3)] show ?thesis by (auto simp: own_step_def)
  qed
qed

lemma handoff_decreases:
  assumes "vm_change c a ev e e'" "own_step a ev" "entry_inv e" "vm_st (en_rec e) = StateInstalling" "en_proc e = None"
  shows "vm_st (en_rec e') \<in> {StateBooting, StateStopped, StateFailed} \<or>
    vm_st (en_rec e') = StateInstalling \<and> en_proc e' = None \<and> handoff_rank e' < handoff_rank e"
  using assms
  by (cases rule: vm_change.cases) (simp_all add: own_step_def handoff_rank_def)

lemma handoff_op:
  "svc_step s (EvVisited a) s' \<Longrightarrow> sv_heap s a = Some e \<Longrightarrow> sv_heap s' a = Some e' \<Longrightarrow> en_op e = OpClose \<and> en_op e' = OpFree"
  "svc_step s (EvHandoff a f) s' \<Longrightarrow> sv_heap s a = Some e \<Longrightarrow> sv_heap s' a = Some e' \<Longrightarrow> en_handoff e \<and> \<not> en_handoff e'"
  by (erule svc_step.cases; auto simp: clear_handoff_def on_entry_def split: option.splits)+

lemma own_step_changes:
  assumes "svc_step s ev s'" "own_step a ev" "sv_heap s a = Some e" "sv_heap s' a = Some e'"
  shows "e' \<noteq> e"
  using assms(2) unfolding own_step_def
proof (elim disjE exE)
  fix f
  assume "ev = EvHandoff a f"
  then show ?thesis using handoff_op(2) [of s a f s' e e'] assms by auto
next
  fix f
  assume "ev = EvBoot a f"
  then show ?thesis using start_op(2) [of s a f s' e e'] assms by auto
next
  fix f
  assume "ev = EvStart a f"
  then show ?thesis using start_op(1) [of s a f s' e e'] assms by auto
next
  assume "ev = EvVisited a"
  then show ?thesis using handoff_op(1) [of s a s' e e'] assms by auto
qed

text \<open>
  C12. The handoff from the installer to the first boot cannot get stuck.  An installed
  VM that is still installing and has no process always has a step of its own enabled,
  and each such step starts its boot, leaves it stopped or failed, or lowers a rank, so
  at most three of them are needed.
\<close>

theorem handoff_progress:
  assumes run: "svc_run es s" and e: "sv_heap s a = Some e" "vm_st (en_rec e) = StateInstalling" "en_proc e = None"
  shows "(\<exists>ev s'. own_step a ev \<and> svc_step s ev s') \<and>
    (\<forall>ev s'. own_step a ev \<and> svc_step s ev s' \<longrightarrow>
       (\<exists>e'. sv_heap s' a = Some e' \<and>
          (vm_st (en_rec e') \<in> {StateBooting, StateStopped, StateFailed} \<or>
           vm_st (en_rec e') = StateInstalling \<and> en_proc e' = None \<and> handoff_rank e' < handoff_rank e)))"
proof (intro conjI allI impI)
  show "\<exists>ev s'. own_step a ev \<and> svc_step s ev s'" by (rule handoff_enabled [OF run_entry_inv [OF run e(1)] e])
next
  fix ev s'
  assume st: "own_step a ev \<and> svc_step s ev s'"
  obtain e' where e': "sv_heap s' a = Some e'" "e' = e \<or> vm_change (sv_closing s) a ev e e'"
    using step_change [OF run_ids_ok [OF run] conjunct2 [OF st] e(1)] by blast
  then have "vm_change (sv_closing s) a ev e e'" using own_step_changes st e by blast
  from handoff_decreases [OF this conjunct1 [OF st] run_entry_inv [OF run e(1)] e(2,3)] e'(1)
  show "\<exists>e'. sv_heap s' a = Some e' \<and> (vm_st (en_rec e') \<in> {StateBooting, StateStopped, StateFailed} \<or>
           vm_st (en_rec e') = StateInstalling \<and> en_proc e' = None \<and> handoff_rank e' < handoff_rank e)" by blast
qed


theorem handoff_progress_witness:
  "\<exists>s e. svc_run (EvSupervise 0 (SupExit demo_exit) # demo_launch) s \<and> sv_heap s 0 = Some e \<and>
     vm_st (en_rec e) = StateInstalling \<and> en_proc e = None \<and> (\<exists>ev s'. own_step 0 ev \<and> svc_step s ev s')"
proof -
  obtain s e where s: "svc_run (EvSupervise 0 (SupExit demo_exit) # demo_launch) s" and at: "demo_at demo_open s e"
    and e: "vm_st (en_rec e) = StateInstalling" "en_proc e = None"
    by (rule demo_installed)
  have h: "sv_heap s 0 = Some e" using at by (simp add: demo_at_def)
  from handoff_progress [OF s h e] s h e show ?thesis by blast
qed

section \<open>Shutdown\<close>

definition launched_since :: "nat \<Rightarrow> svc_event list \<Rightarrow> bool" where
  "launched_since a es \<longleftrightarrow> EvLaunch a False \<in> set (takeWhile (\<lambda>ev. ev \<noteq> EvShutdown) es)"

definition active :: "entry \<Rightarrow> bool" where
  "active e \<longleftrightarrow> en_proc e \<noteq> None \<or> en_op e \<in> {OpStart, OpBoot}"

definition mapped :: "service \<Rightarrow> nat \<Rightarrow> entry \<Rightarrow> bool" where
  "mapped s a e \<longleftrightarrow> sv_heap s a = Some e \<and> map_of (sv_vms s) (vm_id (en_rec e)) = Some a"

definition close_inv :: "svc_event list \<Rightarrow> service \<Rightarrow> bool" where
  "close_inv es s \<longleftrightarrow>
     (\<forall>a e. mapped s a e \<and> vm_st (en_rec e) = StateDeleting \<longrightarrow> en_op e \<in> {OpDelete, OpTorn}) \<and>
     (sv_closing s \<and> \<not> op_detachOnClose (sv_opts s) \<longrightarrow>
      (\<forall>a e. mapped s a e \<and> active e \<longrightarrow> a \<in> set (sv_toStop s) \<or> launched_since a es))"

lemma active_change: "vm_change True a ev e e' \<Longrightarrow> active e' \<Longrightarrow> active e \<or> ev = EvLaunch a False"
  by (erule vm_change.cases) (auto simp: active_def rec_rels split: if_splits)

lemma deleting_change:
  "vm_change c a ev e e' \<Longrightarrow> vm_st (en_rec e') = StateDeleting \<Longrightarrow>
     (vm_st (en_rec e) = StateDeleting \<longrightarrow> en_op e \<in> {OpDelete, OpTorn}) \<Longrightarrow> en_op e' \<in> {OpDelete, OpTorn} \<or> ev = EvDrop a"
  by (erule vm_change.cases) (simp_all add: rels_st split: if_splits)

lemma step_mapped:
  assumes ids: "ids_ok s" and step: "svc_step s ev s'" and m: "mapped s' a e'"
  obtains (new) now i m sp where "ev = EvCreate a" "e' = new_entry s now i m sp"
    | (old) e where "mapped s a e" "e' = e \<or> vm_change (sv_closing s) a ev e e'"
proof (cases "sv_heap s a")
  case None
  with m step_new [OF ids step None] that(1) show ?thesis by (metis mapped_def)
next
  case (Some e)
  obtain e1 where e1: "sv_heap s' a = Some e1" "e1 = e \<or> vm_change (sv_closing s) a ev e e1"
    using step_change [OF ids step Some] by blast
  with m have e': "e1 = e'" by (simp add: mapped_def)
  have id: "vm_id (en_rec e') = vm_id (en_rec e)" using e1(2) vm_change_id e' by blast
  have nc: "ev \<noteq> EvCreate a"
  proof
    assume "ev = EvCreate a"
    with step Some ids show False by (auto elim!: create_allocate allocate_cases simp: ids_ok_def)
  qed
  have "map_of (sv_vms s) (vm_id (en_rec e)) = Some a"
    using step_frame [OF step] m id nc
    by (auto simp: frame_def mapped_def Close_start_def Close_cancel_def close_visit_frame split: if_splits elim!: allocate_cases)
  with Some e1 e' that(2) show ?thesis by (auto simp: mapped_def)
qed


lemma drop_unmaps: "svc_step s (EvDrop a) s' \<Longrightarrow> \<not> mapped s' a e"
  by (erule svc_step.cases; auto simp: mapped_def)

lemma toStop_step:
  assumes ids: "ids_ok s" and step: "svc_step s ev s'" and a: "a \<in> set (sv_toStop s)" and ne: "ev \<noteq> EvShutdown"
    and m: "mapped s a e" "mapped s' a e'" "active e'" and del: "vm_st (en_rec e) = StateDeleting \<Longrightarrow> en_op e \<in> {OpDelete, OpTorn}"
    and det: "\<not> op_detachOnClose (sv_opts s)"
  shows "a \<in> set (sv_toStop s')"
  using step
proof (cases rule: svc_step.cases)
  case (st_visit b d v)
  show ?thesis
  proof (cases "b = a")
    case True
    with st_visit m have "d = e" by (simp add: mapped_def)
    then show ?thesis using st_visit True m del det a
      by (auto simp: close_visit_def mapped_def lookup_def Stop_mark_def active_def Let_def split: if_splits)
  next
    case False
    with st_visit a show ?thesis
      by (auto simp: close_visit_def Stop_mark_def Let_def split: if_splits option.splits sum.splits prod.splits)
  qed
next
  case (st_visited b d)
  with m a show ?thesis by (cases "b = a") (auto simp: mapped_def active_def)
qed (use step_frame [OF step] a ne in \<open>auto simp: frame_def Close_cancel_def elim!: allocate_cases\<close>)


lemma step_closing:
  assumes "svc_step s ev s'"
  shows "sv_opts s' = sv_opts s" "ev \<noteq> EvShutdown \<Longrightarrow> sv_closing s' = sv_closing s"
  using step_frame [OF assms] by (auto simp: frame_def Close_start_def Close_cancel_def close_visit_frame elim!: allocate_cases)

lemma close_inv_step:
  assumes ids: "ids_ok s" and inv: "close_inv es s" and step: "svc_step s ev s'"
  shows "close_inv (ev # es) s'"
proof -
  have del: "en_op e \<in> {OpDelete, OpTorn}" if "mapped s a e" "vm_st (en_rec e) = StateDeleting" for a e
    using inv that by (simp add: close_inv_def)
  have "en_op e' \<in> {OpDelete, OpTorn}" if m: "mapped s' a e'" and d: "vm_st (en_rec e') = StateDeleting" for a e'
    using ids step m
  proof (cases rule: step_mapped)
    case (new now i m sp)
    with d show ?thesis by (simp add: new_entry_def)
  next
    case (old e)
    with d del deleting_change drop_unmaps step m show ?thesis by metis
  qed
  moreover have "a \<in> set (sv_toStop s') \<or> launched_since a (ev # es)"
    if c: "sv_closing s'" "\<not> op_detachOnClose (sv_opts s')" and m: "mapped s' a e'" "active e'" for a e'
  proof (cases "ev = EvShutdown")
    case True
    with step have "s' = Close_start s" by (auto elim: svc_step.cases)
    with m show ?thesis by (force simp: Close_start_def mapped_def dest: map_of_SomeD)
  next
    case False
    with c step_closing [OF step] have c': "sv_closing s" "\<not> op_detachOnClose (sv_opts s)" by auto
    show ?thesis using ids step m(1)
    proof (cases rule: step_mapped)
      case (new now i m' sp)
      with m show ?thesis by (simp add: new_entry_def active_def)
    next
      case (old e)
      show ?thesis
      proof (cases "ev = EvLaunch a False")
        case True
        then show ?thesis by (simp add: launched_since_def)
      next
        case nl: False
        with old m c' active_change have "active e" by metis
        with inv old c' have "a \<in> set (sv_toStop s) \<or> launched_since a es" by (auto simp: close_inv_def)
        then show ?thesis
          using toStop_step [OF ids step _ False old(1) m _ c'(2)] del [OF old(1)] False by (auto simp: launched_since_def)
      qed
    qed
  qed
  ultimately show ?thesis unfolding close_inv_def by blast
qed

lemma run_close_inv: "svc_run es s \<Longrightarrow> close_inv es s"
  unfolding svc_run_def
proof (induction rule: reachable.induct)
  case (reach_init s)
  then show ?case by (auto simp: svc_init_def Service_New_def close_inv_def mapped_def)
next
  case (reach_step es s ev s')
  then show ?case using close_inv_step run_ids_ok unfolding svc_run_def by blast
qed

text \<open>
  C8. When \<open>Close\<close> has worked through its list without detaching, no VM of the service
  has a running process, except one whose \<open>Create\<close> started its installer after the
  shutdown began.
\<close>

theorem close_stops:
  assumes "svc_run es s" "sv_closing s" "\<not> op_detachOnClose (sv_opts s)" "sv_toStop s = []"
    and "map_of (sv_vms s) i = Some a" "sv_heap s a = Some e" "en_proc e \<noteq> None"
  shows "EvLaunch a False \<in> set (takeWhile (\<lambda>ev. ev \<noteq> EvShutdown) es)"
proof -
  have "vm_id (en_rec e) = i" using run_ids_ok [OF assms(1)] assms(5,6) unfolding ids_ok_def by (metis option.inject)
  then have "mapped s a e" "active e" using assms by (auto simp: mapped_def active_def)
  then show ?thesis using run_close_inv [OF assms(1)] assms(2-4) by (auto simp: close_inv_def launched_since_def)
qed

text \<open>A \<open>Create\<close> that allocated its VM but had not locked it when \<open>Close\<close> passed by.\<close>

lemma demo_late:
  obtains s e p where "svc_run (EvLaunch 0 False # EvProvision 0 False # EvLaunchLock 0 # [EvCancel, EvVisit 0, EvShutdown, EvCreate 0]) s"
    "demo_at ([(''00000000'', 0)], True, True, []) s e" "en_proc e = Some p" "vm_st (en_rec e) = StateInstalling"
proof -
  obtain s e where s: "svc_run [EvCreate 0] s" and at: "demo_at demo_open s e"
    and e: "en_pending e" "en_op e = OpFree" "en_proc e = None" "vm_st (en_rec e) = StateCreating"
    by (rule demo_created)
  have r1: "svc_run [EvShutdown, EvCreate 0] (Close_start s)" by (rule svc_run_step [OF s st_close])
  have at1: "demo_at ([(''00000000'', 0)], True, False, [0]) (Close_start s) e"
    using at by (simp add: demo_at_def demo_open_def Close_start_def)
  have "svc_step (Close_start s) (EvVisit 0) (close_visit demo_env 0 (Close_start s))"
    using at1 e by (intro st_visit) (auto simp: demo_at_def)
  note r2 = svc_run_step [OF r1 this]
  have at2: "demo_at ([(''00000000'', 0)], True, False, []) (close_visit demo_env 0 (Close_start s)) e"
    using at1 e by (auto simp: demo_at_def close_visit_def demo_opts_def lookup_def Stop_mark_def Let_def)
  have "svc_step (close_visit demo_env 0 (Close_start s)) EvCancel (Close_cancel (close_visit demo_env 0 (Close_start s)))"
    using at2 by (intro st_cancel) (auto simp: demo_at_def)
  note r3 = svc_run_step [OF r2 this]
  have at3: "demo_at ([(''00000000'', 0)], True, True, []) (Close_cancel (close_visit demo_env 0 (Close_start s))) e"
    using at2 by (simp add: demo_at_def Close_cancel_def)
  show thesis by (rule demo_launch_from [OF r3 at3 e(1,2)]) (rule that)
qed

theorem close_stops_witness:
  "\<exists>es s e. svc_run es s \<and> sv_closing s \<and> sv_toStop s = [] \<and> sv_heap s 0 = Some e \<and> en_proc e \<noteq> None \<and>
     EvLaunch 0 False \<in> set (takeWhile (\<lambda>ev. ev \<noteq> EvShutdown) es)"
proof -
  obtain s e p where s: "svc_run (EvLaunch 0 False # EvProvision 0 False # EvLaunchLock 0 # [EvCancel, EvVisit 0, EvShutdown, EvCreate 0]) s"
    and at: "demo_at ([(''00000000'', 0)], True, True, []) s e" and e: "en_proc e = Some p"
    by (rule demo_late)
  have c: "sv_closing s" "\<not> op_detachOnClose (sv_opts s)" "sv_toStop s = []" "map_of (sv_vms s) ''00000000'' = Some 0"
    "sv_heap s 0 = Some e" "en_proc e \<noteq> None"
    using at e by (auto simp: demo_at_def demo_opts_def)
  from close_stops [OF s c] s c show ?thesis by blast
qed

text \<open>
  C38. The exception is real: the package documentation's invariant, that no process is
  started for a VM once \<open>Close\<close> has begun, does not hold.  \<open>launch\<close> takes the lock of a
  VM \<open>allocate\<close> has published and starts the installer without looking at the closing
  flag, so there is a run in which \<open>Close\<close> has visited every VM and cancelled the service
  and the installer of a VM starts afterwards.
\<close>

theorem late_create_starts:
  "\<exists>es s e. svc_run es s \<and> sv_cancelled s \<and> sv_toStop s = [] \<and> \<not> op_detachOnClose (sv_opts s) \<and>
     map_of (sv_vms s) (vm_id (en_rec e)) = Some 0 \<and> sv_heap s 0 = Some e \<and> en_proc e \<noteq> None \<and>
     vm_st (en_rec e) = StateInstalling \<and> (\<exists>late early. es = late @ EvCancel # early \<and> EvLaunch 0 False \<in> set late)"
proof -
  obtain s e p where s: "svc_run (EvLaunch 0 False # EvProvision 0 False # EvLaunchLock 0 # [EvCancel, EvVisit 0, EvShutdown, EvCreate 0]) s"
    and at: "demo_at ([(''00000000'', 0)], True, True, []) s e" and e: "en_proc e = Some p" "vm_st (en_rec e) = StateInstalling"
    by (rule demo_late)
  have "EvLaunch 0 False # EvProvision 0 False # EvLaunchLock 0 # [EvCancel, EvVisit 0, EvShutdown, EvCreate 0] =
      [EvLaunch 0 False, EvProvision 0 False, EvLaunchLock 0] @ EvCancel # [EvVisit 0, EvShutdown, EvCreate 0]" by simp
  moreover have "EvLaunch 0 False \<in> set [EvLaunch 0 False, EvProvision 0 False, EvLaunchLock 0]" by simp
  ultimately show ?thesis using s at e by (fastforce simp: demo_at_def demo_opts_def)
qed

end
