(* ===== verification/VM_Ids.thy ===== *)
theory VM_Ids
  imports VM_Safety
begin

text \<open>
  Names and vsock context ids of the VMs: the scan for a free id, the ids a start
  tries when one is taken on the host, and their uniqueness over all runs.
\<close>

section \<open>Context ids\<close>

definition cid_at :: "32 word \<Rightarrow> nat \<Rightarrow> 32 word" where
  "cid_at start i = MinCID + of_nat ((unat (start - MinCID) + i) mod cid_span)"

lemma cid_span_value: "cid_span = 4294967291 \<and> MinCID = 3 \<and> MaxCID = 4294967294"
  by (simp add: cid_span_def MinCID_def MaxCID_def)

lemma cid_scan_cases:
  "cid_scan used start i = MaxCID \<and> (\<forall>j. i \<le> j \<and> j < cid_span \<longrightarrow> cid_at start j \<in> set used) \<or>
   (\<exists>j. i \<le> j \<and> j < cid_span \<and> cid_scan used start i = cid_at start j \<and> cid_at start j \<notin> set used \<and>
      (\<forall>k. i \<le> k \<and> k < j \<longrightarrow> cid_at start k \<in> set used))"
proof (induction used start i rule: cid_scan.induct)
  case (1 used start i)
  consider "\<not> i < cid_span" | "i < cid_span" "cid_at start i \<notin> set used" | "i < cid_span" "cid_at start i \<in> set used" by blast
  then show ?case
  proof cases
    case 1
    then have "cid_scan used start i = MaxCID" by (subst cid_scan.simps) simp
    with 1 show ?thesis by auto
  next
    case 2
    then have "cid_scan used start i = cid_at start i" by (subst cid_scan.simps) (simp add: Let_def cid_at_def)
    with 2 show ?thesis by auto
  next
    case 3
    have eq: "cid_scan used start i = cid_scan used start (Suc i)"
      using 3 by (subst cid_scan.simps) (simp add: Let_def cid_at_def)
    have le: "i \<le> j \<longleftrightarrow> j = i \<or> Suc i \<le> j" for j by auto
    have "\<not> cid_at start i \<notin> set used" using 3 by simp
    from "1.IH" [OF 3(1) refl this [unfolded cid_at_def]] show ?thesis unfolding eq
    proof (elim disjE exE conjE)
      assume "cid_scan used start (Suc i) = MaxCID" "\<forall>j. Suc i \<le> j \<and> j < cid_span \<longrightarrow> cid_at start j \<in> set used"
      with 3 le show "cid_scan used start (Suc i) = MaxCID \<and> (\<forall>j. i \<le> j \<and> j < cid_span \<longrightarrow> cid_at start j \<in> set used) \<or>
        (\<exists>j\<ge>i. j < cid_span \<and> cid_scan used start (Suc i) = cid_at start j \<and> cid_at start j \<notin> set used \<and>
          (\<forall>k. i \<le> k \<and> k < j \<longrightarrow> cid_at start k \<in> set used))" by metis
    next
      fix j
      assume "Suc i \<le> j" "j < cid_span" "cid_scan used start (Suc i) = cid_at start j" "cid_at start j \<notin> set used"
        "\<forall>k. Suc i \<le> k \<and> k < j \<longrightarrow> cid_at start k \<in> set used"
      with 3 le show "cid_scan used start (Suc i) = MaxCID \<and> (\<forall>j. i \<le> j \<and> j < cid_span \<longrightarrow> cid_at start j \<in> set used) \<or>
        (\<exists>j\<ge>i. j < cid_span \<and> cid_scan used start (Suc i) = cid_at start j \<and> cid_at start j \<notin> set used \<and>
          (\<forall>k. i \<le> k \<and> k < j \<longrightarrow> cid_at start k \<in> set used))" by (intro disjI2 exI [of _ j]) auto
    qed
  qed
qed

lemma unat_cid_at: "unat (cid_at start i) = 3 + (unat (start - MinCID) + i) mod cid_span"
proof -
  define k where "k = (unat (start - MinCID) + i) mod cid_span"
  have k: "k < 4294967291" using cid_span_value by (simp add: k_def)
  then have "unat (MinCID + of_nat k) = 3 + k"
    by (simp add: MinCID_def unat_word_ariths unat_of_nat)
  then show ?thesis by (simp add: cid_at_def k_def)
qed

lemma cid_at_range: "MinCID \<le> cid_at start i \<and> cid_at start i < MaxCID"
proof -
  have "(unat (start - MinCID) + i) mod cid_span < 4294967291" using cid_span_value by simp
  then show ?thesis
    using unat_cid_at [of start i] by (simp add: word_le_nat_alt word_less_nat_alt MinCID_def MaxCID_def)
qed

lemma mod_shift_eq: "i = j" if "(x + i) mod n = (x + j) mod n" "i \<le> j" "j < n" for n :: nat
proof -
  have "n dvd (x + j) - (x + i)" using that by (intro mod_eq_dvd_iff_nat [THEN iffD1]) auto
  then have "n dvd j - i" by simp
  with that show ?thesis by (cases "i < j") (auto dest: dvd_imp_le)
qed

lemma cid_at_inj: "inj_on (cid_at start) {..<cid_span}"
proof (rule inj_onI)
  fix i j
  assume ij: "i \<in> {..<cid_span}" "j \<in> {..<cid_span}" "cid_at start i = cid_at start j"
  then have "(unat (start - MinCID) + i) mod cid_span = (unat (start - MinCID) + j) mod cid_span"
    using unat_cid_at [of start i] unat_cid_at [of start j] by simp
  with ij show "i = j"
    using mod_shift_eq [of _ i cid_span j] mod_shift_eq [of _ j cid_span i] by (metis lessThan_iff nat_le_linear)
qed

lemma freeCIDFrom_free:
  assumes "length (used_cids s) < cid_span"
  shows "freeCIDFrom start s \<notin> set (used_cids s)" "MinCID \<le> freeCIDFrom start s" "freeCIDFrom start s < MaxCID"
proof -
  let ?st = "if start < MinCID \<or> start \<ge> MaxCID then MinCID else start"
  have "\<not> cid_at ?st ` {..<cid_span} \<subseteq> set (used_cids s)"
  proof
    assume "cid_at ?st ` {..<cid_span} \<subseteq> set (used_cids s)"
    from card_mono [OF _ this] have "cid_span \<le> card (set (used_cids s))"
      using card_image [OF cid_at_inj [of ?st]] by simp
    with assms card_length [of "used_cids s"] show False by linarith
  qed
  then obtain j where "j < cid_span" "cid_at ?st j \<notin> set (used_cids s)" by auto
  with cid_scan_cases [of "used_cids s" ?st 0] cid_at_range
  show "freeCIDFrom start s \<notin> set (used_cids s)" "MinCID \<le> freeCIDFrom start s" "freeCIDFrom start s < MaxCID"
    unfolding freeCIDFrom_def by (metis le0)+
qed

text \<open>
  C24. \<open>freeCIDFrom\<close> returns the first context id at or after its start, wrapping around
  the valid range, that no VM of the service has, as long as there are fewer VMs than
  ids; the result is a valid guest id below the fallback.
\<close>

theorem freeCIDFrom_first:
  assumes "length (sv_vms s) < cid_span" "MinCID \<le> start" "start < MaxCID"
  shows "\<exists>d < cid_span. freeCIDFrom start s = cid_at start d \<and> freeCIDFrom start s \<notin> set (used_cids s) \<and>
    (\<forall>k < d. cid_at start k \<in> set (used_cids s)) \<and> MinCID \<le> freeCIDFrom start s \<and> freeCIDFrom start s < MaxCID"
proof -
  have "length (used_cids s) < cid_span"
    using assms(1) by (simp add: used_cids_def entries_def map_filter_def) (metis le_less_trans length_filter_le)
  from freeCIDFrom_free [OF this, of start] cid_scan_cases [of "used_cids s" start 0] assms(2,3)
  show ?thesis unfolding freeCIDFrom_def by (auto simp: not_less [symmetric])
qed


theorem freeCIDFrom_first_witness:
  "length (sv_vms demo_svc) < cid_span \<and> freeCIDFrom MinCID demo_svc < MaxCID"
proof -
  have h: "length (sv_vms demo_svc) < cid_span" by (simp add: demo_svc_def Service_New_def cid_span_value)
  have m: "MinCID \<le> MinCID" "MinCID < MaxCID" by (simp_all add: MinCID_def MaxCID_def)
  from freeCIDFrom_first [OF h m] h show ?thesis by auto
qed

lemma vm_change_name: "vm_change c a ev e e' \<Longrightarrow> vm_name (en_rec e') = vm_name (en_rec e)"
  by (erule vm_change.cases) (auto simp: rels_attestation)

text \<open>A start gives the VM its old context id or one no other VM has.\<close>

definition cid_new :: "nat \<Rightarrow> service \<Rightarrow> entry \<Rightarrow> entry \<Rightarrow> bool" where
  "cid_new a s e e' \<longleftrightarrow> vm_cid (en_rec e') = vm_cid (en_rec e) \<or>
     (\<forall>b d. b \<noteq> a \<and> mapped s b d \<longrightarrow> vm_cid (en_rec d) \<noteq> vm_cid (en_rec e'))"

lemma mapped_entries: "mapped s b d \<Longrightarrow> d \<in> set (entries s)"
  by (force simp: mapped_def entries_def map_filter_def dest: map_of_SomeD)

lemma used_length: "length (used_cids s) \<le> length (sv_vms s)"
  by (simp add: used_cids_def entries_def map_filter_def)

lemma freeCIDFrom_mapped:
  assumes "length (sv_vms s) < cid_span" "mapped s b d"
  shows "vm_cid (en_rec d) \<noteq> freeCIDFrom start s"
proof -
  have "length (used_cids s) < cid_span" using assms(1) used_length [of s] by simp
  then show ?thesis using freeCIDFrom_free(1) [of s start] mapped_entries [OF assms(2)] by (simp add: used_cids_def image_iff) metis
qed

lemma touches_mapped:
  "touches a R s s' \<Longrightarrow> sv_heap s a = Some e \<Longrightarrow> b \<noteq> a \<Longrightarrow> mapped s' b d \<longleftrightarrow> mapped s b d"
  by (auto simp: touches_def mapped_def frame_def)

lemma start_attempts_cid:
  "start_attempts io ph img att sock a left v ch s = (r, s') \<Longrightarrow> sv_heap s a = Some e \<Longrightarrow> sv_heap s' a = Some e' \<Longrightarrow>
   length (sv_vms s) < cid_span \<Longrightarrow> cid_new a s e e'"
proof (induction left arbitrary: v ch s e)
  case 0
  then have "sv_heap s' = sv_heap s"
    by (subst (asm) start_attempts.simps) (auto simp: Let_def split: sum.splits)
  with 0 show ?case by (simp add: cid_new_def)
next
  case (Suc left)
  show ?case
  proof (cases "si_qemu io (maxCIDRetries - Suc left) (qemuSpec s v ph img (at_socketPath att) (at_mac att) sock)")
    case (Inr h)
    with Suc.prems show ?thesis by (subst (asm) start_attempts.simps) (auto simp: Let_def cid_new_def)
  next
    case (Inl f)
    obtain er msg where f: "f = (er, msg)" by (cases f)
    obtain r1 s1 where re: "reassignCID (si_env io (maxCIDRetries - Suc left)) a (vm_cid v) s = (r1, s1)" by fastforce
    have t1: "touches a cid_rel s s1" using reassignCID_touches [OF re] by auto
    obtain e1 where e1: "sv_heap s1 a = Some e1" "vm_cid (en_rec e1) = freeCIDFrom (vm_cid v + 1) s"
      using re Suc.prems(2) by (auto simp: reassignCID_def Let_def persist_def split: if_splits)
    have new1: "cid_new a s e e1" using freeCIDFrom_mapped [OF Suc.prems(4)] e1 by (auto simp: cid_new_def)
    show ?thesis
    proof (cases "isCIDInUse msg \<and> \<not> isl r1")
      case False
      then have "sv_heap s' = sv_heap s \<or> sv_heap s' = sv_heap s1"
        using Suc.prems(1) Inl f re by (subst (asm) start_attempts.simps) (auto simp: Let_def split: sum.splits if_splits)
      with Suc.prems e1 new1 show ?thesis by (auto simp: cid_new_def)
    next
      case True
      then obtain new where r1: "r1 = Inr new" by (cases r1) auto
      obtain ch' s2 where sub: "svc_subscribe ph new (svc_unsubscribe ph (vm_cid v) s1) = (ch', s2)" by fastforce
      have rest: "start_attempts io ph img att sock a left (v\<lparr>vm_cid := new\<rparr>) ch' s2 = (r, s')"
        using Suc.prems Inl f re r1 sub True by (subst (asm) start_attempts.simps) (auto simp: Let_def)
      have h2: "sv_heap s2 = sv_heap s1" "sv_vms s2 = sv_vms s1"
        using svc_subscribe_frame [OF sub] by (auto simp: frame_def)
      have v1: "sv_vms s1 = sv_vms s" using t1 by (auto simp: touches_def frame_def)
      have "mapped s2 b d \<longleftrightarrow> mapped s b d" if "b \<noteq> a" for b d
        using touches_mapped [OF t1 Suc.prems(2) that, of d] h2 by (simp add: mapped_def)
      moreover have "cid_new a s2 e1 e'"
        using Suc.IH [OF rest] e1 h2 v1 Suc.prems by simp
      ultimately show ?thesis using new1 by (auto simp: cid_new_def)
    qed
  qed
qed


lemma touches_at:
  "touches a R s s' \<Longrightarrow> sv_heap s a = Some e \<Longrightarrow> \<exists>e'. sv_heap s' a = Some e' \<and> R e e' \<and> sv_vms s' = sv_vms s"
  by (auto simp: touches_def frame_def)

lemma startProcess_cid:
  assumes st: "startProcess io a ph img s = (r, s')" and e: "sv_heap s a = Some e" "sv_heap s' a = Some e'"
    and n: "length (sv_vms s) < cid_span"
  shows "cid_new a s e e'"
proof -
  let ?v = "clone (en_rec e)"
  obtain r1 s1 where at: "svc_attach (si_ctx io) (vm_network ?v) (vm_id ?v) s = (r1, s1)" by fastforce
  note fr = svc_attach_frame [OF at]
  obtain ch s2 where sub: "svc_subscribe ph (vm_cid ?v) s1 = (ch, s2)" by fastforce
  note fr2 = svc_subscribe_frame [OF sub]
  show ?thesis
  proof (cases "isl r1 \<or> isl (si_tpm io)")
    case True
    then have "sv_heap s' = sv_heap s"
      using st e at fr by (auto simp: startProcess_def Let_def split: sum.splits)
    with e show ?thesis by (simp add: cid_new_def)
  next
    case False
    then obtain att sock th where r1: "r1 = Inr att" "si_tpm io = Inr (sock, th)"
      by (cases r1; cases "si_tpm io") auto
    obtain r3 s3 where go: "start_attempts io ph img att sock a maxCIDRetries ?v ch s2 = (r3, s3)" by fastforce
    have s3: "s3 = s'" using st e at sub r1 go by (auto simp: startProcess_def Let_def split: sum.splits prod.splits)
    have same: "sv_heap s2 = sv_heap s" "sv_vms s2 = sv_vms s" using fr fr2 by (auto simp: frame_def)
    have "cid_new a s2 e e'" using start_attempts_cid [OF go] same e n s3 by simp
    then show ?thesis using same by (simp add: cid_new_def mapped_def)
  qed
qed

lemma vm_change_cid:
  "vm_change c a ev e e' \<Longrightarrow> vm_cid (en_rec e') = vm_cid (en_rec e) \<or> (\<exists>f. ev = EvLaunch a f \<or> ev = EvStart a f \<or> ev = EvBoot a f)"
  by (erule vm_change.cases) (auto simp: prov_rel_def)

lemma startBoot_cid:
  assumes st: "startBoot v io a s = (r, s')" and e: "sv_heap s a = Some e" "sv_heap s' a = Some e'" and n: "length (sv_vms s) < cid_span"
  shows "cid_new a s e e'"
proof -
  obtain r1 s1 where sp: "startProcess io a PhaseBoot None s = (r1, s1)" by fastforce
  obtain e1 where e1: "sv_heap s1 a = Some e1"
    using touches_at [OF startProcess_touches(1) [OF sp] e(1)] by blast
  have "vm_cid (en_rec e') = vm_cid (en_rec e1)"
    using st sp e e1 by (auto simp: startBoot_def boot_commit_def on_entry_def split: sum.splits)
  with startProcess_cid [OF sp e(1) e1 n] show ?thesis by (simp add: cid_new_def)
qed

lemma step_cid:
  assumes step: "svc_step s ev s'" and ids: "ids_ok s" and e: "sv_heap s a = Some e" "sv_heap s' a = Some e'"
    and n: "length (sv_vms s) < cid_span"
  shows "cid_new a s e e'"
proof (cases "\<exists>f. ev = EvLaunch a f \<or> ev = EvStart a f \<or> ev = EvBoot a f")
  case False
  have "e' = e \<or> vm_change (sv_closing s) a ev e e'"
    using step_change [OF ids step e(1)] e(2) by (metis option.inject)
  then have "vm_cid (en_rec e') = vm_cid (en_rec e)" using False vm_change_cid by blast
  then show ?thesis by (simp add: cid_new_def)
next
  case True
  show ?thesis using step
  proof (cases rule: svc_step.cases)
    case (st_launch b d io img r s1 v)
    with True have b: "b = a" "d = e" using e by auto
    obtain e1 where e1: "sv_heap s1 a = Some e1"
      using touches_at [OF startProcess_touches(1) [OF st_launch(5)] st_launch(3)] b by blast
    have "vm_cid (en_rec e') = vm_cid (en_rec e1)"
      using e e1 st_launch b by (auto simp: launch_commit_def on_entry_def split: sum.splits)
    with startProcess_cid [OF st_launch(5) [unfolded b] e(1) e1 n] show ?thesis by (simp add: cid_new_def)
  next
    case (st_boot b d v io)
    with True have b: "b = a" "d = e" using e by auto
    obtain r s1 where sb: "startBoot v io a s = (r, s1)" by fastforce
    from sb e(1) obtain e1 where e1: "sv_heap s1 a = Some e1" by (rule startBoot_cases) auto
    have "vm_cid (en_rec e') = vm_cid (en_rec e1)"
      using e e1 st_boot b sb by (auto simp: boot_run_def fail_def on_entry_def split: sum.splits)
    with startBoot_cid [OF sb e(1) e1 n] show ?thesis by (simp add: cid_new_def)
  next
    case (st_start b d v acquired io r s3)
    with True have b: "b = a" "d = e" using e by auto
    obtain r1 s1 where vol: "openVolume acquired a s = (r1, s1)" by fastforce
    note t1 = openVolume_touches(1) [OF vol]
    obtain e1 where e1: "sv_heap s1 a = Some e1" "vol_rel e e1" "sv_vms s1 = sv_vms s"
      using touches_at [OF t1 e(1)] by blast
    obtain r2 s2 where sb: "startBoot v io a s1 = (r2, s2)" by fastforce
    from sb e1(1) obtain e2 where e2: "sv_heap s2 a = Some e2" by (rule startBoot_cases) auto
    have c1: "vm_cid (en_rec e1) = vm_cid (en_rec e)" using e1(2) by (auto simp: vol_rel_def)
    have "vm_cid (en_rec e') = vm_cid (en_rec e2) \<or> vm_cid (en_rec e') = vm_cid (en_rec e1)"
      using e e1 e2 st_start b sb vol by (auto simp: Start_run_def fail_def on_entry_def split: sum.splits)
    moreover have "cid_new a s1 e1 e2" using startBoot_cid [OF sb e1(1) e2] e1 n by simp
    ultimately show ?thesis using c1 touches_mapped [OF t1 e(1)] unfolding cid_new_def by metis
  qed (use True in \<open>simp_all\<close>)
qed


section \<open>Names and context ids are unique\<close>

definition unique_inv :: "service \<Rightarrow> bool" where
  "unique_inv s \<longleftrightarrow> length (sv_vms s) \<le> sv_next s \<and>
     (\<forall>a b e d. mapped s a e \<and> mapped s b d \<and> a \<noteq> b \<longrightarrow>
        vm_name (en_rec e) \<noteq> vm_name (en_rec d) \<and> vm_cid (en_rec e) \<noteq> vm_cid (en_rec d))"

lemma step_counts:
  assumes "svc_step s ev s'" "length (sv_vms s) \<le> sv_next s"
  shows "length (sv_vms s') \<le> sv_next s'" "sv_next s \<le> sv_next s'"
proof -
  have upd: "map_of xs i = None \<Longrightarrow> length (AList.update i a xs) = Suc (length xs)" for i :: string and a :: nat and xs
    by (induction xs) auto
  have del: "length (AList.delete i xs) \<le> length xs" for i :: string and xs :: "(string \<times> nat) list"
    by (simp add: AList.delete_eq)
  show "length (sv_vms s') \<le> sv_next s'" "sv_next s \<le> sv_next s'"
    using step_frame [OF assms(1)] assms(2) del
    by (auto simp: frame_def Close_start_def Close_cancel_def close_visit_frame upd newID_fresh elim!: allocate_cases
        intro: order_trans [OF del])
qed

lemma new_entry_unique:
  assumes "allocate v fs draws machine mkdir sp s = Some (Inr a, s')" "length (sv_vms s) < cid_span" "mapped s b d"
    "sv_heap s' a = Some e"
  shows "vm_name (en_rec e) \<noteq> vm_name (en_rec d) \<and> vm_cid (en_rec e) \<noteq> vm_cid (en_rec d)"
  using assms(1)
proof (rule allocate_cases)
  fix i m
  assume h: "sv_heap s' = (sv_heap s)(a := Some (new_entry s (ev_now v) i m sp))"
    and n: "\<not> list_ex (\<lambda>e. vm_name (en_rec e) = vsp_name sp) (entries s)"
  from h assms(4) have e: "e = new_entry s (ev_now v) i m sp" by simp
  show ?thesis
    using mapped_entries [OF assms(3)] n freeCIDFrom_mapped [OF assms(2,3), of "cidBase s"]
    by (auto simp: e new_entry_def list_ex_iff freeCID_def)
qed

lemma step_one:
  assumes ids: "ids_ok s" and step: "svc_step s ev s'" and "a \<noteq> b"
    and h: "sv_heap s a = Some e" "sv_heap s b = Some d" "sv_heap s' a = Some e'" "sv_heap s' b = Some d'"
  shows "e' = e \<or> d' = d"
proof (cases "\<exists>c. ev = EvCreate c")
  case True
  then obtain c where c: "ev = EvCreate c" by blast
  from step [unfolded c] obtain v fs draws machine mkdir sp where
    al: "allocate v fs draws machine mkdir sp s = Some (Inr c, s')" by (rule create_allocate)
  have "a < sv_next s" using ids h by (auto simp: ids_ok_def)
  with al h show ?thesis by (elim allocate_cases) auto
next
  case False
  with svc_step_heap [OF ids step] have "heap_change s ev s'" by blast
  then show ?thesis unfolding heap_change_def
  proof (elim disjE exE conjE)
    fix c f f'
    assume "sv_heap s' = (sv_heap s)(c := Some f')"
    with h \<open>a \<noteq> b\<close> show ?thesis by (cases "c = a") auto
  qed (use h in simp)
qed

lemma create_no_change: "\<not> vm_change c b (EvCreate a) e e'"
  by (auto elim: vm_change.cases)

lemma unique_step:
  assumes ids: "ids_ok s" and inv: "unique_inv s" and step: "svc_step s ev s'" and n: "sv_next s < cid_span"
  shows "unique_inv s'"
proof -
  have len: "length (sv_vms s) < cid_span" using inv n by (simp add: unique_inv_def)
  let ?differ = "\<lambda>e d. vm_name (en_rec e) \<noteq> vm_name (en_rec d) \<and> vm_cid (en_rec e) \<noteq> vm_cid (en_rec d)"
  have new: "?differ e d" if "svc_step s (EvCreate a) s'" "mapped s' a e" "mapped s b d" for a b e d
    using that(1)
  proof (rule create_allocate)
    fix v fs draws machine mkdir sp
    assume "allocate v fs draws machine mkdir sp s = Some (Inr a, s')"
    with that len show ?thesis by (intro new_entry_unique) (auto simp: mapped_def)
  qed
  have old: "?differ e' d'"
    if o: "mapped s a e" "mapped s b d" and m: "mapped s' a e'" "mapped s' b d'" "a \<noteq> b" and same: "d' = d" for a b e d e' d'
  proof -
    have h: "sv_heap s a = Some e" "sv_heap s' a = Some e'" using o m by (simp_all add: mapped_def)
    have "e' = e \<or> vm_change (sv_closing s) a ev e e'" using step_change [OF ids step h(1)] h(2) by (metis option.inject)
    then have "vm_name (en_rec e') = vm_name (en_rec e)" using vm_change_name by blast
    moreover have "cid_new a s e e'" by (rule step_cid [OF step ids h len])
    ultimately show ?thesis using inv o m same unfolding unique_inv_def cid_new_def by metis
  qed
  have "?differ e' d'" if m: "mapped s' a e'" "mapped s' b d'" "a \<noteq> b" for a b e' d'
    using ids step m(1)
  proof (cases rule: step_mapped)
    case a: (new now i m' sp)
    from ids step m(2) show ?thesis
    proof (cases rule: step_mapped)
      case (old d)
      with a create_no_change have "d' = d" by blast
      with new [of a e' b d] a(1) m old step show ?thesis by simp
    qed (use a m in simp)
  next
    case a: (old e)
    from ids step m(2) show ?thesis
    proof (cases rule: step_mapped)
      case (new now i m' sp)
      with a create_no_change have "e' = e" by blast
      with \<open>\<And>a b e d. svc_step s (EvCreate a) s' \<Longrightarrow> mapped s' a e \<Longrightarrow> mapped s b d \<Longrightarrow> ?differ e d\<close> [of b d' a e]
      show ?thesis using new(1) m a step by auto
    next
      case b: (old d)
      have "e' = e \<or> d' = d" using step_one [OF ids step m(3)] a b m by (simp add: mapped_def)
      with old [of a e b d e' d'] old [of b d a e d' e'] a(1) b(1) m show ?thesis by auto
    qed
  qed
  with step_counts [OF step] inv show ?thesis by (auto simp: unique_inv_def)
qed


lemma run_unique: "svc_run es s \<Longrightarrow> sv_next s < cid_span \<longrightarrow> unique_inv s"
  unfolding svc_run_def
proof (induction rule: reachable.induct)
  case (reach_init s)
  then show ?case by (auto simp: svc_init_def Service_New_def unique_inv_def mapped_def)
next
  case (reach_step es s ev s')
  have ids: "ids_ok s" using reach_step run_ids_ok unfolding svc_run_def by blast
  show ?case
  proof
    assume n: "sv_next s' < cid_span"
    have "sv_next s \<le> sv_next s'"
      using step_frame [OF reach_step.hyps(2)]
      by (auto simp: frame_def Close_start_def Close_cancel_def close_visit_frame elim!: allocate_cases)
    with n reach_step.IH have "unique_inv s" "sv_next s < cid_span" by auto
    then show "unique_inv s'" using unique_step [OF ids _ reach_step.hyps(2)] by blast
  qed
qed

text \<open>
  C14. No two VMs of the service have the same name or the same vsock context id, in
  every run that creates fewer VMs than there are ids, restarts with a new id after a
  collision included.
\<close>

theorem names_cids_unique:
  assumes "svc_run es s" "sv_next s < cid_span" "map_of (sv_vms s) i = Some a" "map_of (sv_vms s) j = Some b"
    "sv_heap s a = Some e" "sv_heap s b = Some d" "i \<noteq> j"
  shows "vm_name (en_rec e) \<noteq> vm_name (en_rec d) \<and> vm_cid (en_rec e) \<noteq> vm_cid (en_rec d)"
proof -
  have "vm_id (en_rec e) = i" "vm_id (en_rec d) = j"
    using run_ids_ok [OF assms(1)] assms(3-6) unfolding ids_ok_def by (metis option.inject)+
  then show ?thesis using run_unique [OF assms(1)] assms(2-) unfolding unique_inv_def mapped_def by (metis option.inject)
qed

lemma demo_two:
  obtains s e d where "svc_run [EvCreate 1, EvCreate 0] s" "sv_next s = 2" "map_of (sv_vms s) ''00000000'' = Some 0"
    "map_of (sv_vms s) ''00000001'' = Some 1" "sv_heap s 0 = Some e" "sv_heap s 1 = Some d"
proof -
  have hex: "hex_EncodeToString [0, 0, 0, 0] = ''00000000''" "hex_EncodeToString [0, 0, 0, 1] = ''00000001''" by code_simp+
  let ?al = "\<lambda>b sp. allocate demo_env (\<lambda>_. NoFile) [Some b] (Some []) True sp"
  let ?sp = "demo_vspec\<lparr>vsp_name := ''vm2''\<rparr>"
  define s1 where "s1 = snd (the (?al [0, 0, 0, 0] demo_vspec demo_svc))"
  have a1: "?al [0, 0, 0, 0] demo_vspec demo_svc = Some (Inr 0, s1)"
    and s1: "sv_heap s1 = (\<lambda>_. None)(0 := Some (new_entry demo_svc 1 ''00000000'' (hex_EncodeToString []) demo_vspec))"
      "sv_vms s1 = [(''00000000'', 0)]" "sv_next s1 = 1" "\<not> sv_closing s1" "sv_nets s1 = demo_mgr"
    unfolding s1_def
    by (simp_all add: allocate_def demo_svc_def Service_New_def entries_def randomHex_def hex fileExists_def demo_env_def
        persist_def Let_def map_filter_simps)
  define s2 where "s2 = snd (the (?al [0, 0, 0, 1] ?sp s1))"
  have a2: "?al [0, 0, 0, 1] ?sp s1 = Some (Inr 1, s2)"
    and s2: "sv_next s2 = 2" "sv_vms s2 = [(''00000000'', 0), (''00000001'', 1)]"
      "sv_heap s2 = (sv_heap s1)(1 := Some (new_entry s1 1 ''00000001'' (hex_EncodeToString []) ?sp))"
    unfolding s2_def using s1
    by (simp_all add: allocate_def entries_def randomHex_def hex fileExists_def demo_env_def
        persist_def Let_def map_filter_simps new_entry_def demo_vspec_def)
  have "svc_run [] demo_svc"
    unfolding svc_run_def using demo_mgr_inv by (intro reach_init) (auto simp: svc_init_def demo_svc_def)
  moreover have "svc_step demo_svc (EvCreate 0) s1"
    using a1 by (rule st_create) (simp_all add: demo_svc_def Service_New_def demo_mgr_def demo_vspec_def)
  moreover have "svc_step s1 (EvCreate 1) s2"
    using a2 by (rule st_create)
      (use s1 in \<open>auto simp: demo_mgr_def demo_vspec_def randomHex_def hex fileExists_def new_entry_def split: if_splits\<close>)
  ultimately have "svc_run [EvCreate 1, EvCreate 0] s2" by (blast intro: svc_run_step)
  with that s1 s2 show thesis by simp
qed

theorem names_cids_unique_witness:
  "\<exists>s e d. svc_run [EvCreate 1, EvCreate 0] s \<and> sv_next s < cid_span \<and> sv_heap s 0 = Some e \<and> sv_heap s 1 = Some d \<and>
     vm_name (en_rec e) \<noteq> vm_name (en_rec d) \<and> vm_cid (en_rec e) \<noteq> vm_cid (en_rec d)"
proof -
  obtain s e d where s: "svc_run [EvCreate 1, EvCreate 0] s" and n: "sv_next s = 2"
    and h: "map_of (sv_vms s) ''00000000'' = Some 0" "map_of (sv_vms s) ''00000001'' = Some 1" "sv_heap s 0 = Some e" "sv_heap s 1 = Some d"
    by (rule demo_two)
  have lt: "sv_next s < cid_span" using n cid_span_value by simp
  have "''00000000'' \<noteq> ''00000001''" by simp
  from names_cids_unique [OF s lt h this] s lt h show ?thesis by blast
qed

end
