(* ===== verification/VM_Leases.thy ===== *)
theory VM_Leases
  imports VM_Ids
begin

text \<open>
  Addresses of the VMs: what each step does to the leases of the networks, and that a
  VM's address is the one its network leases to it, so that a request from an address
  is attributed to the right VM.
\<close>

section \<open>Leases\<close>

definition leased :: "manager \<Rightarrow> string \<Rightarrow> string \<Rightarrow> ipv4 option" where
  "leased m name i = (case map_of (mg_nets m) name of None \<Rightarrow> None | Some n \<Rightarrow> map_of (nw_leases n) i)"

definition kept :: "string \<Rightarrow> string \<Rightarrow> manager \<Rightarrow> manager \<Rightarrow> bool" where
  "kept name i m m' \<longleftrightarrow> (mgr_inv m \<longrightarrow> mgr_inv m') \<and>
     (\<forall>n j. leased m' n j = leased m n j \<or> n = name \<and> j = i \<and> leased m n j = None)"

lemma kept_refl [simp, intro]: "kept name i m m"
  by (simp add: kept_def)

lemma kept_trans [trans]: "kept name i m m1 \<Longrightarrow> kept name i m1 m2 \<Longrightarrow> kept name i m m2"
  unfolding kept_def by metis

lemma mgr_inv_update:
  assumes "mgr_inv m" "map_of (mg_nets m) name = Some n" "net_inv n'" "nw_spec n' = nw_spec n" "nw_dir n' = nw_dir n"
  shows "mgr_inv (m\<lparr>mg_nets := AList.update name n' (mg_nets m)\<rparr>)"
proof -
  have set: "set (AList.update name n' xs) = (set xs - {(name, n)}) \<union> {(name, n')}"
    if "distinct (map fst xs)" "map_of xs name = Some n" for xs
    using that by (induction xs) (force split: if_splits dest: map_of_SomeD)+
  have "name = sp_name (nw_spec n) \<and> nw_dir n = Manager_Dir m name"
    using assms(1) map_of_SomeD [OF assms(2)] by (auto simp: mgr_inv_def list_all_iff)
  with assms set show ?thesis
    by (auto simp: mgr_inv_def list_all_iff Manager_Dir_def distinct_update update_keys)
qed

lemma Network_Attach_fields:
  assumes "Network_Attach c i n = (r, n')"
  shows "nw_spec n' = nw_spec n" "nw_dir n' = nw_dir n"
    "map_of (nw_leases n') j = map_of (nw_leases n) j \<or> j = i \<and> map_of (nw_leases n) j = None"
    "r = Inr att \<Longrightarrow> map_of (nw_leases n') i = Some (at_ip att)"
  using assms by (auto simp: Network_Attach_def network_attachment_def update_conv' split: option.splits if_splits)

lemma svc_attach_nets:
  assumes "svc_attach c name i s = (r, s')"
  shows "kept name i (sv_nets s) (sv_nets s')" "r = Inr att \<Longrightarrow> leased (sv_nets s') name i = Some (at_ip att)"
proof -
  have "kept name i (sv_nets s) (sv_nets s') \<and> (r = Inr att \<longrightarrow> leased (sv_nets s') name i = Some (at_ip att))"
  proof (cases "map_of (mg_nets (sv_nets s)) name")
    case None
    with assms show ?thesis by (auto simp: svc_attach_def with_network_def)
  next
    case (Some n)
    obtain r1 n' where at: "Network_Attach c i n = (r1, n')" by fastforce
    note f = Network_Attach_fields [OF at]
    have s': "r = r1" "sv_nets s' = (sv_nets s)\<lparr>mg_nets := AList.update name n' (mg_nets (sv_nets s))\<rparr>"
      using assms Some at by (auto simp: svc_attach_def with_network_def)
    have "mgr_inv (sv_nets s')" if "mgr_inv (sv_nets s)"
    proof -
      have "net_inv n" using that map_of_SomeD [OF Some] by (auto simp: mgr_inv_def list_all_iff)
      then have "net_inv n'" using attach_inv [of n c i] at by simp
      with that Some f s' show ?thesis by (simp add: mgr_inv_update)
    qed
    then show ?thesis
      using s' Some f by (auto simp: kept_def leased_def update_conv')
  qed
  then show "kept name i (sv_nets s) (sv_nets s')" "r = Inr att \<Longrightarrow> leased (sv_nets s') name i = Some (at_ip att)" by auto
qed

lemma startProcess_nets:
  assumes st: "startProcess io a ph img s = (r, s')" and e: "sv_heap s a = Some e"
  shows "kept (vm_network (en_rec e)) (vm_id (en_rec e)) (sv_nets s) (sv_nets s')"
proof -
  let ?v = "clone (en_rec e)"
  have v: "vm_network ?v = vm_network (en_rec e)" "vm_id ?v = vm_id (en_rec e)" by (simp_all add: clone_def)
  obtain r1 s1 where at: "svc_attach (si_ctx io) (vm_network ?v) (vm_id ?v) s = (r1, s1)" by fastforce
  obtain ch s2 where sub: "svc_subscribe ph (vm_cid ?v) s1 = (ch, s2)" by fastforce
  have k1: "kept (vm_network (en_rec e)) (vm_id (en_rec e)) (sv_nets s) (sv_nets s1)"
    using svc_attach_nets(1) [OF at] v by simp
  have "sv_nets s' = sv_nets s1"
    using st e at sub svc_subscribe_frame(3) [OF sub] start_attempts_touches
    by (auto simp: startProcess_def Let_def split: sum.splits prod.splits)
  with k1 show ?thesis by simp
qed


lemma provision_nets:
  assumes "provision v io a s = (r, s')" and e: "sv_heap s a = Some e" "sv_heap s' a = Some e'"
  shows "kept (vm_network (en_rec e)) (vm_id (en_rec e)) (sv_nets s) (sv_nets s')"
    "vm_ip (en_rec e') = vm_ip (en_rec e) \<or>
     (\<exists>x. leased (sv_nets s') (vm_network (en_rec e)) (vm_id (en_rec e)) = Some x \<and> vm_ip (en_rec e') = Addr_String x)"
proof -
  have "kept (vm_network (en_rec e)) (vm_id (en_rec e)) (sv_nets s) (sv_nets s') \<and>
    (vm_ip (en_rec e') = vm_ip (en_rec e) \<or>
     (\<exists>x. leased (sv_nets s') (vm_network (en_rec e)) (vm_id (en_rec e)) = Some x \<and> vm_ip (en_rec e') = Addr_String x))"
  proof (cases "s' = s")
    case False
    obtain pub vol where ok: "pv_key io = Inr pub" "pv_volume io = Inr vol"
      using assms False by (auto simp: provision_def split: sum.splits if_splits)
    define v1 where "v1 = (en_rec e)\<lparr>vm_paths := (vm_paths (en_rec e))\<lparr>pa_volume := vo_path vol\<rparr>, vm_sshPublicKey := pub\<rparr>"
    define e1 where "e1 = e\<lparr>en_volume := Some vol, en_rec := v1\<rparr>"
    obtain r2 s2 where att: "svc_attach (pv_attach io) (vm_network v1) (vm_id v1) (put_entry a e1 s) = (r2, s2)" by fastforce
    have v1: "vm_network v1 = vm_network (en_rec e)" "vm_id v1 = vm_id (en_rec e)" by (simp_all add: v1_def)
    have k: "kept (vm_network (en_rec e)) (vm_id (en_rec e)) (sv_nets s) (sv_nets s2)"
      using svc_attach_nets(1) [OF att] v1 by simp
    have h2: "sv_heap s2 a = Some e1" using svc_attach_frame(2) [OF att] by simp
    show ?thesis
    proof (cases r2)
      case (Inl er)
      then have "s' = s2"
        using arg_cong [OF assms(1), of snd] e False ok att
        by (auto simp: provision_def Let_def v1_def [symmetric] e1_def [symmetric] split: sum.splits if_splits prod.splits)
      with k h2 e show ?thesis by (auto simp: e1_def v1_def)
    next
      case (Inr at)
      then have "s' = snd (persistNetworks (pv_netWrite io)
        (save v (e1\<lparr>en_rec := v1\<lparr>vm_ip := Addr_String (at_ip at), vm_mac := at_mac at\<rparr>\<rparr>)
          (put_entry a (e1\<lparr>en_rec := v1\<lparr>vm_ip := Addr_String (at_ip at), vm_mac := at_mac at\<rparr>\<rparr>) s2)))"
        using arg_cong [OF assms(1), of snd] e False ok att
        by (auto simp: provision_def Let_def v1_def [symmetric] e1_def [symmetric] split: sum.splits if_splits prod.splits)
      with k e svc_attach_nets(2) [OF att Inr] v1 show ?thesis by auto
    qed
  qed (use e in auto)
  then show "kept (vm_network (en_rec e)) (vm_id (en_rec e)) (sv_nets s) (sv_nets s')"
    "vm_ip (en_rec e') = vm_ip (en_rec e) \<or>
     (\<exists>x. leased (sv_nets s') (vm_network (en_rec e)) (vm_id (en_rec e)) = Some x \<and> vm_ip (en_rec e') = Addr_String x)"
    by blast+
qed

lemma on_entry_nets [simp]:
  "sv_nets (fail v msg a s) = sv_nets s" "sv_nets (boot_commit v p a s) = sv_nets s"
  "sv_nets (launch_commit v p a s) = sv_nets s" "sv_nets (clear_handoff a s) = sv_nets s"
  "sv_nets (onNonce v i s) = sv_nets s" "sv_nets (recordQuote v i stg q s) = sv_nets s"
  by (auto simp: fail_def boot_commit_def launch_commit_def clear_handoff_def onNonce_def recordQuote_def on_entry_def
      split: option.splits sum.splits)

lemma startBoot_nets:
  assumes "startBoot v io a s = (r, s')" "sv_heap s a = Some e"
  shows "kept (vm_network (en_rec e)) (vm_id (en_rec e)) (sv_nets s) (sv_nets s')"
proof -
  obtain r1 s1 where sp: "startProcess io a PhaseBoot None s = (r1, s1)" by fastforce
  then have "sv_nets s' = sv_nets s1" using assms by (auto simp: startBoot_def split: sum.splits)
  with startProcess_nets [OF sp assms(2)] show ?thesis by simp
qed

lemma Start_run_nets:
  assumes "Start_run v acquired io a s = (r, s')" "sv_heap s a = Some e"
  shows "kept (vm_network (en_rec e)) (vm_id (en_rec e)) (sv_nets s) (sv_nets s')"
proof -
  obtain r1 s1 where vol: "openVolume acquired a s = (r1, s1)" by fastforce
  obtain e1 where e1: "sv_heap s1 a = Some e1" "vol_rel e e1"
    using touches_at [OF openVolume_touches(1) [OF vol] assms(2)] by blast
  have v: "vm_network (en_rec e1) = vm_network (en_rec e)" "vm_id (en_rec e1) = vm_id (en_rec e)"
    using e1(2) by (auto simp: vol_rel_def)
  obtain r2 s2 where sb: "startBoot v io a s1 = (r2, s2)" by fastforce
  have "sv_nets s' = sv_nets s1 \<or> sv_nets s' = sv_nets s2"
    using assms(1) vol sb by (auto simp: Start_run_def split: sum.splits)
  with startBoot_nets [OF sb e1(1)] openVolume_touches(4) [OF vol] v show ?thesis by auto
qed

lemma teardown_nets:
  assumes "sv_heap s a = Some e"
  shows "mgr_inv (sv_nets s) \<longrightarrow> mgr_inv (sv_nets (teardown removed a s))"
    "(n, j) \<noteq> (vm_network (en_rec e), vm_id (en_rec e)) \<Longrightarrow>
      leased (sv_nets (teardown removed a s)) n j = leased (sv_nets s) n j"
proof -
  let ?name = "vm_network (en_rec e)" and ?i = "vm_id (en_rec e)"
  have eq: "sv_nets (teardown removed a s) = (case map_of (mg_nets (sv_nets s)) ?name of None \<Rightarrow> sv_nets s
      | Some n \<Rightarrow> (sv_nets s)\<lparr>mg_nets := AList.update ?name (snd (Network_Detach ?i n)) (mg_nets (sv_nets s))\<rparr>)"
    using assms by (auto simp: teardown_def svc_detach_def with_network_def Let_def split: option.splits prod.splits)
  have d: "nw_spec (snd (Network_Detach ?i n)) = nw_spec n" "nw_dir (snd (Network_Detach ?i n)) = nw_dir n"
    "j \<noteq> ?i \<Longrightarrow> map_of (nw_leases (snd (Network_Detach ?i n))) j = map_of (nw_leases n) j" for n j
    by (auto simp: Network_Detach_def delete_conv' split: option.splits)
  show "mgr_inv (sv_nets s) \<longrightarrow> mgr_inv (sv_nets (teardown removed a s))"
  proof
    assume m: "mgr_inv (sv_nets s)"
    have "net_inv n" if "map_of (mg_nets (sv_nets s)) ?name = Some n" for n
      using m map_of_SomeD [OF that] by (auto simp: mgr_inv_def list_all_iff)
    with m d show "mgr_inv (sv_nets (teardown removed a s))"
      by (auto simp: eq detach_inv mgr_inv_update split: option.splits)
  qed
  show "(n, j) \<noteq> (?name, ?i) \<Longrightarrow> leased (sv_nets (teardown removed a s)) n j = leased (sv_nets s) n j"
    using d(3) by (auto simp: eq leased_def update_conv' split: option.splits)
qed


lemma newNetwork_empty: "newNetwork io dir spec [] = Inr (n, cfg) \<Longrightarrow> nw_leases n = []"
  by (auto simp: newNetwork_def parseLeases_def guardE_def Let_def bindE_def split: sum.splits if_splits prod.splits)

lemma Manager_Create_leased: "leased (snd (Manager_Create c io spec m)) n j = leased m n j"
  by (auto simp: Manager_Create_def Manager_add_def leased_def update_conv' dest: newNetwork_empty
      split: option.splits sum.splits prod.splits) (force dest: newNetwork_empty map_of_SomeD)+

lemma Manager_Delete_leased:
  assumes "mgr_inv m"
  shows "leased (snd (Manager_Delete c io name m)) n j = leased m n j"
  by (auto simp: Manager_Delete_def leased_def delete_conv' Network_Leases_def split: option.splits prod.splits)

lemma nets_states:
  "sv_nets (snd (ServeIMDS l name s)) = sv_nets s" "sv_nets (snd (persistNetworks ok s)) = sv_nets s"
  by (auto simp: ServeIMDS_def split: sum.splits)

lemma CreateNetwork_nets:
  assumes "CreateNetwork c spec s = (r, s')" "mgr_inv (sv_nets s)"
  shows "mgr_inv (sv_nets s')" "leased (sv_nets s') n j = leased (sv_nets s) n j"
proof -
  obtain r1 m where cr: "Manager_Create (nc_ctx c) (nc_io c) (spec\<lparr>sp_enableIMDS := True\<rparr>) (sv_nets s) = (r1, m)" by fastforce
  have m: "mgr_inv m" "leased m n j = leased (sv_nets s) n j" for n j
    using cr add_inv [OF assms(2), of "[]"] Manager_Create_leased by (metis Manager_Create_def distinct.simps(1) list.simps(8) snd_conv)+
  have "sv_nets s' = m \<or> (\<exists>d io name. sv_nets s' = snd (Manager_Delete d io name m))"
  proof (cases r1)
    case (Inl e)
    with assms(1) cr show ?thesis by (auto simp: CreateNetwork_def)
  next
    case (Inr nw)
    obtain r2 s1 where sv: "ServeIMDS (nc_listen c) (sp_name (nw_spec nw)) (s\<lparr>sv_nets := m\<rparr>) = (r2, s1)" by fastforce
    have "sv_nets s1 = m" using nets_states(1) [of "nc_listen c" "sp_name (nw_spec nw)" "s\<lparr>sv_nets := m\<rparr>"] sv by simp
    with assms(1) cr Inr sv show ?thesis
      by (auto simp: CreateNetwork_def persistNetworks_def split: sum.splits prod.splits if_splits) blast
  qed
  then show "mgr_inv (sv_nets s')" "leased (sv_nets s') n j = leased (sv_nets s) n j"
    using m delete_inv Manager_Delete_leased by metis+
qed

lemma DeleteNetwork_nets:
  assumes "DeleteNetwork c name s = (r, s')" "mgr_inv (sv_nets s)"
  shows "mgr_inv (sv_nets s')" "leased (sv_nets s') n j = leased (sv_nets s) n j"
proof -
  have "sv_nets s' = sv_nets s \<or> sv_nets s' = snd (Manager_Delete (nc_ctx c) (nc_io c) name (sv_nets s))"
    using assms(1) by (auto simp: DeleteNetwork_def persistNetworks_def split: if_splits prod.splits sum.splits)
  then show "mgr_inv (sv_nets s')" "leased (sv_nets s') n j = leased (sv_nets s) n j"
    using assms(2) delete_inv Manager_Delete_leased by metis+
qed

text \<open>What a step does to the leases: it keeps them, except those of the VM it starts
  or tears down.\<close>

definition nets_change :: "service \<Rightarrow> svc_event \<Rightarrow> service \<Rightarrow> bool" where
  "nets_change s ev s' \<longleftrightarrow> mgr_inv (sv_nets s') \<and>
     (\<forall>n j. leased (sv_nets s') n j = leased (sv_nets s) n j \<or>
        (\<exists>a e. sv_heap s a = Some e \<and> n = vm_network (en_rec e) \<and> j = vm_id (en_rec e) \<and>
           (leased (sv_nets s) n j = None \<or> ev = EvTeardown a)))"

lemma nets_same: "sv_nets s' = sv_nets s \<Longrightarrow> mgr_inv (sv_nets s) \<Longrightarrow> nets_change s ev s'"
  by (simp add: nets_change_def)

lemma nets_kept:
  "sv_heap s a = Some e \<Longrightarrow> kept (vm_network (en_rec e)) (vm_id (en_rec e)) (sv_nets s) (sv_nets s') \<Longrightarrow>
   mgr_inv (sv_nets s) \<Longrightarrow> nets_change s ev s'"
  unfolding nets_change_def kept_def by metis

lemma step_nets:
  assumes inv: "mgr_inv (sv_nets s)" and step: "svc_step s ev s'"
  shows "nets_change s ev s'"
  using step
proof (cases rule: svc_step.cases)
  case (st_create v fs draws machine mkdir sp a)
  from st_create(2) show ?thesis by (rule allocate_cases) (use inv in \<open>simp add: nets_same\<close>)
next
  case (st_provision a e v io r s1)
  obtain e1 where e1: "sv_heap s1 a = Some e1"
    using touches_at [OF provision_touches [OF st_provision(5)] st_provision(3)] by blast
  show ?thesis using provision_nets(1) [OF st_provision(5,3) e1] st_provision inv by (auto intro: nets_kept)
next
  case (st_launch a e io img r s1 v)
  then show ?thesis using startProcess_nets [OF st_launch(5,3)] inv by (auto intro!: nets_kept split: sum.splits)
next
  case (st_start a e v acquired io r s1)
  then show ?thesis using Start_run_nets [OF st_start(5,3)] inv by (auto intro!: nets_kept)
next
  case (st_boot a e v io)
  obtain r s1 where sb: "startBoot v io a s = (r, s1)" by fastforce
  then have "sv_nets s' = sv_nets s1" using st_boot by (auto simp: boot_run_def split: sum.splits)
  with st_boot startBoot_nets [OF sb st_boot(3)] inv show ?thesis by (auto intro!: nets_kept)
next
  case (st_teardown a e removed)
  have n: "sv_nets s' = sv_nets (teardown removed a s)" using st_teardown by simp
  have "leased (sv_nets s') n j = leased (sv_nets s) n j \<or> (n, j) = (vm_network (en_rec e), vm_id (en_rec e))" for n j
    using teardown_nets(2) [OF st_teardown(3)] n by metis
  moreover have "mgr_inv (sv_nets s')" using teardown_nets(1) [OF st_teardown(3)] inv n by simp
  ultimately show ?thesis using st_teardown(1,3) unfolding nets_change_def by (metis prod.inject)
next
  case (st_create_network c spec r)
  then show ?thesis using CreateNetwork_nets inv by (simp add: nets_change_def)
next
  case (st_delete_network c name r)
  then show ?thesis using DeleteNetwork_nets inv by (simp add: nets_change_def)
next
  case (st_supervise a e p v sev)
  then show ?thesis using inv
    by (auto simp: run_round_def onExit_def onTimeout_def onNotify_def on_entry_def svc_unsubscribe_def
        intro!: nets_same split: sup_event.splits option.splits prod.splits if_splits)
next
  case (st_stop v a)
  then show ?thesis using inv by (auto simp: Stop_mark_def intro!: nets_same split: option.splits if_splits)
next
  case (st_delete a e v s1)
  then show ?thesis using inv by (auto simp: Delete_mark_def intro!: nets_same split: option.splits if_splits)
next
  case (st_handoff a e v ok s1)
  then show ?thesis using inv by (auto simp: boot_check_def Let_def intro!: nets_same split: option.splits if_splits)
next
  case (st_drop a e w)
  then show ?thesis using inv by (auto simp: drop_entry_def intro!: nets_same)
next
  case (st_visit a e v)
  then show ?thesis using inv
    by (auto simp: close_visit_def Stop_mark_def Let_def intro!: nets_same split: option.splits if_splits sum.splits prod.splits)
next
  case (st_report w i rep r)
  then show ?thesis using inv
    by (auto simp: StoreReport_def on_entry_def Let_def intro!: nets_same split: option.splits sum.splits)
qed (use inv in \<open>auto simp: Close_start_def Close_cancel_def intro!: nets_same\<close>)


section \<open>Addresses\<close>

definition lease_inv :: "service \<Rightarrow> bool" where
  "lease_inv s \<longleftrightarrow> mgr_inv (sv_nets s) \<and>
     (\<forall>a e. mapped s a e \<and> en_op e \<noteq> OpTorn \<and> vm_ip (en_rec e) \<noteq> [] \<longrightarrow>
        (\<exists>x. leased (sv_nets s) (vm_network (en_rec e)) (vm_id (en_rec e)) = Some x \<and> vm_ip (en_rec e) = Addr_String x))"

lemma vm_change_ip:
  "vm_change c a ev e e' \<Longrightarrow> vm_ip (en_rec e') = vm_ip (en_rec e) \<or> (\<exists>f. ev = EvProvision a f)"
  by (erule vm_change.cases) (auto simp: cid_rel_def vol_rel_def)

lemma vm_change_network: "vm_change c a ev e e' \<Longrightarrow> vm_network (en_rec e') = vm_network (en_rec e)"
  by (erule vm_change.cases) (auto simp: rels_attestation)

lemma vm_change_torn:
  "vm_change c a ev e e' \<Longrightarrow> en_op e = OpTorn \<Longrightarrow> en_op e' = OpTorn \<or> ev = EvDrop a"
  by (erule vm_change.cases) (auto simp: rec_rels)

lemma provision_ip:
  assumes "svc_step s (EvProvision a f) s'" "sv_heap s a = Some e" "sv_heap s' a = Some e'"
  shows "vm_ip (en_rec e') = vm_ip (en_rec e) \<or>
     (\<exists>x. leased (sv_nets s') (vm_network (en_rec e)) (vm_id (en_rec e)) = Some x \<and> vm_ip (en_rec e') = Addr_String x)"
  using assms(1)
proof (cases rule: svc_step.cases)
  case (st_provision d v io r s1)
  obtain e1 where e1: "sv_heap s1 a = Some e1"
    using touches_at [OF provision_touches [OF st_provision(5)] assms(2)] by blast
  have "vm_ip (en_rec e') = vm_ip (en_rec e1)" "sv_nets s' = sv_nets s1" using assms(3) e1 st_provision(1,2) by auto
  with provision_nets(2) [OF st_provision(5) assms(2) e1] show ?thesis by simp
qed


lemma teardown_op: "svc_step s (EvTeardown a) s' \<Longrightarrow> sv_heap s' a = Some e' \<Longrightarrow> en_op e' = OpTorn"
  by (erule svc_step.cases; auto)

lemma lease_step:
  assumes ids: "ids_ok s" and inv: "lease_inv s" and step: "svc_step s ev s'"
  shows "lease_inv s'"
proof -
  have nc: "nets_change s ev s'" using inv step_nets [OF _ step] by (simp add: lease_inv_def)
  have "\<exists>x. leased (sv_nets s') (vm_network (en_rec e')) (vm_id (en_rec e')) = Some x \<and> vm_ip (en_rec e') = Addr_String x"
    if m: "mapped s' a e'" and op: "en_op e' \<noteq> OpTorn" and ip: "vm_ip (en_rec e') \<noteq> []" for a e'
    using ids step m
  proof (cases rule: step_mapped)
    case (new now i m' sp)
    with ip show ?thesis by (simp add: new_entry_def)
  next
    case (old e)
    have h: "sv_heap s a = Some e" "sv_heap s' a = Some e'" using m old by (simp_all add: mapped_def)
    have same: "vm_network (en_rec e') = vm_network (en_rec e)" "vm_id (en_rec e') = vm_id (en_rec e)"
      using old(2) vm_change_network vm_change_id by blast+
    have torn: "en_op e \<noteq> OpTorn" using old(2) vm_change_torn op drop_unmaps step m by metis
    show ?thesis
    proof (cases "vm_ip (en_rec e') = vm_ip (en_rec e)")
      case True
      then obtain x where x: "leased (sv_nets s) (vm_network (en_rec e)) (vm_id (en_rec e)) = Some x" "vm_ip (en_rec e) = Addr_String x"
        using inv old(1) torn ip by (auto simp: lease_inv_def)
      have "leased (sv_nets s') (vm_network (en_rec e)) (vm_id (en_rec e)) = Some x"
      proof (rule ccontr)
        assume "leased (sv_nets s') (vm_network (en_rec e)) (vm_id (en_rec e)) \<noteq> Some x"
        then obtain b d where "sv_heap s b = Some d" "vm_id (en_rec e) = vm_id (en_rec d)" "ev = EvTeardown b"
          using nc x(1) unfolding nets_change_def by (metis option.distinct(1))
        moreover from this have "b = a" using ids h(1) unfolding ids_ok_def by metis
        ultimately show False using teardown_op step h(2) op by blast
      qed
      with x True same show ?thesis by simp
    next
      case False
      then obtain f where "ev = EvProvision a f" using old(2) vm_change_ip by blast
      with provision_ip [OF _ h] step False same show ?thesis by auto
    qed
  qed
  note own = this
  have "mgr_inv (sv_nets s')" using nc by (simp add: nets_change_def)
  then show ?thesis unfolding lease_inv_def
    by (intro conjI allI impI) (assumption | elim conjE, rule own, assumption+)+
qed

lemma run_lease_inv: "svc_run es s \<Longrightarrow> lease_inv s"
  unfolding svc_run_def
proof (induction rule: reachable.induct)
  case (reach_init s)
  then show ?case by (auto simp: svc_init_def Service_New_def lease_inv_def mapped_def)
next
  case (reach_step es s ev s')
  then show ?case using lease_step run_ids_ok unfolding svc_run_def by blast
qed



lemma addresses_distinct:
  assumes run: "svc_run es s" and m: "mapped s a e" "mapped s b d"
    and op: "en_op e \<noteq> OpTorn" "en_op d \<noteq> OpTorn" and net: "vm_network (en_rec e) = vm_network (en_rec d)"
    and ip: "vm_ip (en_rec e) = vm_ip (en_rec d)" "vm_ip (en_rec e) \<noteq> []"
  shows "a = b"
proof -
  have inv: "lease_inv s" by (rule run_lease_inv [OF run])
  obtain x where x: "leased (sv_nets s) (vm_network (en_rec e)) (vm_id (en_rec e)) = Some x" "vm_ip (en_rec e) = Addr_String x"
    using inv m(1) op(1) ip(2) by (auto simp: lease_inv_def)
  obtain y where y: "leased (sv_nets s) (vm_network (en_rec d)) (vm_id (en_rec d)) = Some y" "vm_ip (en_rec d) = Addr_String y"
    using inv m(2) op(2) ip by (auto simp: lease_inv_def)
  have "x = y" using x y ip by (simp add: Addr_String_inject)
  then obtain n where n: "map_of (mg_nets (sv_nets s)) (vm_network (en_rec e)) = Some n"
      "map_of (nw_leases n) (vm_id (en_rec e)) = Some x" "map_of (nw_leases n) (vm_id (en_rec d)) = Some x"
    using x(1) y(1) net by (auto simp: leased_def split: option.splits)
  have "net_inv n" using inv map_of_SomeD [OF n(1)] by (auto simp: lease_inv_def mgr_inv_def list_all_iff)
  then have "vm_id (en_rec e) = vm_id (en_rec d)" using lease_ok_inject n(2,3) unfolding net_inv_def by blast
  then show ?thesis using m by (simp add: mapped_def)
qed

lemma entries_mapped:
  assumes "ids_ok s" "distinct (map fst (sv_vms s))" "d \<in> set (entries s)"
  obtains b where "mapped s b d"
proof -
  from assms(3) obtain i b where ib: "(i, b) \<in> set (sv_vms s)" "sv_heap s b = Some d"
    by (auto simp: entries_def map_filter_def)
  then have "map_of (sv_vms s) i = Some b" using assms(2) by simp
  moreover from this have "vm_id (en_rec d) = i" using assms(1) ib(2) unfolding ids_ok_def by (metis option.inject)
  ultimately show thesis using ib that by (simp add: mapped_def)
qed

lemma run_distinct: "svc_run es s \<Longrightarrow> distinct (map fst (sv_vms s))"
  unfolding svc_run_def
proof (induction rule: reachable.induct)
  case (reach_init s)
  then show ?case by (auto simp: svc_init_def Service_New_def)
next
  case (reach_step es s ev s')
  then show ?case
    using step_frame [OF reach_step.hyps(2)]
    by (auto simp: frame_def Close_start_def Close_cancel_def close_visit_frame elim!: allocate_cases
        intro: distinct_update distinct_delete)
qed

text \<open>
  \<open>LookupByIP\<close> finds the VM that holds the address: with every VM of that address on
  one network and none of them being torn down, it returns the one whose lease it is.
  On networks with overlapping ranges the first assumption can fail.
\<close>

theorem lookup_by_ip:
  assumes run: "svc_run es s" and e: "map_of (sv_vms s) i = Some a" "sv_heap s a = Some e"
    and ok: "vm_ip (en_rec e) \<noteq> []" "vm_st (en_rec e) \<noteq> StateDeleting" "en_op e \<noteq> OpTorn"
    and others: "\<And>d. d \<in> set (entries s) \<Longrightarrow> vm_ip (en_rec d) = vm_ip (en_rec e) \<Longrightarrow>
      vm_network (en_rec d) = vm_network (en_rec e) \<and> en_op d \<noteq> OpTorn"
  shows "LookupByIP s (vm_ip (en_rec e)) = Some (instanceOf e)"
proof -
  have ids: "ids_ok s" by (rule run_ids_ok [OF run])
  have "vm_id (en_rec e) = i" using ids e unfolding ids_ok_def by (metis option.inject)
  with e have m: "mapped s a e" by (simp add: mapped_def)
  let ?P = "\<lambda>d. vm_ip (en_rec d) = vm_ip (en_rec e) \<and> vm_st (en_rec d) \<noteq> StateDeleting"
  have "List.find ?P (entries s) \<noteq> None" using mapped_entries [OF m] ok by (auto simp: find_None_iff)
  then obtain d where d: "List.find ?P (entries s) = Some d" by blast
  then have d': "d \<in> set (entries s)" "?P d" using find_SomeD [OF d] by auto
  obtain b where b: "mapped s b d" using entries_mapped [OF ids run_distinct [OF run] d'(1)] by blast
  have "a = b"
    by (rule addresses_distinct [OF run m b]) (use others [OF d'(1)] d'(2) ok in auto)
  then have "d = e" using m b by (simp add: mapped_def)
  with d show ?thesis by (simp add: LookupByIP_def)
qed

theorem lookup_by_ip_witness:
  "\<exists>s e. svc_run demo_boot s \<and> sv_heap s 0 = Some e \<and> LookupByIP s ''10.0.0.2'' = Some (instanceOf e)"
proof -
  obtain s e p where s: "svc_run demo_boot s" and at: "demo_at demo_open s e"
    and e: "en_op e = OpFree" "vm_st (en_rec e) = StateBooting" "vm_ip (en_rec e) = ''10.0.0.2''"
    by (rule demo_booted)
  have h: "map_of (sv_vms s) ''00000000'' = Some 0" "sv_heap s 0 = Some e" "vm_ip (en_rec e) \<noteq> []"
    "vm_st (en_rec e) \<noteq> StateDeleting" "en_op e \<noteq> OpTorn"
    using at e by (auto simp: demo_at_def demo_open_def)
  have "entries s = [e]" using at by (simp add: entries_def demo_at_def demo_open_def map_filter_simps)
  then have "LookupByIP s (vm_ip (en_rec e)) = Some (instanceOf e)" using e by (intro lookup_by_ip [OF s h]) auto
  with s h e show ?thesis by auto
qed

end
