(* ===== verification/VM_Handlers.thy ===== *)
theory VM_Handlers
  imports VM_Leases
begin

text \<open>
  The handlers \<open>Create\<close>, \<open>Stop\<close>, \<open>Reboot\<close> and \<open>Delete\<close> as they run when nothing
  interleaves, composed of the sections the step relation interleaves, and what they
  leave behind.
\<close>

section \<open>Handlers\<close>

text \<open>\<open>stopProcess\<close> returns when the supervisor has settled the exit.\<close>

definition stopProcess :: "env \<Rightarrow> exit_status \<Rightarrow> nat \<Rightarrow> process \<Rightarrow> service \<Rightarrow> service" where
  "stopProcess v exit a p s = onExit v a p exit (run_timeout s p) s"

definition snapshot :: "nat \<Rightarrow> service \<Rightarrow> vm res" where
  "snapshot a s = (case sv_heap s a of None \<Rightarrow> Inl ErrNotFound | Some e \<Rightarrow> Inr (clone (en_rec e)))"

definition running :: "nat \<Rightarrow> service \<Rightarrow> process option" where
  "running a s = (case sv_heap s a of None \<Rightarrow> None | Some e \<Rightarrow> en_proc e)"

definition Stop :: "env \<Rightarrow> exit_status \<Rightarrow> string \<Rightarrow> service \<Rightarrow> vm res \<times> service" where
  "Stop v exit i s =
     (case lookup s i of
        Inl er \<Rightarrow> (Inl er, s)
      | Inr a \<Rightarrow>
          (case Stop_mark v a s of
             (Inl er, s1) \<Rightarrow> (Inl er, s1)
           | (Inr _, s1) \<Rightarrow>
               (case running a s of
                  None \<Rightarrow> (Inl ErrConflict, s1)
                | Some p \<Rightarrow> let s2 = stopProcess v exit a p s1 in (snapshot a s2, s2))))"

definition Reboot :: "env \<Rightarrow> exit_status \<Rightarrow> volume res \<Rightarrow> start_io \<Rightarrow> string \<Rightarrow> service \<Rightarrow> vm res \<times> service" where
  "Reboot v exit acquired io i s =
     (case Stop v exit i s of
        (Inl er, s1) \<Rightarrow> (Inl er, s1)
      | (Inr _, s1) \<Rightarrow> Start v acquired io i s1)"

definition Delete :: "env \<Rightarrow> exit_status \<Rightarrow> bool \<Rightarrow> bool \<Rightarrow> string \<Rightarrow> service \<Rightarrow> unit res \<times> service" where
  "Delete v exit removed netWrite i s =
     (case lookup s i of
        Inl er \<Rightarrow> (Inl er, s)
      | Inr a \<Rightarrow>
          (case Delete_mark v i a s of
             (Inl er, s1) \<Rightarrow> (Inl er, s1)
           | (Inr _, s1) \<Rightarrow>
               let s2 = (case running a s1 of None \<Rightarrow> s1 | Some p \<Rightarrow> stopProcess v exit a p s1)
               in drop_entry netWrite i (teardown removed a s2)))"

definition Create ::
  "env \<Rightarrow> (string \<Rightarrow> file_kind) \<Rightarrow> catalog \<Rightarrow> bytes option list \<Rightarrow> bytes option \<Rightarrow> bool \<Rightarrow> prov_io \<Rightarrow> start_io \<Rightarrow>
   bool \<Rightarrow> bool \<Rightarrow> vm list \<Rightarrow> error \<Rightarrow> vm_spec \<Rightarrow> service \<Rightarrow> ((vm option \<times> error option) \<times> service) option" where
  "Create v fs cat draws machine mkdir pio sio removed netWrite later ending sp s =
     (case Create_begin v fs cat draws machine mkdir sp s of
        None \<Rightarrow> None
      | Some (Inl er, s1) \<Rightarrow> Some ((None, Some er), s1)
      | Some (Inr (a, img), s1) \<Rightarrow>
          (case launch v pio sio removed netWrite a img s1 of
             (Inl er, s2) \<Rightarrow> Some ((None, Some er), s2)
           | (Inr _, s2) \<Rightarrow>
               (case snapshot a s2 of
                  Inl er \<Rightarrow> Some ((None, Some er), s2)
                | Inr r \<Rightarrow>
                    let w = vsp_waitFor (applyDefaults s sp)
                    in (case waitFor w r later ending of (r', er) \<Rightarrow> Some ((Some r', er), s2)))))"

definition demo_empty :: service where
  "demo_empty = Service_New demo_opts (demo_mgr\<lparr>mg_nets := [(''default'', demo_vm_net\<lparr>nw_leases := []\<rparr>)]\<rparr>) (newNotifyListener 4711)"

definition demo_images :: catalog where
  "demo_images = \<lparr>ca_dir = ''/i'', ca_images = [\<lparr>im_id = ''i'', im_version = ''1'', im_uki = [], im_disk = [], im_sysupdateDir = [],
     im_kubernetesVersions = [], im_policy = None\<rparr>]\<rparr>"

lemma demo_begin:
  obtains a img s1 where "Create_begin demo_env (\<lambda>_. NoFile) demo_images [Some [0, 0, 0, 0]] (Some []) True demo_vspec demo_empty = Some (Inr (a, img), s1)"
    "sv_heap s1 a \<noteq> None"
proof -
  let ?sp = "applyDefaults demo_empty demo_vspec"
  have sp: "?sp = demo_vspec\<lparr>vsp_region := ''r'', vsp_zone := ''default'', vsp_waitFor := WaitNone\<rparr>"
    by (simp add: applyDefaults_def demo_vspec_def demo_empty_def Service_New_def demo_opts_def)
  have v: "Spec_validate ?sp = Inr ()"
    unfolding sp by code_simp
  obtain img sp2 where r: "resolveImage demo_images ?sp = Inr (img, sp2)" and net: "vsp_network sp2 = ''default''"
    unfolding sp by (simp add: resolveImage_def demo_vspec_def demo_images_def Catalog_Get_def)
  show thesis
  using v r net that
  by (simp add: Create_begin_def Let_def bindE_def Manager_Get_def demo_empty_def Service_New_def
     allocate_def entries_def map_filter_simps randomHex_def fileExists_def persist_def demo_env_def demo_mgr_def)
qed


section \<open>What the handlers leave behind\<close>

definition unknown_clean :: "service \<Rightarrow> bool" where
  "unknown_clean s \<longleftrightarrow> (\<forall>i. map_of (sv_vms s) i = None \<longrightarrow> sv_disk s i = None \<and> (\<forall>n. leased (sv_nets s) n i = None))"

definition same_vms :: "service \<Rightarrow> service \<Rightarrow> bool" where
  "same_vms s s' \<longleftrightarrow> (\<forall>i. map_of (sv_vms s') i = map_of (sv_vms s) i) \<and> sv_disk s' = sv_disk s \<and>
     (\<forall>n i. leased (sv_nets s') n i = leased (sv_nets s) n i)"

lemma teardown_own:
  assumes "sv_heap s a = Some e"
  shows "leased (sv_nets (teardown removed a s)) (vm_network (en_rec e)) (vm_id (en_rec e)) = None"
  using assms
  by (auto simp: teardown_def svc_detach_def with_network_def Let_def leased_def Network_Detach_def update_conv' delete_conv'
      split: option.splits prod.splits)

text \<open>Everything a failed start of the installer did to the disk and the leases
  concerns the VM itself.\<close>

definition only_own :: "string \<Rightarrow> string \<Rightarrow> service \<Rightarrow> service \<Rightarrow> bool" where
  "only_own name i s s' \<longleftrightarrow> sv_vms s' = sv_vms s \<and> (\<forall>j. j \<noteq> i \<longrightarrow> sv_disk s' j = sv_disk s j) \<and>
     kept name i (sv_nets s) (sv_nets s')"

lemma only_own_trans: "only_own n i s s1 \<Longrightarrow> only_own n i s1 s2 \<Longrightarrow> only_own n i s s2"
  unfolding only_own_def using kept_trans by auto


lemma save_disk: "j \<noteq> vm_id (en_rec e) \<Longrightarrow> sv_disk (save v e s) j = sv_disk s j"
  by (simp add: save_def persist_def)

lemma disk_simps [simp]:
  "sv_disk (put_entry a e s) = sv_disk s" "sv_disk (snd (persistNetworks ok s)) = sv_disk s"
  "sv_disk (svc_unsubscribe ph cid s) = sv_disk s" "sv_disk (broadcastLocked s) = sv_disk s"
  "sv_disk (snd (svc_subscribe ph cid s)) = sv_disk s" "sv_disk (snd (svc_attach c n i s)) = sv_disk s"
  "sv_disk (svc_detach n i s) = sv_disk s"
  by (auto simp: put_entry_def persistNetworks_def svc_unsubscribe_def broadcastLocked_def svc_subscribe_def svc_attach_def
      svc_detach_def with_network_def split: prod.splits option.splits sum.splits)

lemma reassignCID_disk:
  assumes "reassignCID v a prev s = (r, s')" "sv_heap s a = Some e" "j \<noteq> vm_id (en_rec e)"
  shows "sv_disk s' j = sv_disk s j"
  using assms by (auto simp: reassignCID_def Let_def persist_def split: if_splits)

lemma start_attempts_disk:
  "start_attempts io ph img att sock a left v ch s = (r, s') \<Longrightarrow> sv_heap s a = Some e \<Longrightarrow> j \<noteq> vm_id (en_rec e) \<Longrightarrow>
   sv_disk s' j = sv_disk s j"
proof (induction left arbitrary: v ch s e)
  case 0
  then show ?case by (subst (asm) start_attempts.simps) (auto simp: Let_def split: sum.splits)
next
  case (Suc left)
  show ?case
  proof (cases "si_qemu io (maxCIDRetries - Suc left) (qemuSpec s v ph img (at_socketPath att) (at_mac att) sock)")
    case (Inr h)
    with Suc.prems show ?thesis by (subst (asm) start_attempts.simps) (auto simp: Let_def)
  next
    case (Inl f)
    obtain er msg where f: "f = (er, msg)" by (cases f)
    obtain r1 s1 where re: "reassignCID (si_env io (maxCIDRetries - Suc left)) a (vm_cid v) s = (r1, s1)" by fastforce
    note d1 = reassignCID_disk [OF re Suc.prems(2,3)]
    show ?thesis
    proof (cases "isCIDInUse msg \<and> \<not> isl r1")
      case False
      then have "s' = svc_unsubscribe ph (vm_cid v) s \<or> s' = svc_unsubscribe ph (vm_cid v) s1"
        using Suc.prems Inl f re by (subst (asm) start_attempts.simps) (auto simp: Let_def split: sum.splits if_splits)
      with d1 show ?thesis by auto
    next
      case True
      then obtain new where r1: "r1 = Inr new" by (cases r1) auto
      obtain ch' s2 where sub: "svc_subscribe ph new (svc_unsubscribe ph (vm_cid v) s1) = (ch', s2)" by fastforce
      have rest: "start_attempts io ph img att sock a left (v\<lparr>vm_cid := new\<rparr>) ch' s2 = (r, s')"
        using Suc.prems Inl f re r1 sub True by (subst (asm) start_attempts.simps) (auto simp: Let_def)
      obtain e1 where e1: "sv_heap s1 a = Some e1" "cid_rel e e1"
        using touches_at [OF reassignCID_touches(1) [OF re] Suc.prems(2)] by blast
      have h2: "sv_heap s2 a = Some e1" using e1 svc_subscribe_frame(2) [OF sub] by simp
      have "vm_id (en_rec e1) = vm_id (en_rec e)" using e1(2) by (auto simp: cid_rel_def)
      moreover have "sv_disk s2 = sv_disk s1"
        using disk_simps(5) [of ph new "svc_unsubscribe ph (vm_cid v) s1"] sub by simp
      ultimately show ?thesis using Suc.IH [OF rest h2] Suc.prems(3) d1 by simp
    qed
  qed
qed

lemma startProcess_own:
  assumes st: "startProcess io a ph img s = (r, s')" and e: "sv_heap s a = Some e"
  shows "only_own (vm_network (en_rec e)) (vm_id (en_rec e)) s s'"
proof -
  let ?v = "clone (en_rec e)"
  obtain r1 s1 where at: "svc_attach (si_ctx io) (vm_network ?v) (vm_id ?v) s = (r1, s1)" by fastforce
  obtain ch s2 where sub: "svc_subscribe ph (vm_cid ?v) s1 = (ch, s2)" by fastforce
  have d1: "sv_disk s1 = sv_disk s" "sv_heap s1 = sv_heap s" using disk_simps(6) at svc_attach_frame [OF at] by (metis snd_conv)+
  have d2: "sv_disk s2 = sv_disk s" "sv_heap s2 = sv_heap s"
    using disk_simps(5) [of ph "vm_cid ?v" s1] sub d1 svc_subscribe_frame [OF sub] by auto
  have "s' = s1 \<or> (\<exists>att sock r3. start_attempts io ph img att sock a maxCIDRetries ?v ch s2 = (r3, s'))"
    using st e at sub by (auto simp: startProcess_def Let_def split: sum.splits prod.splits)
  then have "sv_disk s' j = sv_disk s j" if "j \<noteq> vm_id (en_rec e)" for j
    using start_attempts_disk [of io ph img _ _ a maxCIDRetries ?v ch s2 _ s' e j] d1 d2 e that by auto
  moreover have "sv_vms s' = sv_vms s" using touches_at [OF startProcess_touches(1) [OF st] e] by blast
  ultimately show ?thesis using startProcess_nets [OF st e] by (simp add: only_own_def)
qed

lemma provision_own:
  assumes "provision v io a s = (r, s')" and e: "sv_heap s a = Some e"
  shows "only_own (vm_network (en_rec e)) (vm_id (en_rec e)) s s'"
proof -
  obtain e' where e': "sv_heap s' a = Some e'" "sv_vms s' = sv_vms s"
    using touches_at [OF provision_touches [OF assms(1)] e] by blast
  have "sv_disk s' j = sv_disk s j" if j: "j \<noteq> vm_id (en_rec e)" for j
  proof -
    have at: "sv_disk s2 = sv_disk s1" if "svc_attach c n i s1 = (r2, s2)" for c n i s1 r2 s2
      using disk_simps(6) [of c n i s1] that by simp
    show ?thesis
      using arg_cong [OF assms(1), of snd] e j
      by (auto simp: provision_def Let_def save_disk dest!: at split: sum.splits if_splits prod.splits)
  qed
  with provision_nets(1) [OF assms(1) e e'(1)] e'(2) show ?thesis by (simp add: only_own_def)
qed


lemma launch_failed:
  assumes "launch v pio sio True netWrite a img s = (Inl er, s')" and e: "sv_heap s a = Some e"
  obtains s2 e2 where "sv_heap s2 a = Some e2" "vm_id (en_rec e2) = vm_id (en_rec e)" "vm_network (en_rec e2) = vm_network (en_rec e)"
    "only_own (vm_network (en_rec e)) (vm_id (en_rec e)) s s2" "s' = discard True netWrite a s2"
proof -
  obtain r1 s1 where pr: "provision v pio a s = (r1, s1)" by fastforce
  obtain e1 where e1: "sv_heap s1 a = Some e1" "prov_rel e e1"
    using touches_at [OF provision_touches [OF pr] e] by blast
  have i1: "vm_id (en_rec e1) = vm_id (en_rec e)" "vm_network (en_rec e1) = vm_network (en_rec e)"
    using e1(2) by (auto simp: prov_rel_def)
  note o1 = provision_own [OF pr e]
  show thesis
  proof (cases r1)
    case (Inl er1)
    with assms(1) pr show thesis by (intro that [OF e1(1) i1 o1]) (simp add: launch_def)
  next
    case (Inr u)
    obtain r2 s2 where sp: "startProcess sio a PhaseInstall (Some img) s1 = (r2, s2)" by fastforce
    obtain e2 where e2: "sv_heap s2 a = Some e2" "cid_rel e1 e2"
      using touches_at [OF startProcess_touches(1) [OF sp] e1(1)] by blast
    have i2: "vm_id (en_rec e2) = vm_id (en_rec e)" "vm_network (en_rec e2) = vm_network (en_rec e)"
      using e2(2) i1 by (auto simp: cid_rel_def)
    have "only_own (vm_network (en_rec e)) (vm_id (en_rec e)) s s2"
      using only_own_trans [OF o1] startProcess_own [OF sp e1(1)] i1 by simp
    with assms(1) pr Inr sp show thesis by (intro that [OF e2(1) i2]) (auto simp: launch_def split: sum.splits)
  qed
qed

definition apart_from :: "string \<Rightarrow> string \<Rightarrow> service \<Rightarrow> service \<Rightarrow> bool" where
  "apart_from n i s s' \<longleftrightarrow> (\<forall>j. j \<noteq> i \<longrightarrow> map_of (sv_vms s') j = map_of (sv_vms s) j \<and> sv_disk s' j = sv_disk s j) \<and>
     (\<forall>m j. (m, j) \<noteq> (n, i) \<longrightarrow> leased (sv_nets s') m j = leased (sv_nets s) m j)"

lemma own_apart: "apart_from n i s s1 \<Longrightarrow> only_own n i s1 s2 \<Longrightarrow> apart_from n i s s2"
  unfolding apart_from_def only_own_def kept_def by (metis prod.inject)

lemma torn_clean:
  assumes e: "sv_heap s2 a = Some e2" and id: "vm_id (en_rec e2) = i" and own: "apart_from (vm_network (en_rec e2)) i s s2"
  shows "map_of (sv_vms (snd (drop_entry w i (teardown True a s2)))) = (map_of (sv_vms s))(i := None)"
    "sv_disk (snd (drop_entry w i (teardown True a s2))) = (sv_disk s)(i := None)"
    "leased (sv_nets (snd (drop_entry w i (teardown True a s2)))) n j =
      (if (n, j) = (vm_network (en_rec e2), i) then None else leased (sv_nets s) n j)"
proof -
  let ?n = "vm_network (en_rec e2)"
  have td: "sv_vms (teardown True a s2) = sv_vms s2" using teardown_simps(2) by (simp add: frame_def)
  show "map_of (sv_vms (snd (drop_entry w i (teardown True a s2)))) = (map_of (sv_vms s))(i := None)"
    using own td by (auto simp: apart_from_def delete_conv')
  have "sv_disk (teardown True a s2) = (sv_disk s2)(i := None)"
    using e id by (simp add: teardown_def Let_def)
  then show "sv_disk (snd (drop_entry w i (teardown True a s2))) = (sv_disk s)(i := None)"
    using own by (auto simp: drop_entry_def apart_from_def)
  show "leased (sv_nets (snd (drop_entry w i (teardown True a s2)))) n j =
      (if (n, j) = (?n, i) then None else leased (sv_nets s) n j)"
    using teardown_own [OF e] teardown_nets(2) [OF e, of n j] own id unfolding apart_from_def by (auto simp: drop_entry_def)
qed

lemma launch_apart:
  assumes "launch v pio sio True netWrite a img s1 = (Inl er, s')" and e: "sv_heap s1 a = Some e"
    and own: "apart_from (vm_network (en_rec e)) (vm_id (en_rec e)) s s1"
    and clean: "map_of (sv_vms s) (vm_id (en_rec e)) = None" "sv_disk s (vm_id (en_rec e)) = None"
      "leased (sv_nets s) (vm_network (en_rec e)) (vm_id (en_rec e)) = None"
  shows "same_vms s s'"
  using assms(1) e
proof (rule launch_failed)
  fix s2 e2
  assume h: "sv_heap s2 a = Some e2" "vm_id (en_rec e2) = vm_id (en_rec e)" "vm_network (en_rec e2) = vm_network (en_rec e)"
    "only_own (vm_network (en_rec e)) (vm_id (en_rec e)) s1 s2" "s' = discard True netWrite a s2"
  have "apart_from (vm_network (en_rec e2)) (vm_id (en_rec e)) s s2" using own_apart [OF own h(4)] h(3) by simp
  note t = torn_clean [OF h(1,2) this, of netWrite]
  have "s' = snd (drop_entry netWrite (vm_id (en_rec e)) (teardown True a s2))" using h by (simp add: discard_def)
  then show "same_vms s s'" using t clean h(3) unfolding same_vms_def by (auto simp: fun_eq_iff)
qed

lemma allocate_apart:
  assumes "allocate v fs draws machine mkdir sp s = Some (Inr a, s')"
  obtains e where "sv_heap s' a = Some e" "apart_from (vm_network (en_rec e)) (vm_id (en_rec e)) s s'"
    "map_of (sv_vms s) (vm_id (en_rec e)) = None"
proof -
  obtain i m where i: "newID fs draws s = Some (Inr i)" "sv_heap s' a = Some (new_entry s (ev_now v) i m sp)"
    "sv_vms s' = AList.update i a (sv_vms s)" "sv_nets s' = sv_nets s"
    using assms by (elim allocate_cases) auto
  have d: "sv_disk s' j = sv_disk s j" if "j \<noteq> i" for j
    using assms that i(1)
    by (auto simp: allocate_def Let_def persist_def new_entry_def split: if_splits option.splits sum.splits prod.splits)
  have "vm_id (en_rec (new_entry s (ev_now v) i m sp)) = i" by (simp add: new_entry_def)
  with i d newID_fresh [OF i(1)] that show thesis by (auto simp: apart_from_def update_conv')
qed

lemma allocate_refused:
  assumes "allocate v fs draws machine mkdir sp s = Some (Inl er, s')" "unknown_clean s"
  shows "same_vms s s'"
  using assms newID_fresh
  by (fastforce simp: allocate_def Let_def persist_def same_vms_def unknown_clean_def
      split: if_splits option.splits sum.splits prod.splits)

lemma map_sum_eq:
  "map_sum id f x = Inl y \<longleftrightarrow> x = Inl y" "map_sum id f x = Inr z \<longleftrightarrow> (\<exists>u. x = Inr u \<and> z = f u)"
  by (cases x; auto)+

lemma same_vms_refl [simp]: "same_vms s s"
  by (simp add: same_vms_def)

lemma launch_heap:
  assumes "launch v pio sio removed netWrite a img s = (Inr u, s')" "sv_heap s a = Some e"
  shows "\<exists>d. sv_heap s' a = Some d"
proof -
  obtain r1 s1 where pr: "provision v pio a s = (r1, s1)" by fastforce
  obtain e1 where e1: "sv_heap s1 a = Some e1" using touches_at [OF provision_touches [OF pr] assms(2)] by blast
  obtain r2 s2 where sp: "startProcess sio a PhaseInstall (Some img) s1 = (r2, s2)" by fastforce
  obtain e2 where "sv_heap s2 a = Some e2" using touches_at [OF startProcess_touches(1) [OF sp] e1] by blast
  with assms(1) pr sp show ?thesis by (auto simp: launch_def launch_commit_def on_entry_def split: sum.splits)
qed

text \<open>
  C10. A \<open>Create\<close> that fails before the installer is up leaves nothing behind: the VMs,
  the records on disk and the leases of every network are what they were, whichever
  step failed, retries with new context ids included.  The only assumptions are that
  an unknown id had no record and no lease before, and that the directory could be
  removed.
\<close>

theorem create_failure_clean:
  assumes clean: "unknown_clean s"
    and create: "Create v fs cat draws machine mkdir pio sio True netWrite later ending sp s = Some ((None, er), s')"
  shows "same_vms s s'"
proof -
  obtain r s1 where begin': "Create_begin v fs cat draws machine mkdir sp s = Some (r, s1)"
    using create by (auto simp: Create_def split: option.splits)
  show ?thesis
  proof (cases r)
    case (Inl er1)
    with create begin' have "s' = s1" by (simp add: Create_def)
    moreover have "s1 = s \<or> (\<exists>sp2. allocate v fs draws machine mkdir sp2 s = Some (Inl er1, s1))"
      using begin' Inl by (auto simp: Create_begin_def Let_def map_sum_eq(1) split: sum.splits prod.splits)
    ultimately show ?thesis using clean allocate_refused by auto
  next
    case (Inr ai)
    obtain a img where ai: "ai = (a, img)" by (cases ai)
    from begin' Inr ai obtain sp2 where al: "allocate v fs draws machine mkdir sp2 s = Some (Inr a, s1)"
      by (auto simp: Create_begin_def Let_def map_sum_eq(2) split: sum.splits prod.splits)
    obtain e where e: "sv_heap s1 a = Some e" "apart_from (vm_network (en_rec e)) (vm_id (en_rec e)) s s1"
      "map_of (sv_vms s) (vm_id (en_rec e)) = None"
      using allocate_apart [OF al] by blast
    obtain r2 s2 where la: "launch v pio sio True netWrite a img s1 = (r2, s2)" by fastforce
    show ?thesis
    proof (cases r2)
      case (Inl er2)
      with create begin' Inr ai la have "s' = s2" by (simp add: Create_def)
      with launch_apart [OF la [unfolded Inl] e] e(3) clean show ?thesis by (simp add: unknown_clean_def)
    next
      case (Inr u)
      have "\<exists>d. sv_heap s2 a = Some d" using launch_heap [OF la [unfolded Inr] e(1)] .
      with create begin' \<open>r = Inr ai\<close> ai la Inr show ?thesis
        by (auto simp: Create_def snapshot_def Let_def split: prod.splits)
    qed
  qed
qed


theorem create_failure_clean_witness:
  "\<exists>s'. unknown_clean demo_empty \<and> same_vms demo_empty s' \<and>
     Create demo_env (\<lambda>_. NoFile) demo_images [Some [0, 0, 0, 0]] (Some []) True (demo_pio\<lparr>pv_key := Inl ErrInvalid\<rparr>) demo_sio
       True True [] ErrTimeout demo_vspec demo_empty = Some ((None, Some ErrInvalid), s')"
proof -
  have clean: "unknown_clean demo_empty"
    by (simp add: unknown_clean_def demo_empty_def Service_New_def leased_def demo_mgr_def)
  obtain a img s1 where b: "Create_begin demo_env (\<lambda>_. NoFile) demo_images [Some [0, 0, 0, 0]] (Some []) True demo_vspec demo_empty =
      Some (Inr (a, img), s1)" "sv_heap s1 a \<noteq> None"
    by (rule demo_begin)
  then obtain e where "sv_heap s1 a = Some e" by blast
  then have "launch demo_env (demo_pio\<lparr>pv_key := Inl ErrInvalid\<rparr>) demo_sio True True a img s1 = (Inl ErrInvalid, discard True True a s1)"
    by (simp add: launch_def provision_def)
  with b have c: "Create demo_env (\<lambda>_. NoFile) demo_images [Some [0, 0, 0, 0]] (Some []) True (demo_pio\<lparr>pv_key := Inl ErrInvalid\<rparr>) demo_sio
       True True [] ErrTimeout demo_vspec demo_empty = Some ((None, Some ErrInvalid), discard True True a s1)"
    by (simp add: Create_def)
  from create_failure_clean [OF clean c] clean c show ?thesis by blast
qed

text \<open>
  C21. \<open>Delete\<close> removes exactly the VM: its map entry, its record on disk and its lease go,
  its process is gone, and every other VM, record and lease stays.
\<close>

theorem delete_clean:
  assumes "map_of (sv_vms s) i = Some a" "sv_heap s a = Some e" "vm_id (en_rec e) = i" "vm_st (en_rec e) \<noteq> StateDeleting"
    and "Delete v exit True netWrite i s = (r, s')"
  shows "map_of (sv_vms s') = (map_of (sv_vms s))(i := None) \<and> sv_disk s' = (sv_disk s)(i := None) \<and>
    (\<forall>n j. leased (sv_nets s') n j = (if (n, j) = (vm_network (en_rec e), i) then None else leased (sv_nets s) n j)) \<and>
    running a s' = None"
proof -
  let ?e1 = "marked StateDeleting e"
  define s1 where "s1 = commit v a ?e1 s"
  define s2 where "s2 = (case en_proc e of None \<Rightarrow> s1 | Some p \<Rightarrow> stopProcess v exit a p s1)"
  have del: "Delete_mark v i a s = (Inr (), s1)" using assms(1,2,4) by (simp add: Delete_mark_def s1_def)
  have run1: "running a s1 = en_proc e" by (simp add: running_def s1_def)
  have s': "s' = snd (drop_entry netWrite i (teardown True a s2))"
    using assms(1,5) del run1 by (auto simp: Delete_def lookup_def s2_def Let_def dest: arg_cong [of _ _ snd])
  obtain e2 where e2: "sv_heap s2 a = Some e2" "vm_id (en_rec e2) = i" "vm_network (en_rec e2) = vm_network (en_rec e)" "en_proc e2 = None"
  proof (cases "en_proc e")
    case None
    then show thesis using assms(3) by (intro that [of ?e1]) (simp_all add: s2_def s1_def)
  next
    case (Some p)
    then show thesis using assms(3)
      by (intro that [of "(exited v (run_timeout s1 p) exit p ?e1)\<lparr>en_handoff := installed_run p exit ?e1\<rparr>"])
        (simp_all add: s2_def s1_def stopProcess_def onExit_def on_entry_def)
  qed
  have ap: "apart_from (vm_network (en_rec e2)) i s s2"
    using assms(3) e2
    by (auto simp: apart_from_def s2_def s1_def stopProcess_def onExit_def on_entry_def commit_def save_disk svc_unsubscribe_def split: option.splits)
  have h: "running a s' = None" using e2 by (simp add: s' running_def)
  show ?thesis using torn_clean [OF e2(1,2) ap, of netWrite] h e2(3) s' by auto
qed

theorem delete_clean_witness:
  "\<exists>s e r s'. svc_run demo_boot s \<and> sv_heap s 0 = Some e \<and> en_proc e \<noteq> None \<and>
     Delete demo_env demo_exit True True ''00000000'' s = (r, s') \<and> map_of (sv_vms s') ''00000000'' = None \<and> running 0 s' = None"
proof -
  obtain s e p where s: "svc_run demo_boot s" and at: "demo_at demo_open s e" and e: "en_proc e = Some p" "vm_st (en_rec e) = StateBooting"
    by (rule demo_booted)
  have h: "map_of (sv_vms s) ''00000000'' = Some 0" "sv_heap s 0 = Some e" "vm_id (en_rec e) = ''00000000''" "vm_st (en_rec e) \<noteq> StateDeleting"
    using at e by (auto simp: demo_at_def demo_open_def)
  obtain r s' where d: "Delete demo_env demo_exit True True ''00000000'' s = (r, s')" by fastforce
  from delete_clean [OF h d] s h e d show ?thesis by (metis fun_upd_same option.distinct(1))
qed

lemma stop_settles:
  assumes "map_of (sv_vms s) i = Some a" "sv_heap s a = Some e" "Stop v exit i s = (Inr r, s')"
  obtains d where "sv_heap s' a = Some d" "vm_st (en_rec d) = StateStopped" "en_proc d = None" "r = clone (en_rec d)"
    "vm_installedAt (en_rec d) = vm_installedAt (en_rec e)" "vm_id (en_rec d) = vm_id (en_rec e)"
    "vm_spec' (en_rec d) = vm_spec' (en_rec e)" "sv_vms s' = sv_vms s" "en_proc e \<noteq> None" "sv_closing s' = sv_closing s"
proof -
  obtain p where p: "en_proc e = Some p" "vm_st (en_rec e) \<noteq> StateDeleting"
    using assms by (auto simp: Stop_def lookup_def Stop_mark_def split: if_splits)
  define e1 where "e1 = marked StateStopping e"
  define s1 where "s1 = commit v a e1 s"
  define d where "d = (exited v (run_timeout s1 p) exit p e1)\<lparr>en_handoff := installed_run p exit e1\<rparr>"
  have st: "Stop_mark v a s = (Inr (), s1)" using assms(2) p by (simp add: Stop_mark_def s1_def e1_def)
  have s': "s' = stopProcess v exit a p s1" "snapshot a s' = Inr r"
    using assms p st by (auto simp: Stop_def lookup_def running_def Let_def)
  have h: "sv_heap s' a = Some d"
    by (simp add: s' stopProcess_def onExit_def on_entry_def s1_def d_def)
  have "sv_vms s' = sv_vms s" "sv_closing s' = sv_closing s"
    by (auto simp: s' stopProcess_def onExit_def on_entry_def s1_def svc_unsubscribe_def)
  with h s'(2) p show thesis by (intro that [of d]) (auto simp: d_def e1_def snapshot_def installed_run_def)
qed

lemma Start_boots:
  assumes "map_of (sv_vms s) i = Some a" "sv_heap s a = Some d" "Start v acquired io i s = (Inr r, s')"
  obtains p d2 where "sv_heap s' a = Some (booted v p d2)" "r = clone (en_rec (booted v p d2))"
    "vm_installedAt (en_rec d2) = vm_installedAt (en_rec d)" "vm_spec' (en_rec d2) = vm_spec' (en_rec d)"
    "vm_installedAt (en_rec d) \<noteq> None"
proof -
  have check: "Start_check s d = Inr ()" and "\<exists>u. fst (Start_run v acquired io a s) = Inr u"
    and s': "s' = snd (Start_run v acquired io a s)"
    using assms by (auto simp: Start_def lookup_def split: sum.splits prod.splits)
  then obtain u where run: "Start_run v acquired io a s = (Inr u, s')" by (metis prod.collapse)
  obtain r1 s1 where vol: "openVolume acquired a s = (r1, s1)" by fastforce
  obtain d1 where d1: "sv_heap s1 a = Some d1" "vol_rel d d1"
    using touches_at [OF openVolume_touches(1) [OF vol] assms(2)] by blast
  obtain r2 s2 where sb: "startBoot v io a s1 = (r2, s2)" by fastforce
  have ok: "r2 = Inr ()" "s' = s2" using run vol sb by (auto simp: Start_run_def split: sum.splits)
  from sb d1(1) show thesis
  proof (rule startBoot_cases)
    fix d2 p
    assume "cid_rel d1 d2" "sv_heap s2 = (sv_heap s1)(a := Some (booted v p d2))"
    moreover from this have "r = clone (en_rec (booted v p d2))"
      using assms run ok check by (auto simp: Start_def lookup_def)
    ultimately show thesis
      using that [of p d2] d1(2) ok check by (auto simp: rels_fields rels_attestation Start_check_def split: if_splits)
  qed (use ok in simp)
qed

text \<open>
  C22. \<open>Reboot\<close> ends in a booting VM whose attestation starts over: user-data of a VM that
  requires attestation is withheld again, the ready time is cleared and the disk
  stays installed.
\<close>

theorem reboot_resets:
  assumes "map_of (sv_vms s) i = Some a" "sv_heap s a = Some e" "Reboot v exit acquired io i s = (Inr r, s')"
  shows "vm_st r = StateBooting \<and> vm_phase r = PhaseBoot \<and> running a s' \<noteq> None \<and> vm_installedAt r \<noteq> None \<and>
    vm_installedAt r = vm_installedAt (en_rec e) \<and> vm_readyAt r = None \<and>
    vm_attestation r = new_attestation (vsp_requireAttestation (vm_spec' (en_rec e))) (\<not> vsp_requireAttestation (vm_spec' (en_rec e)))"
proof -
  obtain r1 s1 where st: "Stop v exit i s = (Inr r1, s1)" and run: "Start v acquired io i s1 = (Inr r, s')"
    using assms(3) by (auto simp: Reboot_def split: sum.splits prod.splits)
  from assms(1,2) st show ?thesis
  proof (rule stop_settles)
    fix d
    assume d: "sv_heap s1 a = Some d" "vm_installedAt (en_rec d) = vm_installedAt (en_rec e)"
      "vm_spec' (en_rec d) = vm_spec' (en_rec e)" "sv_vms s1 = sv_vms s"
    have m: "map_of (sv_vms s1) i = Some a" using d(4) assms(1) by simp
    from m d(1) run show ?thesis
      by (rule Start_boots) (auto simp: running_def clone_def booted_def upd_rec_def d)
  qed
qed

lemma demo_stopped:
  assumes at: "demo_at demo_open s e" and e: "en_proc e = Some p" "vm_st (en_rec e) = StateBooting" "vm_installedAt (en_rec e) \<noteq> None"
  obtains r s1 d where "Stop demo_env demo_exit ''00000000'' s = (Inr r, s1)" "demo_at demo_open s1 d" "en_proc d = None"
    "vm_st (en_rec d) = StateStopped" "vm_installedAt (en_rec d) \<noteq> None"
proof -
  define e1 where "e1 = marked StateStopping e"
  define s0 where "s0 = commit demo_env 0 e1 s"
  define s1 where "s1 = stopProcess demo_env demo_exit 0 p s0"
  define d where "d = (exited demo_env (run_timeout s0 p) demo_exit p e1)\<lparr>en_handoff := installed_run p demo_exit e1\<rparr>"
  have at1: "demo_at demo_open s1 d"
    using at by (simp add: demo_at_def s1_def s0_def e1_def d_def stopProcess_def onExit_def on_entry_def svc_unsubscribe_def fun_eq_iff)
  have mark: "Stop_mark demo_env 0 s = (Inr (), s0)"
    using at e by (simp add: Stop_mark_def demo_at_def s0_def e1_def)
  have "Stop demo_env demo_exit ''00000000'' s = (Inr (clone (en_rec d)), s1)"
    using at at1 e mark by (simp add: Stop_def lookup_def demo_at_def demo_open_def running_def snapshot_def s1_def [symmetric] Let_def)
  then show thesis using at1 e by (intro that [of _ s1 d]) (simp_all add: d_def e1_def installed_run_def)
qed

lemma demo_restarted:
  assumes at: "demo_at demo_open s d" and d: "en_proc d = None" "vm_st (en_rec d) = StateStopped" "vm_installedAt (en_rec d) \<noteq> None"
  obtains r s' where "Start demo_env (pv_volume demo_pio) demo_sio ''00000000'' s = (Inr r, s')"
proof -
  have check: "Start_check s d = Inr ()" using at d by (simp add: Start_check_def demo_at_def demo_open_def)
  obtain s1 d1 where vol: "openVolume (pv_volume demo_pio) 0 s = (Inr (), s1)" and at1: "demo_at demo_open s1 d1"
  proof (cases "en_volume d")
    case None
    obtain vol where vol: "pv_volume demo_pio = Inr vol" by (simp add: demo_pio_def)
    let ?d = "upd_rec (\<lambda>v. v\<lparr>vm_paths := (vm_paths v)\<lparr>pa_volume := vo_path vol\<rparr>\<rparr>) (d\<lparr>en_volume := Some vol\<rparr>)"
    have "demo_at demo_open (put_entry 0 ?d s) ?d" using at by (simp add: demo_at_def)
    moreover have "openVolume (pv_volume demo_pio) 0 s = (Inr (), put_entry 0 ?d s)"
      using at None by (simp add: openVolume_def demo_at_def vol)
    ultimately show thesis using that by blast
  next
    case (Some x)
    with at show thesis by (intro that [of s d]) (auto simp: openVolume_def demo_at_def)
  qed
  obtain s2 p where p: "startProcess demo_sio 0 PhaseBoot None s1 = (Inr p, s2)" and at2: "demo_at demo_open s2 d1"
    using demo_process [OF at1] by metis
  have "Start_run demo_env (pv_volume demo_pio) demo_sio 0 s = (Inr (), boot_commit demo_env p 0 s2)"
    by (simp add: Start_run_def vol startBoot_def p)
  with at at2 check that show thesis
    by (simp add: Start_def lookup_def demo_at_def demo_open_def boot_commit_def on_entry_def)
qed

theorem reboot_resets_witness:
  "\<exists>s r s'. svc_run demo_boot s \<and> Reboot demo_env demo_exit (pv_volume demo_pio) demo_sio ''00000000'' s = (Inr r, s') \<and>
     vm_st r = StateBooting \<and> vm_attestation r = new_attestation True False"
proof -
  obtain s e p where s: "svc_run demo_boot s" and at: "demo_at demo_open s e" and e: "en_op e = OpFree" "en_proc e = Some p"
    "vm_st (en_rec e) = StateBooting" "pr_phase p = PhaseBoot"
    by (rule demo_booted)
  have h: "map_of (sv_vms s) ''00000000'' = Some 0" "sv_heap s 0 = Some e" "vsp_requireAttestation (vm_spec' (en_rec e))"
    using at by (auto simp: demo_at_def demo_open_def)
  have inst: "vm_installedAt (en_rec e) \<noteq> None"
    using run_entry_inv [OF s h(2)] e by (simp add: entry_inv_simps proc_inv_def)
  obtain r1 s1 d where st: "Stop demo_env demo_exit ''00000000'' s = (Inr r1, s1)" "demo_at demo_open s1 d" "en_proc d = None"
    "vm_st (en_rec d) = StateStopped" "vm_installedAt (en_rec d) \<noteq> None"
    by (rule demo_stopped [OF at e(2,3) inst])
  obtain r s' where "Start demo_env (pv_volume demo_pio) demo_sio ''00000000'' s1 = (Inr r, s')"
    by (rule demo_restarted [OF st(2-5)])
  with st(1) have "Reboot demo_env demo_exit (pv_volume demo_pio) demo_sio ''00000000'' s = (Inr r, s')" by (simp add: Reboot_def)
  with reboot_resets [OF h(1,2) this] s h(3) show ?thesis by auto
qed

end
