(* ===== verification/VM_Restart.thy ===== *)
theory VM_Restart
  imports VM_Handlers
begin

text \<open>
  Restarting the service: what \<open>Load\<close> makes of the record of a VM, for every outcome
  of reattaching to its processes.
\<close>

section \<open>Restarting\<close>

definition rec_ok :: "vm \<Rightarrow> bool" where
  "rec_ok v \<longleftrightarrow>
     (if vm_processes v = None then vm_st v \<in> idle_states
      else vm_st v \<in> proc_states (vm_phase v) \<and> (vm_phase v = PhaseBoot \<longrightarrow> vm_installedAt v \<noteq> None \<and> vm_bootedAt v \<noteq> None)) \<and>
     (vm_st v = StateReady' \<longrightarrow> vm_readyAt v \<noteq> None \<and> vm_booted v) \<and>
     atn_required (vm_attestation v) = vsp_requireAttestation (vm_spec' v)"

lemma entry_rec_ok: "entry_inv e \<Longrightarrow> rec_ok (en_rec e)"
  by (cases "en_proc e") (auto simp: entry_inv_simps base_inv_def idle_inv_def proc_inv_def rec_ok_def)

text \<open>What of a record a restart keeps.\<close>

definition lasting :: "vm \<Rightarrow> string \<times> vm_spec \<times> attestation \<times> timestamp option \<times> timestamp option \<times> string \<times> 32 word" where
  "lasting v = (vm_id v, vm_spec' v, vm_attestation v, vm_installedAt v, vm_readyAt v, vm_ip v, vm_cid v)"

lemma vol_rel_trans: "vol_rel e d \<Longrightarrow> vol_rel d f \<Longrightarrow> vol_rel e f"
  unfolding vol_rel_def by (elim exE, intro exI) simp

lemma closeVolume_at:
  assumes "sv_heap s a = Some e"
  shows "\<exists>d. sv_heap (closeVolume a s) a = Some d \<and> vol_rel e d" "sv_vms (closeVolume a s) = sv_vms s"
proof -
  have "vol_rel e (e\<lparr>en_volume := None\<rparr>)"
    unfolding vol_rel_def by (intro exI [of _ None] exI [of _ "vm_paths (en_rec e)"]) simp
  with assms show "\<exists>d. sv_heap (closeVolume a s) a = Some d \<and> vol_rel e d" "sv_vms (closeVolume a s) = sv_vms s"
    by (auto simp: closeVolume_def on_entry_def)
qed

lemma reattach_cases:
  assumes re: "reattach io a s = (r, s')" and e: "sv_heap s a = Some e"
  obtains (failed) er d where "r = Inl er" "sv_heap s' a = Some d" "vol_rel e d" "sv_vms s' = sv_vms s"
    | (up) p d where "r = Inr ()" "vm_processes (en_rec e) \<noteq> None" "sv_heap s' a = Some (d\<lparr>en_proc := Some p\<rparr>)"
      "pr_phase p = vm_phase (en_rec e)" "sv_vms s' = sv_vms s" "vol_rel e d"
proof (cases "vm_processes (en_rec e)")
  case None
  with re e have "r = Inl (ErrOther ''no process handles recorded'')" "s' = s" by (simp_all add: reattach_def)
  with e show ?thesis using failed [of _ e] by auto
next
  case (Some handles)
  obtain r1 s1 where vol: "openVolume (ra_volume io) a s = (r1, s1)" by fastforce
  obtain d where d: "sv_heap s1 a = Some d" "vol_rel e d" "sv_vms s1 = sv_vms s"
    using touches_at [OF openVolume_touches(1) [OF vol] e] by blast
  have ph: "vm_phase (en_rec d) = vm_phase (en_rec e)" using d(2) by (auto simp: vol_rel_def)
  obtain r2 s2 where at: "svc_attach (ra_ctx io) (vm_network (en_rec d)) (vm_id (en_rec d)) s1 = (r2, s2)" by fastforce
  have h2: "sv_heap s2 a = Some d" "sv_vms s2 = sv_vms s" using svc_attach_frame [OF at] d by (auto simp: frame_def)
  obtain c where c: "sv_heap (closeVolume a s2) a = Some c" "vol_rel e c"
    using closeVolume_at(1) [OF h2(1)] vol_rel_trans [OF d(2)] by blast
  consider (a) er where "r = Inl er" "s' = s1" | (b) er where "r = Inl er" "s' = closeVolume a s2"
    | (c) p ch s3 where "r = Inr ()" "svc_subscribe (vm_phase (en_rec d)) (vm_cid (en_rec d)) s2 = (ch, s3)"
      "s' = on_entry a (\<lambda>e. put_entry a (e\<lparr>en_proc := Some p\<rparr>)) s3" "pr_phase p = vm_phase (en_rec d)"
    using re e Some vol d at
    by (auto simp: reattach_def Let_def split: sum.splits prod.splits)
  then show ?thesis
  proof cases
    case a
    with d show ?thesis by (intro failed [of er d]) auto
  next
    case b
    with c closeVolume_at(2) [OF h2(1)] h2 show ?thesis by (intro failed [of er c]) auto
  next
    case (c p ch s3)
    with svc_subscribe_frame [OF c(2)] h2 have "sv_heap s3 a = Some d" "sv_vms s3 = sv_vms s" by (auto simp: frame_def)
    with c Some ph d show ?thesis by (intro up [of p d]) (auto simp: on_entry_def)
  qed
qed


definition load_result :: "vm \<Rightarrow> entry \<Rightarrow> bool" where
  "load_result v e \<longleftrightarrow> entry_inv e \<and> lasting (en_rec e) = lasting v \<and>
    (if vm_st v \<in> {StateCreating, StateDeleting} then vm_st (en_rec e) = StateFailed
     else if Live (vm_st v) \<and> en_proc e = None then vm_st (en_rec e) = StateStopped
     else vm_st (en_rec e) = vm_st v)"

definition fresh_entry :: "entry \<Rightarrow> bool" where
  "fresh_entry e \<longleftrightarrow> en_proc e = None \<and> en_op e = OpFree \<and> \<not> en_pending e \<and> \<not> en_handoff e"

lemma load_idle:
  assumes "rec_ok v" "\<not> Live (vm_st (en_rec e))" "fresh_entry e" "lasting (en_rec e) = lasting v"
    "vm_processes (en_rec e) = vm_processes v" "vm_st v = StateDeleting \<longrightarrow> vm_processes v = None" "vm_phase (en_rec e) = vm_phase v"
    "vm_st (en_rec e) = (if vm_st v \<in> {StateCreating, StateDeleting} then StateFailed else vm_st v)"
  shows "load_result v e"
proof -
  have "vm_processes v = None"
    using assms(1,2,6,8) by (cases "vm_st v"; cases "vm_phase v") (auto simp: rec_ok_def proc_states_def split: if_splits)
  then show ?thesis
    using assms by (cases "vm_st v") (auto simp: load_result_def rec_ok_def entry_inv_def base_inv_def idle_inv_def fresh_entry_def idle_states_def
        in_create_def lasting_def)
qed


lemma load_stopped:
  assumes "rec_ok v" "fresh_entry e" "lasting (en_rec e) = lasting v" "Live (vm_st v)" "vol_rel e d"
  shows "load_result v (upd_rec (not_reattached er) d)"
proof -
  have "vm_st v \<notin> {StateCreating, StateDeleting}" using assms(4) by auto
  moreover have "fresh_entry d" "lasting (en_rec d) = lasting v"
    using assms(2,3,5) by (auto simp: vol_rel_def fresh_entry_def lasting_def)
  ultimately show ?thesis
    using assms(1,4) by (auto simp: load_result_def rec_ok_def entry_inv_def base_inv_def idle_inv_def fresh_entry_def idle_states_def
        in_create_def lasting_def not_reattached_def)
qed

lemma load_reattached:
  assumes "rec_ok v" "fresh_entry e" "lasting (en_rec e) = lasting v" "Live (vm_st v)" "vol_rel e d"
    "vm_st (en_rec e) = vm_st v" "vm_processes (en_rec e) = vm_processes v" "vm_phase (en_rec e) = vm_phase v"
    "vm_booted (en_rec e) = vm_booted v" "vm_bootedAt (en_rec e) = vm_bootedAt v"
    "vm_processes v \<noteq> None" "pr_phase p = vm_phase v"
  shows "load_result v (d\<lparr>en_proc := Some p\<rparr>)"
proof -
  have "vm_st v \<notin> {StateCreating, StateDeleting}" using assms(4) by auto
  moreover have "fresh_entry d" "lasting (en_rec d) = lasting v" "vm_st (en_rec d) = vm_st v" "vm_processes (en_rec d) = vm_processes v"
    "vm_phase (en_rec d) = vm_phase v" "vm_booted (en_rec d) = vm_booted v" "vm_bootedAt (en_rec d) = vm_bootedAt v"
    using assms by (auto simp: vol_rel_def fresh_entry_def lasting_def)
  ultimately show ?thesis
    using assms(1,11,12) by (auto simp: load_result_def rec_ok_def entry_inv_def base_inv_def proc_inv_def fresh_entry_def lasting_def)
qed



text \<open>
  C39. A VM whose deletion was interrupted while its QEMU still ran is orphaned by a
  restart: it comes back failed, a state documented as having no process, with the
  handles of the running processes in its record but no process to stop, so that
  neither \<open>Delete\<close> nor \<open>Close\<close> stops them and \<open>Start\<close> is not refused.
\<close>

theorem load_orphans_deleting:
  assumes "sv_disk s i = Some v" "vm_id v = i" "vm_st v = StateDeleting" "vm_processes v = Some h"
  shows "\<exists>e. sv_heap (load_dir io (i, True) s) (sv_next s) = Some e \<and> vm_st (en_rec e) = StateFailed \<and>
    en_proc e = None \<and> vm_processes (en_rec e) = Some h \<and> (vm_installedAt v \<noteq> None \<and> \<not> sv_closing s \<longrightarrow> Start_check s e = Inr ())"
  using assms by (simp add: load_dir_def loadEntry_def Let_def on_entry_def Start_check_def)

theorem load_orphans_deleting_witness:
  "\<exists>e v h. sv_disk (demo_empty\<lparr>sv_disk := [''00000000'' \<mapsto> v]\<rparr>) ''00000000'' = Some v \<and> vm_st v = StateDeleting \<and>
     sv_heap (load_dir undefined (''00000000'', True) (demo_empty\<lparr>sv_disk := [''00000000'' \<mapsto> v]\<rparr>)) 0 = Some e \<and>
     en_proc e = None \<and> vm_processes (en_rec e) = Some h"
proof -
  obtain s e p where s: "svc_run demo_boot s" and at: "demo_at demo_open s e" and e: "en_proc e = Some p"
    by (rule demo_booted)
  have "sv_heap s 0 = Some e" using at by (simp add: demo_at_def)
  from run_entry_inv [OF s this] e obtain h where h: "vm_processes (en_rec e) = Some h" by (auto simp: entry_inv_simps proc_inv_def)
  let ?v = "(en_rec e)\<lparr>vm_st := StateDeleting\<rparr>"
  let ?s = "demo_empty\<lparr>sv_disk := [''00000000'' \<mapsto> ?v]\<rparr>"
  have v: "sv_disk ?s ''00000000'' = Some ?v" "vm_id ?v = ''00000000''" "vm_st ?v = StateDeleting" "vm_processes ?v = Some h"
    using at h by (simp_all add: demo_at_def)
  have "sv_next ?s = 0" by (simp add: demo_empty_def Service_New_def)
  with load_orphans_deleting [OF v, of undefined] v(1,3) show ?thesis by metis
qed

end
