(* ===== verification/VM_Exec.thy ===== *)
theory VM_Exec
  imports VM_Handlers
begin

text \<open>
  Access to a running guest, \<open>src/internal/vm/exec.go\<close>: \<open>Exec\<close> over ssh with the
  guest's host key pinned on first use, the quoting of its command line, the
  console tail and port forwards.  The ssh library, the dialled connection and the
  guest answer through arguments; the pinned keys are a map from paths to file
  contents.  The theory shows that a POSIX shell reads back exactly the words
  \<open>Exec\<close> was given, and that a VM whose host key changed is never sent a command.
\<close>

section \<open>Quoting\<close>

definition quote_char :: char where "quote_char = CHR 0x27"
definition backslash :: char where "backslash = CHR 0x5C"
definition nul :: char where "nul = CHR 0x00"

lemmas sh_chars = quote_char_def backslash_def nul_def

definition quote_word :: "string \<Rightarrow> string" where
  "quote_word w =
     quote_char # concat (map (\<lambda>c. if c = quote_char then [quote_char, backslash, quote_char, quote_char] else [c]) w) @ [quote_char]"

definition shellJoin :: "string list \<Rightarrow> string" where
  "shellJoin cmd = Join '' '' (map quote_word cmd)"

text \<open>
  How a shell splits a command line into words, as far as quotes and backslashes
  go.  Everything else a shell would act on outside quotes (expansions, operators,
  comments, patterns) and a NUL byte, which no argument can carry, make it
  undefined.
\<close>

definition sh_special :: "char set" where
  "sh_special = set ''|&;<>()$`*?[]#~=%!{}^:+@,'' \<union> {CHR 0x22, CHR 0x0A}"

definition read_quoted :: "string \<Rightarrow> (string \<times> string) option" where
  "read_quoted s =
     (let q = takeWhile ((\<noteq>) quote_char) s; r = dropWhile ((\<noteq>) quote_char) s
      in if r = [] \<or> nul \<in> set q then None else Some (q, tl r))"

lemma read_quoted_length: "read_quoted s = Some (q, r) \<Longrightarrow> length r < length s"
proof -
  assume "read_quoted s = Some (q, r)"
  then have "r = tl (dropWhile ((\<noteq>) quote_char) s)" "dropWhile ((\<noteq>) quote_char) s \<noteq> []"
    by (auto simp: read_quoted_def Let_def split: if_splits)
  moreover have "length (dropWhile ((\<noteq>) quote_char) s) \<le> length s" by (rule length_dropWhile_le)
  ultimately show ?thesis by (cases "dropWhile ((\<noteq>) quote_char) s") auto
qed

function (sequential) sh_words :: "string option \<Rightarrow> string \<Rightarrow> string list option" where
  "sh_words cur [] = Some (case cur of None \<Rightarrow> [] | Some w \<Rightarrow> [w])"
| "sh_words cur (c # cs) =
     (let w = (case cur of None \<Rightarrow> [] | Some w \<Rightarrow> w) in
      if c = CHR '' '' \<or> c = CHR 0x09 then
        (case cur of None \<Rightarrow> sh_words None cs | Some w \<Rightarrow> map_option ((#) w) (sh_words None cs))
      else if c = quote_char then
        (case read_quoted cs of None \<Rightarrow> None | Some (q, r) \<Rightarrow> sh_words (Some (w @ q)) r)
      else if c = backslash then
        (case cs of [] \<Rightarrow> None | d # r \<Rightarrow> if d = nul \<or> d = CHR 0x0A then None else sh_words (Some (w @ [d])) r)
      else if c = nul \<or> c \<in> sh_special then None
      else sh_words (Some (w @ [c])) cs)"
  by pat_completeness auto

termination
  by (relation "measure (\<lambda>(cur, s). length s)") (auto dest: read_quoted_length)

lemma read_quoted_append:
  "quote_char \<notin> set q \<Longrightarrow> nul \<notin> set q \<Longrightarrow> read_quoted (q @ quote_char # r) = Some (q, r)"
  by (simp add: read_quoted_def takeWhile_append dropWhile_append Let_def)

declare sh_words.simps [simp del]

lemma sh_words_Nil [simp]: "sh_words cur [] = Some (case cur of None \<Rightarrow> [] | Some w \<Rightarrow> [w])"
  by (simp add: sh_words.simps)

lemma sh_words_space: "sh_words (Some w) (CHR '' '' # cs) = map_option ((#) w) (sh_words None cs)"
  by (subst sh_words.simps) simp

lemma sh_words_quote:
  "read_quoted cs = Some (q, r) \<Longrightarrow>
   sh_words cur (quote_char # cs) = sh_words (Some ((case cur of None \<Rightarrow> [] | Some w \<Rightarrow> w) @ q)) r"
  by (subst sh_words.simps) (simp add: sh_chars)

lemma sh_words_escape:
  "d \<noteq> nul \<Longrightarrow> d \<noteq> CHR 0x0A \<Longrightarrow> sh_words (Some w) (backslash # d # r) = sh_words (Some (w @ [d])) r"
  by (subst sh_words.simps) (simp add: sh_chars)

definition sh_escape :: "string \<Rightarrow> string" where
  "sh_escape w = concat (map (\<lambda>c. if c = quote_char then [quote_char, backslash, quote_char, quote_char] else [c]) w)"

lemma sh_escape_simps [simp]:
  "sh_escape [] = []" "quote_char \<notin> set a \<Longrightarrow> sh_escape (a @ b) = a @ sh_escape b"
  "sh_escape (quote_char # b) = quote_char # backslash # quote_char # quote_char # sh_escape b"
  by (simp_all add: sh_escape_def) (induction a; auto)

lemma sh_words_quoted:
  assumes "nul \<notin> set w"
  shows "sh_words cur (quote_char # sh_escape w @ quote_char # r) =
    sh_words (Some ((case cur of None \<Rightarrow> [] | Some v \<Rightarrow> v) @ w)) r"
  using assms
proof (induction "length w" arbitrary: cur w rule: less_induct)
  case less
  let ?v = "case cur of None \<Rightarrow> [] | Some v \<Rightarrow> v"
  show ?case
  proof (cases "quote_char \<in> set w")
    case False
    then have "read_quoted (sh_escape w @ quote_char # r) = Some (w, r)"
      using less.prems sh_escape_simps(2) [of w "[]"] by (simp add: read_quoted_append)
    then show ?thesis by (rule sh_words_quote)
  next
    case True
    then obtain a b where w: "w = a @ quote_char # b" "quote_char \<notin> set a" by (metis split_list_first)
    with less.prems have "nul \<notin> set a" "nul \<notin> set b" by auto
    let ?r = "backslash # quote_char # quote_char # sh_escape b @ quote_char # r"
    have "sh_words cur (quote_char # sh_escape w @ quote_char # r) = sh_words (Some (?v @ a)) ?r"
      by (rule sh_words_quote) (use w \<open>nul \<notin> set a\<close> in \<open>simp add: read_quoted_append\<close>)
    also have "\<dots> = sh_words (Some ((?v @ a) @ [quote_char])) (quote_char # sh_escape b @ quote_char # r)"
      by (rule sh_words_escape) (simp_all add: sh_chars)
    also have "\<dots> = sh_words (Some (((?v @ a) @ [quote_char]) @ b)) r"
      using less.hyps [of b "Some ((?v @ a) @ [quote_char])"] w \<open>nul \<notin> set b\<close> by simp
    finally show ?thesis by (simp add: w)
  qed
qed

lemma sh_words_quote_word:
  assumes "nul \<notin> set w"
  shows "sh_words None (quote_word w @ r) = sh_words (Some w) r"
  using sh_words_quoted [OF assms, of None r] by (simp add: quote_word_def sh_escape_def)

section \<open>Host keys\<close>

type_synonym key_files = "string \<Rightarrow> string option"

definition hostKeyFile :: string where "hostKeyFile = ''ssh_host_key''"

text \<open>\<open>readable\<close> and \<open>written\<close> say whether the file can be read and written.\<close>

definition pinHostKey :: "bool \<Rightarrow> bool \<Rightarrow> string \<Rightarrow> string \<Rightarrow> key_files \<Rightarrow> unit res \<times> key_files" where
  "pinHostKey readable written dir key fs =
     (let path = filepath_Join [dir, hostKeyFile] in
      case fs path of
        None \<Rightarrow> if written then (Inr (), fs(path \<mapsto> key)) else (Inl (ErrOther ''write host key''), fs)
      | Some have \<Rightarrow>
          if \<not> readable then (Inl (ErrOther ''read host key''), fs)
          else if have \<noteq> key then (Inl (ErrOther ''host key changed''), fs)
          else (Inr (), fs))"

section \<open>Exec\<close>

record exec_result =
  er_stdout :: string
  er_stderr :: string
  er_exitCode :: int

datatype run_outcome = RunDone string string | RunExit int string string | RunError string string

text \<open>What the ssh library, the guest and the file system answer; \<open>xi_presented\<close> is
  the host key the guest presents, \<open>None\<close> when the connection fails before that.\<close>

record exec_io =
  xi_signer :: "unit res"
  xi_dial :: "unit res"
  xi_presented :: "string option"
  xi_readable :: bool
  xi_written :: bool
  xi_authenticated :: bool
  xi_session :: bool
  xi_run :: "string \<Rightarrow> run_outcome"

definition NewClientConn :: "exec_io \<Rightarrow> string \<Rightarrow> key_files \<Rightarrow> unit res \<times> key_files" where
  "NewClientConn io dir fs =
     (case xi_presented io of
        None \<Rightarrow> (Inl (ErrOther ''ssh''), fs)
      | Some key \<Rightarrow>
          (case pinHostKey (xi_readable io) (xi_written io) dir key fs of
             (Inl e, fs') \<Rightarrow> (Inl e, fs')
           | (Inr _, fs') \<Rightarrow> ((if xi_authenticated io then Inr () else Inl (ErrOther ''ssh'')), fs')))"

text \<open>The checks up to the connection; the directory of the VM comes back.\<close>

definition exec_target :: "exec_io \<Rightarrow> service \<Rightarrow> string \<Rightarrow> string list \<Rightarrow> string res" where
  "exec_target io s i cmd =
     bindE (guardE (cmd \<noteq> []) ErrInvalid) (\<lambda>_.
     bindE (lookup s i) (\<lambda>a.
     case sv_heap s a of
       None \<Rightarrow> Inl ErrNotFound
     | Some e \<Rightarrow>
         bindE (guardE (en_proc e \<noteq> None) ErrConflict) (\<lambda>_.
         bindE (Manager_Get (sv_nets s) (vm_network (en_rec e))) (\<lambda>nw.
         bindE (xi_signer io) (\<lambda>_.
         bindE (Network_Dial nw (xi_dial io)) (\<lambda>_. Inr (pa_dir (vm_paths (en_rec e)))))))))"

definition exec_session :: "exec_io \<Rightarrow> string list \<Rightarrow> exec_result res" where
  "exec_session io cmd =
     (if \<not> xi_session io then Inl (ErrOther ''ssh session'')
      else
        (case xi_run io (shellJoin cmd) of
           RunDone out err \<Rightarrow> Inr \<lparr>er_stdout = out, er_stderr = err, er_exitCode = 0\<rparr>
         | RunExit code out err \<Rightarrow> Inr \<lparr>er_stdout = out, er_stderr = err, er_exitCode = code\<rparr>
         | RunError out err \<Rightarrow> Inl (ErrOther ''ssh run'')))"

definition Exec :: "exec_io \<Rightarrow> service \<Rightarrow> string \<Rightarrow> string list \<Rightarrow> key_files \<Rightarrow> exec_result res \<times> key_files" where
  "Exec io s i cmd fs =
     (case exec_target io s i cmd of
        Inl e \<Rightarrow> (Inl e, fs)
      | Inr dir \<Rightarrow>
          (case NewClientConn io dir fs of
             (Inl er, fs') \<Rightarrow> (Inl er, fs')
           | (Inr _, fs') \<Rightarrow> (exec_session io cmd, fs')))"

section \<open>Console and forwards\<close>

definition defaultConsole :: int where "defaultConsole = 100"
definition MaxConsoleLines :: int where "MaxConsoleLines = 10000"

text \<open>\<open>content\<close> is the console file, or the error opening it.\<close>

datatype read_file = FileMissing | FileError | FileHas string

definition Console :: "(string \<Rightarrow> read_file) \<Rightarrow> service \<Rightarrow> string \<Rightarrow> int \<Rightarrow> string res" where
  "Console content s i n =
     bindE (Service_Get s i) (\<lambda>v.
       let n1 = (if n \<le> 0 then defaultConsole else n);
           n2 = (if n1 > MaxConsoleLines then MaxConsoleLines else n1)
       in (case content (pa_console (vm_paths v)) of
             FileMissing \<Rightarrow> Inr []
           | FileError \<Rightarrow> Inl (ErrOther ''read console'')
           | FileHas text \<Rightarrow> (case tailLines (Some text) (nat n2) of Some t \<Rightarrow> Inr t | None \<Rightarrow> Inr [])))"

text \<open>\<open>Forward\<close> up to the listener, and the section that records it.\<close>

definition Forward_open :: "bool \<Rightarrow> service \<Rightarrow> string \<Rightarrow> int \<Rightarrow> (nat \<times> port_forward) res" where
  "Forward_open listens s i port =
     bindE (guardE (1 \<le> port \<and> port \<le> 65535) ErrInvalid) (\<lambda>_.
     bindE (lookup s i) (\<lambda>a.
     bindE (snapshot a s) (\<lambda>v.
       if vm_st v = StateDeleting \<or> vm_ip v = [] then Inl ErrConflict
       else bindE (Manager_Get (sv_nets s) (vm_network v)) (\<lambda>nw.
              map_sum id (Pair a) (Network_Forward nw listens (vm_ip v) port)))))"

definition Forward_record :: "string \<Rightarrow> nat \<Rightarrow> service \<Rightarrow> service" where
  "Forward_record addr a = on_entry a (\<lambda>e. put_entry a (e\<lparr>en_forwards := en_forwards e @ [addr]\<rparr>))"

definition Forward :: "bool \<Rightarrow> string \<Rightarrow> string \<Rightarrow> int \<Rightarrow> service \<Rightarrow> string res \<times> service" where
  "Forward listens addr i port s =
     (case Forward_open listens s i port of
        Inl e \<Rightarrow> (Inl e, s)
      | Inr (a, f) \<Rightarrow> (Inr addr, Forward_record addr a s))"

section \<open>Properties\<close>

text \<open>
  C32. The command line \<open>Exec\<close> sends is read back by the guest's shell as exactly the
  words it was given, whatever quotes, spaces, operators or line breaks they contain;
  only NUL bytes are excluded.
\<close>

theorem shell_round_trip:
  assumes "list_all (\<lambda>w. nul \<notin> set w) cmd"
  shows "sh_words None (shellJoin cmd) = Some cmd"
  using assms
proof (induction cmd)
  case Nil
  then show ?case by (simp add: shellJoin_def)
next
  case (Cons w ws)
  show ?case
  proof (cases ws)
    case Nil
    then show ?thesis using Cons.prems sh_words_quote_word [of w "[]"] by (simp add: shellJoin_def)
  next
    case (Cons v vs)
    have "sh_words None (shellJoin (w # ws)) = sh_words (Some w) (CHR '' '' # shellJoin ws)"
      using Cons.prems sh_words_quote_word [of w "CHR '' '' # shellJoin ws"] Cons by (simp add: shellJoin_def)
    also have "\<dots> = map_option ((#) w) (sh_words None (shellJoin ws))" by (rule sh_words_space)
    finally show ?thesis using Cons.IH Cons.prems by simp
  qed
qed

theorem shell_round_trip_witness:
  "sh_words None (shellJoin [''echo'', ''it'' @ [quote_char] @ ''s $HOME; rm -rf /'', []]) =
   Some [''echo'', ''it'' @ [quote_char] @ ''s $HOME; rm -rf /'', []]"
  by (rule shell_round_trip) (simp add: sh_chars)

lemma NewClientConn_ok:
  assumes "NewClientConn io dir fs = (Inr u, fs')"
  shows "\<exists>key. xi_presented io = Some key \<and> fs (filepath_Join [dir, hostKeyFile]) \<in> {None, Some key} \<and>
    fs' (filepath_Join [dir, hostKeyFile]) = Some key"
proof -
  obtain key where k: "xi_presented io = Some key" using assms by (cases "xi_presented io") (auto simp: NewClientConn_def)
  show ?thesis
    using assms k
    by (cases "fs (filepath_Join [dir, hostKeyFile])") (auto simp: NewClientConn_def pinHostKey_def Let_def split: if_splits)
qed

lemma NewClientConn_keeps: "fs p = Some key \<Longrightarrow> snd (NewClientConn io dir fs) p = Some key"
  by (auto simp: NewClientConn_def pinHostKey_def Let_def split: option.splits)

lemma Exec_files:
  "snd (Exec io s i cmd fs) = fs \<or> (\<exists>dir. snd (Exec io s i cmd fs) = snd (NewClientConn io dir fs))"
proof (cases "exec_target io s i cmd")
  case (Inr dir)
  then have "snd (Exec io s i cmd fs) = snd (NewClientConn io dir fs)"
    by (cases "NewClientConn io dir fs") (auto simp: Exec_def split: sum.splits)
  then show ?thesis by blast
qed (simp add: Exec_def)

lemma exec_keeps_pin: "fs p = Some key \<Longrightarrow> snd (Exec io s i cmd fs) p = Some key"
  using Exec_files [of io s i cmd fs] NewClientConn_keeps by metis

lemma Exec_ok:
  assumes "fst (Exec io s i cmd fs) = Inr r"
  obtains dir where "exec_target io s i cmd = Inr dir" "NewClientConn io dir fs = (Inr (), snd (Exec io s i cmd fs))"
    "exec_session io cmd = Inr r"
proof (cases "exec_target io s i cmd")
  case (Inr dir)
  obtain n fs' where n: "NewClientConn io dir fs = (n, fs')" by fastforce
  with assms Inr have "n = Inr ()" by (cases n) (simp_all add: Exec_def)
  with assms Inr n that show thesis by (simp add: Exec_def)
qed (use assms in \<open>simp add: Exec_def\<close>)

lemma exec_target_dir:
  assumes "exec_target io s i cmd = Inr dir" "Service_Get s i = Inr v"
  shows "dir = pa_dir (vm_paths v)"
proof -
  from assms(2) obtain a e where "lookup s i = Inr a" "sv_heap s a = Some e" "v = clone (en_rec e)"
    by (auto simp: Service_Get_def bindE_Inr_iff split: option.splits)
  with assms(1) show ?thesis by (auto simp: exec_target_def bindE_Inr_iff clone_def)
qed

text \<open>A sequence of commands on one VM while its directory stays where it is.\<close>

fun exec_all :: "(exec_io \<times> service \<times> string \<times> string list) list \<Rightarrow> key_files \<Rightarrow> key_files" where
  "exec_all [] fs = fs"
| "exec_all ((io, s, i, cmd) # xs) fs = exec_all xs (snd (Exec io s i cmd fs))"

lemma exec_all_keeps: "fs p = Some key \<Longrightarrow> exec_all xs fs p = Some key"
  by (induction xs fs rule: exec_all.induct) (simp_all add: exec_keeps_pin)

text \<open>
  C23. Once \<open>Exec\<close> has run a command on a VM, whatever is executed anywhere afterwards,
  it runs a later one on a VM with the same directory only if the guest presents the
  same host key.
\<close>

theorem exec_host_key_pinned:
  assumes "fst (Exec io s i cmd fs) = Inr r" "fst (Exec io' s' i' cmd' (exec_all xs (snd (Exec io s i cmd fs)))) = Inr r'"
    and "Service_Get s i = Inr v" "Service_Get s' i' = Inr v'" "pa_dir (vm_paths v) = pa_dir (vm_paths v')"
  shows "xi_presented io \<noteq> None \<and> xi_presented io' = xi_presented io"
proof -
  obtain dir where d: "exec_target io s i cmd = Inr dir" "NewClientConn io dir fs = (Inr (), snd (Exec io s i cmd fs))"
    using assms(1) by (rule Exec_ok)
  let ?fs = "exec_all xs (snd (Exec io s i cmd fs))"
  obtain dir' where d': "exec_target io' s' i' cmd' = Inr dir'" "NewClientConn io' dir' ?fs = (Inr (), snd (Exec io' s' i' cmd' ?fs))"
    using assms(2) by (rule Exec_ok)
  have "dir' = dir" using exec_target_dir [OF d(1) assms(3)] exec_target_dir [OF d'(1) assms(4)] assms(5) by simp
  moreover obtain key where k: "xi_presented io = Some key" "snd (Exec io s i cmd fs) (filepath_Join [dir, hostKeyFile]) = Some key"
    using NewClientConn_ok [OF d(2)] by blast
  ultimately show ?thesis
    using NewClientConn_ok [OF d'(2)] exec_all_keeps [of "snd (Exec io s i cmd fs)" _ key xs, OF k(2)] k(1) by auto
qed

definition demo_exec :: exec_io where
  "demo_exec = \<lparr>xi_signer = Inr (), xi_dial = Inr (), xi_presented = Some ''k'', xi_readable = True, xi_written = True,
     xi_authenticated = True, xi_session = True, xi_run = (\<lambda>line. RunDone line [])\<rparr>"

lemma demo_exec_runs:
  assumes "demo_at demo_open s e" "en_proc e \<noteq> None" "\<And>p. fs p = None \<or> fs p = Some ''k''"
  shows "fst (Exec demo_exec s ''00000000'' [''true''] fs) = Inr \<lparr>er_stdout = shellJoin [''true''], er_stderr = [], er_exitCode = 0\<rparr>"
    "snd (Exec demo_exec s ''00000000'' [''true''] fs) p = None \<or> snd (Exec demo_exec s ''00000000'' [''true''] fs) p = Some ''k''"
proof -
  have t: "exec_target demo_exec s ''00000000'' [''true''] = Inr (pa_dir (vm_paths (en_rec e)))"
    using assms(1,2) by (auto simp: exec_target_def lookup_def demo_at_def demo_open_def demo_mgr_def demo_exec_def
        Manager_Get_def Network_Dial_def demo_vm_net_def demo_net_def guardE_def)
  let ?p = "filepath_Join [pa_dir (vm_paths (en_rec e)), hostKeyFile]"
  have "NewClientConn demo_exec (pa_dir (vm_paths (en_rec e))) fs = (Inr (), fs(?p \<mapsto> ''k''))"
    using assms(3) [of ?p] by (auto simp: NewClientConn_def demo_exec_def pinHostKey_def Let_def fun_upd_idem)
  with t assms(3) [of p] show "fst (Exec demo_exec s ''00000000'' [''true''] fs) = Inr \<lparr>er_stdout = shellJoin [''true''], er_stderr = [], er_exitCode = 0\<rparr>"
    "snd (Exec demo_exec s ''00000000'' [''true''] fs) p = None \<or> snd (Exec demo_exec s ''00000000'' [''true''] fs) p = Some ''k''"
    by (auto simp: Exec_def exec_session_def demo_exec_def)
qed

theorem exec_host_key_pinned_witness:
  "\<exists>s v. fst (Exec demo_exec s ''00000000'' [''true''] Map.empty) = Inr \<lparr>er_stdout = shellJoin [''true''], er_stderr = [], er_exitCode = 0\<rparr> \<and>
     Service_Get s ''00000000'' = Inr v \<and> xi_presented demo_exec \<noteq> None \<and> xi_presented demo_exec = xi_presented demo_exec"
proof -
  obtain s e p where s: "demo_at demo_open s e" "en_proc e = Some p" by (rule demo_booted)
  then have g: "Service_Get s ''00000000'' = Inr (clone (en_rec e))"
    by (simp add: Service_Get_def lookup_def demo_at_def demo_open_def)
  have x: "fst (Exec demo_exec s ''00000000'' [''true''] Map.empty) = Inr \<lparr>er_stdout = shellJoin [''true''], er_stderr = [], er_exitCode = 0\<rparr>"
    using s by (intro demo_exec_runs(1)) auto
  have "fst (Exec demo_exec s ''00000000'' [''true''] (exec_all [] (snd (Exec demo_exec s ''00000000'' [''true''] Map.empty)))) =
      Inr \<lparr>er_stdout = shellJoin [''true''], er_stderr = [], er_exitCode = 0\<rparr>"
    using s demo_exec_runs(2) [OF s(1), of Map.empty] by (simp only: exec_all.simps) (intro demo_exec_runs(1), auto)
  from exec_host_key_pinned [OF x this g g] x g show ?thesis by blast
qed

text \<open>A forward that is recorded after the VM was torn down stays behind: nothing
  closes it any more.\<close>

lemma forward_outlives_teardown:
  assumes "sv_heap s a = Some e"
  shows "\<exists>e'. sv_heap (Forward_record addr a (teardown removed a s)) a = Some e' \<and> addr \<in> set (en_forwards e')"
  using assms by (simp add: Forward_record_def on_entry_def)

end
