(* ===== verification/QEMU_QMP.thy ===== *)
theory QEMU_QMP
  imports Api_Err
begin

text \<open>
  The client of QEMU's machine protocol, \<open>src/internal/runtime/qemu/qmp.go\<close>.  Its
  shared state is the table of pending commands by id, the reply channels (an
  explicit store, since a command keeps its channel after the table dropped it), the
  event buffer and the end of the connection.  Any number of commands, the reader and
  the consumer of the events interleave as steps.  Messages are taken decoded;
  \<open>'r\<close> is the type of the JSON values they carry.  The theory shows that the reader
  never blocks, that a command only gets the reply that carries its id, and that
  events stay in order within the buffer.
\<close>

section \<open>Messages and state\<close>

definition eventBuffer :: nat where "eventBuffer = 64"

record qmp_error =
  qe_class :: string
  qe_desc :: string

record 'r qmp_message =
  qm_greeting :: bool
  qm_event :: string
  qm_data :: 'r
  qm_return :: "'r option"
  qm_error :: "qmp_error option"
  qm_id :: "64 word option"

record 'r qmp_event =
  qv_name :: string
  qv_data :: 'r

record 'r qmp_response =
  qr_ret :: "'r option"
  qr_err :: "qmp_error option"

text \<open>A reply channel has room for one value.\<close>

record 'r qmp =
  qc_pending :: "(64 word, nat) gomap"
  qc_nextID :: "64 word"
  qc_chans :: "nat \<Rightarrow> 'r qmp_response list"
  qc_nextChan :: nat
  qc_events :: "'r qmp_event list"
  qc_dropped :: nat
  qc_done :: bool

definition qmp_new :: "'r qmp" where
  "qmp_new = \<lparr>qc_pending = [], qc_nextID = 0, qc_chans = (\<lambda>_. []), qc_nextChan = 0, qc_events = [], qc_dropped = 0, qc_done = False\<rparr>"

section \<open>Operations\<close>

text \<open>\<open>deliver\<close> drops an event the buffer has no room for.\<close>

definition deliver :: "'r qmp_event \<Rightarrow> 'r qmp \<Rightarrow> 'r qmp" where
  "deliver ev q =
     (if length (qc_events q) < eventBuffer then q\<lparr>qc_events := qc_events q @ [ev]\<rparr>
      else q\<lparr>qc_dropped := Suc (qc_dropped q)\<rparr>)"

definition chan_send :: "nat \<Rightarrow> 'r qmp_response \<Rightarrow> 'r qmp \<Rightarrow> 'r qmp option" where
  "chan_send ch r q =
     (if qc_chans q ch = [] then Some (q\<lparr>qc_chans := (qc_chans q)(ch := [r])\<rparr>) else None)"

text \<open>One message in the loop of \<open>read\<close>; \<open>None\<close> is a send that blocks.\<close>

definition qmp_read :: "'r qmp_message \<Rightarrow> 'r qmp \<Rightarrow> 'r qmp option" where
  "qmp_read m q =
     (if qm_event m \<noteq> [] then Some (deliver \<lparr>qv_name = qm_event m, qv_data = qm_data m\<rparr> q)
      else
        (case qm_id m of
           Some i \<Rightarrow>
             let q1 = q\<lparr>qc_pending := AList.delete i (qc_pending q)\<rparr> in
             (case map_of (qc_pending q) i of
                Some ch \<Rightarrow> chan_send ch \<lparr>qr_ret = qm_return m, qr_err = qm_error m\<rparr> q1
              | None \<Rightarrow> Some q1)
         | None \<Rightarrow> Some q))"

definition read_end :: "'r qmp \<Rightarrow> 'r qmp" where
  "read_end q = q\<lparr>qc_done := True\<rparr>"

definition forget :: "64 word \<Rightarrow> 'r qmp \<Rightarrow> 'r qmp" where
  "forget i q = q\<lparr>qc_pending := AList.delete i (qc_pending q)\<rparr>"

text \<open>\<open>Execute\<close> up to its write: the id it sends and the channel it waits on.\<close>

definition Execute_register :: "'r qmp \<Rightarrow> (64 word \<times> nat) \<times> 'r qmp" where
  "Execute_register q =
     (let i = qc_nextID q + 1; ch = qc_nextChan q in
      ((i, ch), q\<lparr>qc_nextID := i, qc_nextChan := Suc ch, qc_pending := AList.update i ch (qc_pending q)\<rparr>))"

definition Execute_begin :: "'r qmp \<Rightarrow> ((64 word \<times> nat) \<times> 'r qmp) res" where
  "Execute_begin q =
     (if qc_done q then Inl (ErrOther ''qmp: connection closed'') else Inr (Execute_register q))"

datatype wait_end = WaitReply | WaitCancelled | WaitClosed

definition decodeResponse :: "('r \<Rightarrow> bool) option \<Rightarrow> 'r qmp_response \<Rightarrow> 'r option res" where
  "decodeResponse decodes resp =
     (case qr_err resp of
        Some e \<Rightarrow> Inl (ErrOther (qe_class e))
      | None \<Rightarrow>
          (case (decodes, qr_ret resp) of
             (Some ok, Some r) \<Rightarrow> if ok r then Inr (Some r) else Inl (ErrOther ''qmp: decode'')
           | _ \<Rightarrow> Inr None))"

text \<open>
  The rest of \<open>Execute\<close>, after the write succeeded and one of its three waits is over:
  the reply, the caller's context, or the end of the connection, after which a reply
  that is there is preferred.
\<close>

definition Execute_finish :: "('r \<Rightarrow> bool) option \<Rightarrow> wait_end \<Rightarrow> 64 word \<Rightarrow> nat \<Rightarrow> 'r qmp \<Rightarrow> ('r option res \<times> 'r qmp) option" where
  "Execute_finish decodes w i ch q =
     (let take = (case qc_chans q ch of
             [] \<Rightarrow> None
           | r # rs \<Rightarrow> Some (decodeResponse decodes r, q\<lparr>qc_chans := (qc_chans q)(ch := rs)\<rparr>))
      in case w of
           WaitReply \<Rightarrow> take
         | WaitCancelled \<Rightarrow> Some (Inl ErrTimeout, forget i q)
         | WaitClosed \<Rightarrow>
             if \<not> qc_done q then None
             else (case take of Some x \<Rightarrow> Some x | None \<Rightarrow> Some (Inl (ErrOther ''qmp: connection closed''), forget i q)))"

section \<open>The client as a step relation\<close>

datatype 'r qmp_step_event =
    QBegin "64 word" nat
  | QForget "64 word"
  | QMessage "'r qmp_message"
  | QFinish nat "'r option res"
  | QConsume "'r qmp_event"
  | QEnd

text \<open>A failed encoding or write forgets the command.  The connection can end between
  \<open>Execute\<close>'s look at it and the registration, so a command can begin at any time.\<close>

inductive qmp_step :: "'r qmp \<Rightarrow> 'r qmp_step_event \<Rightarrow> 'r qmp \<Rightarrow> bool" where
  q_begin: "Execute_register q = ((i, ch), q') \<Longrightarrow> qmp_step q (QBegin i ch) q'"
| q_write_failed: "qmp_step q (QForget i) (forget i q)"
| q_message: "\<not> qc_done q \<Longrightarrow> qmp_read m q = Some q' \<Longrightarrow> qmp_step q (QMessage m) q'"
| q_finish: "Execute_finish decodes w i ch q = Some (r, q') \<Longrightarrow> qmp_step q (QFinish ch r) q'"
| q_consume: "qc_events q = ev # evs \<Longrightarrow> qmp_step q (QConsume ev) (q\<lparr>qc_events := evs\<rparr>)"
| q_end: "qmp_step q QEnd (read_end q)"

definition qmp_run :: "'r qmp_step_event list \<Rightarrow> 'r qmp \<Rightarrow> bool" where
  "qmp_run = reachable (\<lambda>q. q = qmp_new) qmp_step"

text \<open>A pending command's channel is empty and its own, and channels are numbered.\<close>

definition qmp_inv :: "'r qmp \<Rightarrow> bool" where
  "qmp_inv q \<longleftrightarrow>
     (\<forall>i ch. map_of (qc_pending q) i = Some ch \<longrightarrow> qc_chans q ch = [] \<and> ch < qc_nextChan q) \<and>
     (\<forall>i j ch. map_of (qc_pending q) i = Some ch \<longrightarrow> map_of (qc_pending q) j = Some ch \<longrightarrow> i = j) \<and>
     (\<forall>ch \<ge> qc_nextChan q. qc_chans q ch = []) \<and>
     (\<forall>ch. length (qc_chans q ch) \<le> 1) \<and> length (qc_events q) \<le> eventBuffer"

lemma qmp_inv_pending:
  assumes "qmp_inv q" "map_of (qc_pending q) i = Some ch"
  shows "qc_chans q ch = []" "ch < qc_nextChan q" "map_of (qc_pending q) j = Some ch \<Longrightarrow> i = j"
  using assms unfolding qmp_inv_def by blast+

lemma qmp_invD:
  assumes "qmp_inv q"
  shows "ch \<ge> qc_nextChan q \<Longrightarrow> qc_chans q ch = []" "length (qc_chans q ch) \<le> Suc 0" "length (qc_events q) \<le> eventBuffer"
  using assms unfolding qmp_inv_def One_nat_def by blast+

lemma qmp_invI:
  assumes "\<And>i ch. map_of (qc_pending q) i = Some ch \<Longrightarrow> qc_chans q ch = [] \<and> ch < qc_nextChan q"
    and "\<And>i j ch. map_of (qc_pending q) i = Some ch \<Longrightarrow> map_of (qc_pending q) j = Some ch \<Longrightarrow> i = j"
    and "\<And>ch. ch \<ge> qc_nextChan q \<Longrightarrow> qc_chans q ch = []"
    and "\<And>ch. length (qc_chans q ch) \<le> 1" "length (qc_events q) \<le> eventBuffer"
  shows "qmp_inv q"
  unfolding qmp_inv_def using assms by blast

lemma qmp_inv_shrink:
  assumes inv: "qmp_inv q"
    and old: "\<And>i ch. map_of (qc_pending q') i = Some ch \<Longrightarrow> map_of (qc_pending q) i = Some ch \<and> qc_chans q' ch = []"
    and next_chan: "qc_nextChan q' = qc_nextChan q"
    and chans: "\<And>ch. qc_chans q' ch = [] \<or> ch < qc_nextChan q \<and> length (qc_chans q' ch) \<le> Suc 0"
    and evs: "length (qc_events q') \<le> eventBuffer"
  shows "qmp_inv q'"
proof (rule qmp_invI)
  fix i ch
  assume "map_of (qc_pending q') i = Some ch"
  with old qmp_inv_pending(2) [OF inv] show "qc_chans q' ch = [] \<and> ch < qc_nextChan q'"
    unfolding next_chan by blast
next
  fix i j ch
  assume "map_of (qc_pending q') i = Some ch" "map_of (qc_pending q') j = Some ch"
  with old qmp_inv_pending(3) [OF inv] show "i = j" by blast
next
  fix ch
  assume "ch \<ge> qc_nextChan q'"
  with chans [of ch] show "qc_chans q' ch = []" by (auto simp: next_chan)
next
  show "length (qc_chans q' ch) \<le> 1" for ch using chans [of ch] by auto
qed (rule evs)

lemma chan_ok: "qmp_inv q \<Longrightarrow> qc_chans q ch = [] \<or> ch < qc_nextChan q \<and> length (qc_chans q ch) \<le> Suc 0"
  using qmp_invD(1,2) [of q ch] by (cases "ch < qc_nextChan q") auto

lemma inv_forget: "qmp_inv q \<Longrightarrow> qmp_inv (forget i q)"
  by (rule qmp_inv_shrink [of q])
     (auto simp: forget_def qmp_inv_pending(1) qmp_invD(3) split: if_splits dest: chan_ok)

lemma inv_deliver: "qmp_inv q \<Longrightarrow> qmp_inv (deliver ev q)"
  by (rule qmp_inv_shrink [of q])
     (auto simp: deliver_def qmp_inv_pending(1) qmp_invD(3) split: if_splits dest: chan_ok)

lemma inv_begin:
  assumes inv: "qmp_inv q" and b: "Execute_register q = ((i, ch), q')"
  shows "qmp_inv q'"
proof -
  have q': "ch = qc_nextChan q" "qc_chans q' = qc_chans q" "qc_nextChan q' = Suc ch" "qc_events q' = qc_events q"
    "map_of (qc_pending q') = (map_of (qc_pending q))(i \<mapsto> ch)"
    using b by (auto simp: Execute_register_def Let_def)
  have old: "qc_chans q c = [] \<and> c < ch" if "map_of (qc_pending q) j = Some c" for j c
    using that inv q'(1) unfolding qmp_inv_def by blast
  have fresh: "qc_chans q ch = []" using inv q'(1) unfolding qmp_inv_def by blast
  show ?thesis
  proof (rule qmp_invI)
    fix j c
    assume "map_of (qc_pending q') j = Some c"
    with old [of j c] fresh show "qc_chans q' c = [] \<and> c < qc_nextChan q'" by (auto simp: q' split: if_splits)
  next
    fix j k c
    assume jk: "map_of (qc_pending q') j = Some c" "map_of (qc_pending q') k = Some c"
    show "j = k"
    proof (cases "j = i \<or> k = i")
      case True
      with jk old [of j c] old [of k c] show ?thesis by (cases "j = i"; cases "k = i") (auto simp: q'(5))
    next
      case False
      with jk have "map_of (qc_pending q) j = Some c" "map_of (qc_pending q) k = Some c" by (simp_all add: q'(5))
      with qmp_inv_pending(3) [OF inv] show ?thesis by blast
    qed
  next
    fix c
    assume "c \<ge> qc_nextChan q'"
    then have "c \<ge> qc_nextChan q" using q'(1,3) by simp
    with qmp_invD(1) [OF inv] show "qc_chans q' c = []" by (simp add: q'(2))
  qed (simp_all add: q'(2,4) qmp_invD(2,3) [OF inv])
qed

lemma read_reply:
  assumes "qmp_inv q" "qm_event m = []" "qm_id m = Some i" "map_of (qc_pending q) i = Some ch"
  shows "qmp_read m q = Some (q\<lparr>qc_pending := AList.delete i (qc_pending q),
    qc_chans := (qc_chans q)(ch := [\<lparr>qr_ret = qm_return m, qr_err = qm_error m\<rparr>])\<rparr>)"
  using assms(2-4) qmp_inv_pending(1) [OF assms(1, 4)] by (simp add: qmp_read_def chan_send_def Let_def)

lemma read_total: "qmp_inv q \<Longrightarrow> qmp_read m q \<noteq> None"
proof -
  assume inv: "qmp_inv q"
  consider "qm_event m \<noteq> []" | "qm_event m = []" "qm_id m = None"
    | i where "qm_event m = []" "qm_id m = Some i" "map_of (qc_pending q) i = None"
    | i ch where "qm_event m = []" "qm_id m = Some i" "map_of (qc_pending q) i = Some ch"
    by (cases "qm_event m = []"; cases "qm_id m") auto
  then show ?thesis
    by cases (simp_all add: qmp_read_def Let_def chan_send_def qmp_inv_pending(1) [OF inv])
qed

lemma inv_read:
  assumes inv: "qmp_inv q" and r: "qmp_read m q = Some q'"
  shows "qmp_inv q'"
proof (cases "qm_event m = []")
  case False
  with r inv_deliver [OF inv] show ?thesis by (auto simp: qmp_read_def)
next
  case ev: True
  show ?thesis
  proof (cases "qm_id m")
    case None
    with r ev inv show ?thesis by (simp add: qmp_read_def)
  next
    case (Some i)
    show ?thesis
    proof (cases "map_of (qc_pending q) i")
      case None
      with r ev Some inv_forget [OF inv, of i] show ?thesis by (simp add: qmp_read_def forget_def Let_def)
    next
      case ch: (Some ch)
      note p = qmp_inv_pending [OF inv ch]
      have q': "q' = q\<lparr>qc_pending := AList.delete i (qc_pending q),
          qc_chans := (qc_chans q)(ch := [\<lparr>qr_ret = qm_return m, qr_err = qm_error m\<rparr>])\<rparr>"
        using read_reply [OF inv ev Some ch] r by simp
      show ?thesis
      proof (rule qmp_inv_shrink [OF inv])
        fix j c
        assume "map_of (qc_pending q') j = Some c"
        then have j: "j \<noteq> i" "map_of (qc_pending q) j = Some c" by (simp_all add: q' split: if_splits)
        with p(3) [of j] have "c \<noteq> ch" by auto
        with j qmp_inv_pending(1) [OF inv j(2)] show "map_of (qc_pending q) j = Some c \<and> qc_chans q' c = []"
          by (simp add: q')
      next
        show "qc_chans q' c = [] \<or> c < qc_nextChan q \<and> length (qc_chans q' c) \<le> Suc 0" for c
          using chan_ok [OF inv, of c] p(2) by (simp add: q')
      qed (simp_all add: q' qmp_invD(3) [OF inv])
    qed
  qed
qed

lemma inv_finish:
  assumes "qmp_inv q" "Execute_finish decodes w i ch q = Some (r, q')"
  shows "qmp_inv q'"
proof -
  have take: "qmp_inv (q\<lparr>qc_chans := (qc_chans q)(ch := rs)\<rparr>)" if "qc_chans q ch = x # rs" for x rs
  proof -
    have "rs = []" using qmp_invD(2) [OF assms(1), of ch] that by simp
    then show ?thesis
      using qmp_inv_pending(1) [OF assms(1)] chan_ok [OF assms(1)] qmp_invD(3) [OF assms(1)]
      by (intro qmp_inv_shrink [OF assms(1)]) auto
  qed
  show ?thesis
    using assms(2) take inv_forget [OF assms(1), of i]
    by (auto simp: Execute_finish_def Let_def split: wait_end.splits list.splits if_splits option.splits)
qed

lemma inv_same:
  assumes "qmp_inv q" "qc_pending q' = qc_pending q" "qc_chans q' = qc_chans q" "qc_nextChan q' = qc_nextChan q"
    and "length (qc_events q') \<le> length (qc_events q)"
  shows "qmp_inv q'"
proof (rule qmp_inv_shrink [OF assms(1)])
  show "map_of (qc_pending q') i = Some ch \<Longrightarrow> map_of (qc_pending q) i = Some ch \<and> qc_chans q' ch = []" for i ch
    using qmp_inv_pending(1) [OF assms(1)] unfolding assms(2,3) by blast
  show "qc_chans q' ch = [] \<or> ch < qc_nextChan q \<and> length (qc_chans q' ch) \<le> Suc 0" for ch
    unfolding assms(3) by (rule chan_ok [OF assms(1)])
  show "length (qc_events q') \<le> eventBuffer" using assms(5) qmp_invD(3) [OF assms(1)] by simp
qed (rule assms(4))

lemma qmp_step_inv: "qmp_step q e q' \<Longrightarrow> qmp_inv q \<Longrightarrow> qmp_inv q'"
proof (induction rule: qmp_step.induct)
  case (q_consume q ev evs)
  then show ?case by - (rule inv_same [of q]; auto)
next
  case (q_end q)
  then show ?case by - (rule inv_same [of q]; auto simp: read_end_def)
next
  case (q_begin q i ch q')
  from inv_begin [OF q_begin(2,1)] show ?case .
next
  case (q_write_failed q i)
  from inv_forget [OF this] show ?case .
next
  case (q_message q m q')
  from inv_read [OF q_message(3,2)] show ?case .
next
  case (q_finish decodes w i ch q r q')
  from inv_finish [OF q_finish(2,1)] show ?case .
qed

lemma new_inv_qmp: "qmp_inv qmp_new"
  by (simp add: qmp_inv_def qmp_new_def)

lemma run_inv: "qmp_run es q \<Longrightarrow> qmp_inv q"
  unfolding qmp_run_def
proof (erule reachable_invariant)
  show "q = qmp_new \<Longrightarrow> qmp_inv q" for q :: "'a qmp" by (simp add: new_inv_qmp)
qed (rule qmp_step_inv)

section \<open>Replies\<close>

text \<open>Where the value in a channel came from.\<close>

definition replied :: "'r qmp_step_event list \<Rightarrow> nat \<Rightarrow> 'r qmp_response \<Rightarrow> bool" where
  "replied es ch r \<longleftrightarrow>
     (\<exists>es1 m es2 i. es = es1 @ QMessage m # es2 \<and> QBegin i ch \<in> set es2 \<and> qm_event m = [] \<and> qm_id m = Some i \<and>
        r = \<lparr>qr_ret = qm_return m, qr_err = qm_error m\<rparr>)"

definition replies_inv :: "'r qmp_step_event list \<Rightarrow> 'r qmp \<Rightarrow> bool" where
  "replies_inv es q \<longleftrightarrow>
     (\<forall>i ch. map_of (qc_pending q) i = Some ch \<longrightarrow> QBegin i ch \<in> set es) \<and>
     (\<forall>ch r. r \<in> set (qc_chans q ch) \<longrightarrow> replied es ch r)"

lemma replied_Cons: "replied es ch r \<Longrightarrow> replied (e # es) ch r"
  unfolding replied_def by (metis append_Cons)

lemma replies_keep:
  assumes "replies_inv es q"
    and "\<And>i ch. map_of (qc_pending q') i = Some ch \<Longrightarrow> map_of (qc_pending q) i = Some ch \<or> e = QBegin i ch"
    and "\<And>ch r. r \<in> set (qc_chans q' ch) \<Longrightarrow> r \<in> set (qc_chans q ch) \<or> replied (e # es) ch r"
  shows "replies_inv (e # es) q'"
  unfolding replies_inv_def
proof (intro conjI allI impI)
  fix i ch assume "map_of (qc_pending q') i = Some ch"
  with assms(1,2) show "QBegin i ch \<in> set (e # es)" unfolding replies_inv_def by fastforce
next
  fix ch r assume "r \<in> set (qc_chans q' ch)"
  with assms(1,3) show "replied (e # es) ch r" unfolding replies_inv_def by (blast intro: replied_Cons)
qed

lemma replies_step:
  assumes st: "qmp_step q e q'" and inv: "qmp_inv q" and rep: "replies_inv es q"
  shows "replies_inv (e # es) q'"
  using st
proof (cases rule: qmp_step.cases)
  case (q_begin i ch)
  then show ?thesis
    by (intro replies_keep [OF rep]) (auto simp: Execute_register_def Let_def split: if_splits)
next
  case (q_write_failed i)
  then show ?thesis by (intro replies_keep [OF rep]) (auto simp: forget_def split: if_splits)
next
  case (q_message m)
  show ?thesis
  proof (rule replies_keep [OF rep])
    fix i ch assume "map_of (qc_pending q') i = Some ch"
    with q_message show "map_of (qc_pending q) i = Some ch \<or> e = QBegin i ch"
      by (auto simp: qmp_read_def deliver_def chan_send_def Let_def split: if_splits option.splits)
  next
    fix ch r assume r: "r \<in> set (qc_chans q' ch)"
    show "r \<in> set (qc_chans q ch) \<or> replied (e # es) ch r"
    proof (cases "qm_event m = [] \<and> (\<exists>i. qm_id m = Some i \<and> map_of (qc_pending q) i = Some ch)")
      case True
      then obtain i where i: "qm_event m = []" "qm_id m = Some i" "map_of (qc_pending q) i = Some ch" by blast
      from read_reply [OF inv i] q_message have "qc_chans q' ch = [\<lparr>qr_ret = qm_return m, qr_err = qm_error m\<rparr>]" by auto
      with r have "r = \<lparr>qr_ret = qm_return m, qr_err = qm_error m\<rparr>" by simp
      moreover have "QBegin i ch \<in> set es" using rep i(3) by (simp add: replies_inv_def)
      ultimately have "replied (QMessage m # es) ch r"
        using i unfolding replied_def by (intro exI [of _ "[]"] exI [of _ m] exI [of _ es] exI [of _ i]) simp
      with q_message show ?thesis by simp
    next
      case False
      with r q_message show ?thesis
        by (auto simp: qmp_read_def deliver_def chan_send_def Let_def split: if_splits option.splits)
    qed
  qed
next
  case (q_finish decodes w i ch r)
  then show ?thesis
    by (intro replies_keep [OF rep])
       (auto simp: Execute_finish_def Let_def forget_def split: wait_end.splits list.splits if_splits option.splits)
next
  case (q_consume ev evs)
  then show ?thesis by (intro replies_keep [OF rep]) auto
next
  case q_end
  then show ?thesis by (intro replies_keep [OF rep]) (auto simp: read_end_def)
qed

lemma run_replies:
  assumes "qmp_run es q"
  shows "replies_inv es q"
proof -
  have "qmp_inv q \<and> replies_inv es q"
    using assms unfolding qmp_run_def
  proof (rule reachable_invariant)
    fix q :: "'a qmp"
    assume "q = qmp_new"
    then show "qmp_inv q \<and> replies_inv [] q" by (simp add: qmp_inv_def replies_inv_def qmp_new_def)
  qed (blast intro: qmp_step_inv replies_step)
  then show ?thesis ..
qed

text \<open>
  C33. In every interleaving of commands, cancellations, messages and the end of the
  connection, what a command reads from its channel is the reply the server sent with
  the command's own id after the command had been registered, and the reader can take
  the next message without blocking on a channel nobody reads.
\<close>

theorem qmp_replies_matched:
  assumes "qmp_run es q"
  shows "qmp_read m q \<noteq> None \<and> (\<forall>ch r. r \<in> set (qc_chans q ch) \<longrightarrow> replied es ch r)"
  using read_total [OF run_inv [OF assms]] run_replies [OF assms] by (simp add: replies_inv_def)

definition demo_reply :: "nat qmp_message" where
  "demo_reply = \<lparr>qm_greeting = False, qm_event = [], qm_data = 0, qm_return = Some 5, qm_error = None, qm_id = Some 1\<rparr>"

theorem qmp_replies_matched_witness:
  "\<exists>q. qmp_run [QMessage demo_reply, QBegin 1 0] q \<and> qc_chans q 0 = [\<lparr>qr_ret = Some 5, qr_err = None\<rparr>] \<and>
     qmp_read demo_reply q \<noteq> None \<and> replied [QMessage demo_reply, QBegin 1 0] 0 \<lparr>qr_ret = Some 5, qr_err = None\<rparr>"
proof -
  obtain q1 :: "nat qmp" where q1: "Execute_register qmp_new = ((1, 0), q1)"
    by (simp add: Execute_register_def qmp_new_def Let_def)
  then have q1': "\<not> qc_done q1" "qc_chans q1 0 = []" "map_of (qc_pending q1) 1 = Some 0"
    by (auto simp: Execute_register_def qmp_new_def Let_def)
  let ?q2 = "q1\<lparr>qc_pending := AList.delete 1 (qc_pending q1), qc_chans := (qc_chans q1)(0 := [\<lparr>qr_ret = Some 5, qr_err = None\<rparr>])\<rparr>"
  have r: "qmp_read demo_reply q1 = Some ?q2"
    using q1' by (simp add: qmp_read_def demo_reply_def chan_send_def Let_def)
  have "qmp_run [] (qmp_new :: nat qmp)" unfolding qmp_run_def by (rule reach_init) simp
  then have "qmp_run [QBegin 1 0] q1" unfolding qmp_run_def using q_begin [OF q1] by (rule reach_step)
  then have run: "qmp_run [QMessage demo_reply, QBegin 1 0] ?q2"
    unfolding qmp_run_def using q_message [OF q1'(1) r] by (rule reach_step)
  from qmp_replies_matched [OF run, of demo_reply] run show ?thesis by (intro exI [of _ ?q2]) simp
qed

end
