(* ===== verification/Proc.thy ===== *)
theory Proc
  imports VM_Types
begin

text \<open>
  Launching and supervising host processes, \<open>src/internal/runtime/proc\<close>: the tail
  buffer, transient systemd units (the argument list, the state that
  \<open>systemctl show\<close> prints, start, attach, release, exit status, signals), the
  choice of the launcher and the seccomp program that denies io_uring.  What
  systemd and the file system answer are arguments; the commands that are run come
  back as a trace.
\<close>

unbundle bit_operations_syntax

section \<open>Tails\<close>

record tail =
  ta_buf :: bytes
  ta_limit :: nat

definition DefaultTailBytes :: nat where "DefaultTailBytes = 8 * 1024"

definition NewTail :: "int \<Rightarrow> tail" where
  "NewTail limit = \<lparr>ta_buf = [], ta_limit = (if limit \<le> 0 then DefaultTailBytes else nat limit)\<rparr>"

definition Tail_Write :: "bytes \<Rightarrow> tail \<Rightarrow> tail" where
  "Tail_Write p t =
     (if length p \<ge> ta_limit t then t\<lparr>ta_buf := drop (length p - ta_limit t) p\<rparr>
      else
        let over = int (length (ta_buf t)) + int (length p) - int (ta_limit t);
            buf = (if over > 0 then drop (nat over) (ta_buf t) else ta_buf t)
        in t\<lparr>ta_buf := buf @ p\<rparr>)"

definition bytes_text :: "bytes \<Rightarrow> string" where
  "bytes_text = map (\<lambda>b. char_of (unat b))"

definition Tail_String :: "tail \<Rightarrow> string" where
  "Tail_String t = TrimSpace (bytes_text (ta_buf t))"

text \<open>\<open>None\<close> is a file that cannot be opened or read.\<close>

definition TailFile :: "bytes option \<Rightarrow> int \<Rightarrow> string" where
  "TailFile file limit =
     (let n = (if limit \<le> 0 then int DefaultTailBytes else limit) in
      case file of
        None \<Rightarrow> []
      | Some data \<Rightarrow>
          let offset = max (int (length data) - n) 0
          in TrimSpace (bytes_text (drop (nat offset) data)))"

lemma Tail_Write_limit [simp]: "ta_limit (Tail_Write p t) = ta_limit t"
  by (simp add: Tail_Write_def Let_def)

lemma Tail_Write_last:
  assumes "ta_buf t = drop (length s - ta_limit t) s"
  shows "ta_buf (Tail_Write p t) = drop (length (s @ p) - ta_limit t) (s @ p)"
proof (cases "length p \<ge> ta_limit t")
  case True
  then show ?thesis by (simp add: Tail_Write_def)
next
  case False
  let ?over = "int (length (ta_buf t)) + int (length p) - int (ta_limit t)"
  have len: "length (ta_buf t) = min (length s) (ta_limit t)" using assms by simp
  show ?thesis
  proof (cases "?over > 0")
    case True
    then have "nat ?over + (length s - ta_limit t) = length s + length p - ta_limit t"
      using False len by (simp add: min_def split: if_splits)
    moreover have "drop (nat ?over) (ta_buf t) = drop (nat ?over + (length s - ta_limit t)) s"
      using assms by (simp add: add.commute)
    ultimately show ?thesis using False True by (simp add: Tail_Write_def Let_def)
  next
    case le: False
    show ?thesis
    proof (cases "p = []")
      case True
      with assms le False show ?thesis by (simp add: Tail_Write_def Let_def)
    next
      case ne: False
      then have "length p > 0" by simp
      with le False len have "length s + length p \<le> ta_limit t" by (cases "length s \<le> ta_limit t") simp_all
      with assms False le show ?thesis by (simp add: Tail_Write_def Let_def)
    qed
  qed
qed

text \<open>
  Whatever pieces a process writes its output in, a tail holds exactly the last
  bytes of it, at most its limit many.
\<close>

theorem tail_keeps_last:
  "ta_buf (fold Tail_Write ps (NewTail limit)) =
   drop (length (concat ps) - ta_limit (NewTail limit)) (concat ps)"
proof -
  have "ta_buf (fold Tail_Write ps t) = drop (length (s @ concat ps) - ta_limit t) (s @ concat ps)"
    if "ta_buf t = drop (length s - ta_limit t) s" for t s
    using that
  proof (induction ps arbitrary: t s)
    case (Cons p ps)
    from Cons.IH [of "Tail_Write p t" "s @ p"] Tail_Write_last [OF Cons.prems, of p] show ?case by simp
  qed simp
  from this [of "NewTail limit" "[]"] show ?thesis by (simp add: NewTail_def)
qed

section \<open>Commands and units\<close>

record cmd =
  c_path :: string
  c_args :: "string list"
  c_dir :: string
  c_env :: "string list"
  c_log :: string
  c_unit :: string
  c_noIOUring :: bool

definition UnitName :: "string \<Rightarrow> string \<Rightarrow> string" where
  "UnitName vmID role = ''vm-manager-'' @ vmID @ ''-'' @ role"

definition ManagerSystem :: string where "ManagerSystem = ''system''"
definition ManagerUser :: string where "ManagerUser = ''user''"
definition DefaultSlice :: string where "DefaultSlice = ''vm-manager.slice''"

record systemd_exec =
  x_manager :: string
  x_runtimeDir :: string
  x_slice :: string

definition serviceName :: "string \<Rightarrow> string" where
  "serviceName u = (if suffix ''.service'' u then u else u @ ''.service'')"

text \<open>What is handed to the runner; the environment is not kept.\<close>

type_synonym call = "string \<times> string list"

definition systemd_run :: "systemd_exec \<Rightarrow> string \<Rightarrow> string list \<Rightarrow> call" where
  "systemd_run x name args = (name, if x_manager x = ManagerUser then ''--user'' # args else args)"

definition runArgs :: "systemd_exec \<Rightarrow> string \<Rightarrow> string \<Rightarrow> cmd \<Rightarrow> string list" where
  "runArgs x u path c =
     (let slice = (if x_slice x = [] then DefaultSlice else x_slice x) in
      [''--unit='' @ u, ''--service-type=exec'', ''--slice='' @ slice, ''--quiet'',
       ''--expand-environment=no'', ''--property=RemainAfterExit=yes''] @
      (if c_log c \<noteq> [] then [''--property=StandardOutput=append:'' @ c_log c, ''--property=StandardError=append:'' @ c_log c] else []) @
      (if c_dir c \<noteq> [] then [''--working-directory='' @ c_dir c] else []) @
      map (\<lambda>kv. ''--setenv='' @ kv) (c_env c) @
      (if c_noIOUring c then [''--property=SystemCallFilter=~io_uring_setup'', ''--property=SystemCallErrorNumber=EPERM''] else []) @
      [''--'', path] @ c_args c)"

text \<open>Everything before the separator is an option of \<open>systemd-run\<close>; the program and
  its arguments come after it unchanged, whatever they look like.\<close>

lemma runArgs_command: "dropWhile ((\<noteq>) ''--'') (runArgs x u path c) = ''--'' # path # c_args c"
proof -
  have env: "dropWhile ((\<noteq>) ''--'') (map (\<lambda>kv. ''--setenv='' @ kv) env @ r) = dropWhile ((\<noteq>) ''--'') r" for env r
    by (induction env) auto
  show ?thesis unfolding runArgs_def Let_def by (auto simp: env)
qed

section \<open>Unit state\<close>

record unit_state =
  us_loadState :: string
  us_activeState :: string
  us_subState :: string
  us_mainPID :: int
  us_execMainCode :: int
  us_execMainStatus :: int

definition cldExited :: int where "cldExited = 1"
definition cldKilled :: int where "cldKilled = 2"
definition cldDumped :: int where "cldDumped = 3"

definition showProperties :: string where
  "showProperties = ''LoadState,ActiveState,SubState,MainPID,ExecMainCode,ExecMainStatus''"

definition loaded :: "unit_state \<Rightarrow> bool" where
  "loaded s \<longleftrightarrow> us_loadState s \<noteq> [] \<and> us_loadState s \<noteq> ''not-found''"

definition signal_names :: "string list" where
  "signal_names =
     [''hangup'', ''interrupt'', ''quit'', ''illegal instruction'', ''trace/breakpoint trap'', ''aborted'', ''bus error'',
      ''floating point exception'', ''killed'', ''user defined signal 1'', ''segmentation fault'', ''user defined signal 2'',
      ''broken pipe'', ''alarm clock'', ''terminated'', ''stack fault'', ''child exited'', ''continued'', ''stopped (signal)'',
      ''stopped'', ''stopped (tty input)'', ''stopped (tty output)'', ''urgent I/O condition'', ''CPU time limit exceeded'',
      ''file size limit exceeded'', ''virtual timer expired'', ''profiling timer expired'', ''window changed'', ''I/O possible'',
      ''power failure'', ''bad system call'']"

definition Signal_String :: "int \<Rightarrow> string" where
  "Signal_String n = (if 1 \<le> n \<and> n \<le> 31 then signal_names ! nat (n - 1) else ''signal '' @ Itoa n)"

text \<open>An exit status with no error has an empty text.\<close>

definition unit_exit :: "unit_state \<Rightarrow> exit_status" where
  "unit_exit s =
     (if us_execMainCode s = cldExited then
        (if us_execMainStatus s = 0 then \<lparr>ex_code = 0, ex_text = []\<rparr>
         else \<lparr>ex_code = us_execMainStatus s, ex_text = ''exit status '' @ Itoa (us_execMainStatus s)\<rparr>)
      else if us_execMainCode s = cldKilled \<or> us_execMainCode s = cldDumped then
        \<lparr>ex_code = -1,
         ex_text = ''signal: '' @ Signal_String (us_execMainStatus s) @ (if us_execMainCode s = cldDumped then '' (core dumped)'' else [])\<rparr>
      else \<lparr>ex_code = -1, ex_text = ''exit status unknown: ExecMainCode '' @ Itoa (us_execMainCode s)\<rparr>)"

definition ExitStatus_String :: "exit_status \<Rightarrow> string" where
  "ExitStatus_String s = (if ex_text s = [] then ''exit status 0'' else ex_text s)"

text \<open>\<open>Atoi\<close> with its error dropped: a number out of range saturates, other text is 0.\<close>

definition atoi_or :: "string \<Rightarrow> int" where
  "atoi_or s =
     (case Atoi s of
        Some n \<Rightarrow> n
      | None \<Rightarrow>
          (let body = (case s of c # r \<Rightarrow> if c = CHR ''-'' \<or> c = CHR ''+'' then r else s | [] \<Rightarrow> s)
           in if parse_nat body = None then 0
              else if hd s = CHR ''-'' then - (2 ^ 63) else 2 ^ 63 - 1))"

definition zero_state :: unit_state where
  "zero_state = \<lparr>us_loadState = [], us_activeState = [], us_subState = [], us_mainPID = 0, us_execMainCode = 0, us_execMainStatus = 0\<rparr>"

definition show_line :: "string \<Rightarrow> unit_state \<Rightarrow> unit_state" where
  "show_line line st =
     (case Cut (CHR ''='') (TrimSpace line) of
        (_, _, False) \<Rightarrow> st
      | (k, v, True) \<Rightarrow>
          if k = ''LoadState'' then st\<lparr>us_loadState := v\<rparr>
          else if k = ''ActiveState'' then st\<lparr>us_activeState := v\<rparr>
          else if k = ''SubState'' then st\<lparr>us_subState := v\<rparr>
          else if k = ''MainPID'' then st\<lparr>us_mainPID := atoi_or v\<rparr>
          else if k = ''ExecMainCode'' then st\<lparr>us_execMainCode := atoi_or v\<rparr>
          else if k = ''ExecMainStatus'' then st\<lparr>us_execMainStatus := atoi_or v\<rparr>
          else st)"

definition parse_show :: "string \<Rightarrow> unit_state" where
  "parse_show out = fold show_line (Split (CHR 0x0A) out) zero_state"

text \<open>\<open>show\<close>: the call and how its answer is read.\<close>

definition show_call :: "systemd_exec \<Rightarrow> string \<Rightarrow> call" where
  "show_call x u = systemd_run x ''systemctl'' [''show'', ''--property='' @ showProperties, u]"

definition show_result :: "string res \<Rightarrow> unit_state res" where
  "show_result out = map_sum id parse_show out"

definition release :: "systemd_exec \<Rightarrow> string \<Rightarrow> call list" where
  "release x u = [systemd_run x ''systemctl'' [''stop'', u], systemd_run x ''systemctl'' [''reset-failed'', u]]"

section \<open>Processes\<close>

text \<open>How the end of a unit's main process is noticed: through a pidfd, by polling, or
  it ended already.\<close>

datatype watch_mode = Watching | Polling | Ended

datatype pidfd = PidfdOpen | PidfdNoProcess | PidfdFailed

record unit_process =
  up_unit :: string
  up_pid :: int
  up_mode :: watch_mode

definition systemd_process :: "pidfd \<Rightarrow> string \<Rightarrow> unit_state \<Rightarrow> unit_process" where
  "systemd_process fd u st =
     \<lparr>up_unit = u, up_pid = us_mainPID st,
      up_mode = (if us_mainPID st > 0 then
        (case fd of PidfdOpen \<Rightarrow> Watching | PidfdFailed \<Rightarrow> Polling | PidfdNoProcess \<Rightarrow> Ended) else Ended)\<rparr>"

definition up_handle :: "unit_process \<Rightarrow> proc_handle" where
  "up_handle p = \<lparr>ha_unit = up_unit p, ha_pid = up_pid p\<rparr>"

record systemd_io =
  sd_ctx :: "error option"
  sd_lookPath :: "string option"
  sd_before :: "string res"
  sd_log :: bool
  sd_run :: bool
  sd_after :: "string res"
  sd_pidfd :: pidfd

definition SystemdExec_Start :: "systemd_exec \<Rightarrow> systemd_io \<Rightarrow> cmd \<Rightarrow> unit_process res \<times> call list" where
  "SystemdExec_Start x io c =
     (case sd_ctx io of
        Some e \<Rightarrow> (Inl e, [])
      | None \<Rightarrow>
          if c_unit c = [] then (Inl (ErrOther ''unit name''), [])
          else
            (case sd_lookPath io of
               None \<Rightarrow> (Inl (ErrOther ''look path''), [])
             | Some path \<Rightarrow>
                 let u = serviceName (c_unit c); sh = [show_call x u] in
                 (case show_result (sd_before io) of
                    Inl e \<Rightarrow> (Inl e, sh)
                  | Inr st \<Rightarrow>
                      if loaded st \<and> us_mainPID st > 0 then (Inl (ErrOther ''already running''), sh)
                      else
                        let rel = (if loaded st then release x u else []) in
                        if c_log c \<noteq> [] \<and> \<not> sd_log io then (Inl (ErrOther ''log file''), sh @ rel)
                        else
                          let run = [systemd_run x ''systemd-run'' (runArgs x u path c)] in
                          if \<not> sd_run io then (Inl (ErrOther ''systemd-run''), sh @ rel @ run)
                          else
                            (case show_result (sd_after io) of
                               Inl e \<Rightarrow> (Inl e, sh @ rel @ run @ sh)
                             | Inr st' \<Rightarrow> (Inr (systemd_process (sd_pidfd io) u st'), sh @ rel @ run @ sh)))))"

definition ErrGone :: error where "ErrGone = ErrOther ''process is gone''"
definition ErrNoReattach :: error where "ErrNoReattach = ErrOther ''launcher cannot reattach processes''"

definition SystemdExec_Attach :: "systemd_exec \<Rightarrow> error option \<Rightarrow> string res \<Rightarrow> pidfd \<Rightarrow> proc_handle \<Rightarrow> unit_process res \<times> call list" where
  "SystemdExec_Attach x ctx out fd h =
     (case ctx of
        Some e \<Rightarrow> (Inl e, [])
      | None \<Rightarrow>
          if ha_unit h = [] then (Inl ErrGone, [])
          else
            let u = serviceName (ha_unit h); sh = [show_call x u] in
            (case show_result out of
               Inl e \<Rightarrow> (Inl e, sh)
             | Inr st \<Rightarrow> if \<not> loaded st then (Inl ErrGone, sh) else (Inr (systemd_process fd u st), sh)))"

text \<open>Signals go through systemd; a process that has ended takes none.\<close>

definition unit_kill :: "systemd_exec \<Rightarrow> unit_process \<Rightarrow> string list \<Rightarrow> call" where
  "unit_kill x p flags = systemd_run x ''systemctl'' ((''kill'' # flags) @ [up_unit p])"

definition ErrProcessDone :: error where "ErrProcessDone = ErrOther ''os: process already finished''"

definition unit_Signal :: "systemd_exec \<Rightarrow> bool \<Rightarrow> string option \<Rightarrow> unit_process \<Rightarrow> call res" where
  "unit_Signal x exited sig p =
     (if exited then Inl ErrProcessDone
      else
        (case sig of
           None \<Rightarrow> Inl (ErrOther ''not a unix signal'')
         | Some name \<Rightarrow> Inr (unit_kill x p [''--kill-whom=main'', ''--signal='' @ name])))"

definition unit_Kill :: "systemd_exec \<Rightarrow> bool \<Rightarrow> unit_process \<Rightarrow> call res" where
  "unit_Kill x exited p = (if exited then Inl ErrProcessDone else Inr (unit_kill x p [''--signal=SIGKILL'']))"

text \<open>
  The unit is asked until the exit is recorded.  An answer comes with whether the
  timeout passed before the next one; no more answers means the loop still runs.
\<close>

fun exitStatus :: "string \<Rightarrow> (string res \<times> bool) list \<Rightarrow> exit_status option" where
  "exitStatus u [] = None"
| "exitStatus u ((out, timedOut) # polls) =
     (case show_result out of
        Inl e \<Rightarrow> Some \<lparr>ex_code = -1, ex_text = ''exit status unknown''\<rparr>
      | Inr st \<Rightarrow>
          if \<not> loaded st then Some \<lparr>ex_code = -1, ex_text = ''exit status unknown: unit '' @ u @ '' is gone''\<rparr>
          else if us_mainPID st = 0 \<and> us_execMainCode st \<noteq> 0 then Some (unit_exit st)
          else if timedOut then
            Some \<lparr>ex_code = -1, ex_text = ''exit status unknown: unit '' @ u @ '' still reports pid '' @ Itoa (us_mainPID st)\<rparr>
          else exitStatus u polls)"

text \<open>\<open>poll\<close>, the fallback without a pidfd, asks until the process is gone.\<close>

fun unit_poll :: "string res list \<Rightarrow> bool" where
  "unit_poll [] = False"
| "unit_poll (out # outs) =
     (case show_result out of
        Inl _ \<Rightarrow> True
      | Inr st \<Rightarrow> if \<not> loaded st \<or> us_mainPID st = 0 then True else unit_poll outs)"

definition settle :: "systemd_exec \<Rightarrow> string \<Rightarrow> (string res \<times> bool) list \<Rightarrow> (exit_status \<times> call list) option" where
  "settle x u polls = map_option (\<lambda>st. (st, release x u)) (exitStatus u polls)"

text \<open>Plain child processes; \<open>denied\<close> is whether the seccomp program could be installed.\<close>

definition OSExec_Start :: "error option \<Rightarrow> bool \<Rightarrow> bool \<Rightarrow> int res \<Rightarrow> cmd \<Rightarrow> proc_handle res" where
  "OSExec_Start ctx logOpened denied started c =
     (case ctx of
        Some e \<Rightarrow> Inl e
      | None \<Rightarrow>
          if c_log c \<noteq> [] \<and> \<not> logOpened then Inl (ErrOther ''log file'')
          else if c_noIOUring c \<and> \<not> denied then Inl (ErrOther ''seccomp'')
          else map_sum id (\<lambda>pid. \<lparr>ha_unit = [], ha_pid = pid\<rparr>) started)"

section \<open>Choosing the launcher\<close>

definition LauncherAuto :: string where "LauncherAuto = ''auto''"
definition LauncherSystemd :: string where "LauncherSystemd = ''systemd''"
definition LauncherProcess :: string where "LauncherProcess = ''process''"

lemmas launcher_defs = LauncherAuto_def LauncherSystemd_def LauncherProcess_def

text \<open>\<open>None\<close> runs plain child processes.\<close>

record launcher =
  la_exec :: "systemd_exec option"
  la_manager :: string

definition Launcher_Persistent :: "launcher \<Rightarrow> bool" where
  "Launcher_Persistent l \<longleftrightarrow> la_manager l \<noteq> []"

definition Launcher_Mode :: "launcher \<Rightarrow> string" where
  "Launcher_Mode l = (if Launcher_Persistent l then LauncherSystemd else LauncherProcess)"

record host_probe =
  hp_systemdRun :: bool
  hp_euid :: int
  hp_xdgRuntimeDir :: string
  hp_exists :: "string \<Rightarrow> bool"

definition systemManagerDir :: string where "systemManagerDir = ''/run/systemd/system''"

definition userRuntimeDir :: "int \<Rightarrow> string" where
  "userRuntimeDir uid = filepath_Join [''/run/user'', Itoa uid]"

definition detectManager :: "host_probe \<Rightarrow> string \<times> string" where
  "detectManager h =
     (if \<not> hp_systemdRun h then ([], [])
      else if hp_euid h = 0 then (if hp_exists h systemManagerDir then (ManagerSystem, []) else ([], []))
      else
        let dir = (if hp_xdgRuntimeDir h = [] then userRuntimeDir (hp_euid h) else hp_xdgRuntimeDir h)
        in if hp_exists h (filepath_Join [dir, ''systemd'', ''private'']) then (ManagerUser, dir) else ([], []))"

definition SelectLauncher :: "host_probe \<Rightarrow> string \<Rightarrow> launcher res" where
  "SelectLauncher h mode =
     (if mode = LauncherProcess then Inr \<lparr>la_exec = None, la_manager = []\<rparr>
      else if mode \<noteq> LauncherAuto \<and> mode \<noteq> LauncherSystemd then Inl (ErrOther ''launcher mode'')
      else
        (case detectManager h of (manager, dir) \<Rightarrow>
           if manager = [] then
             (if mode = LauncherSystemd then Inl (ErrOther ''systemd launcher unavailable'')
              else Inr \<lparr>la_exec = None, la_manager = []\<rparr>)
           else Inr \<lparr>la_exec = Some \<lparr>x_manager = manager, x_runtimeDir = dir, x_slice = []\<rparr>, la_manager = manager\<rparr>))"

lemma detectManager_reachable:
  assumes "detectManager h = (m, d)" "m \<noteq> []"
  shows "m = ManagerSystem \<and> hp_euid h = 0 \<and> hp_exists h systemManagerDir \<or>
    m = ManagerUser \<and> hp_euid h \<noteq> 0 \<and> hp_exists h (filepath_Join [d, ''systemd'', ''private''])"
  using assms by (auto simp: detectManager_def Let_def split: if_splits)

lemma SelectLauncher_persistent:
  assumes "SelectLauncher h mode = Inr l"
  shows "Launcher_Persistent l \<longleftrightarrow> la_exec l \<noteq> None"
proof -
  obtain m d where "detectManager h = (m, d)" by fastforce
  with assms show ?thesis
    by (cases "m = []") (auto simp: SelectLauncher_def Launcher_Persistent_def simp del: list.distinct split: if_splits)
qed

lemma SelectLauncher_systemd:
  assumes "SelectLauncher h LauncherSystemd = Inr l"
  shows "Launcher_Persistent l"
proof -
  obtain m d where m: "detectManager h = (m, d)" by fastforce
  have "LauncherSystemd \<noteq> LauncherProcess" by (simp add: launcher_defs)
  with assms m show ?thesis by (cases "m = []") (auto simp: SelectLauncher_def Launcher_Persistent_def)
qed

section \<open>Seccomp\<close>

text \<open>The classic BPF instructions of the program and how the kernel runs them on the
  system call number, the first word of its input.\<close>

datatype bpf = LoadAbs nat | JumpEq "32 word" nat nat | Ret "32 word"

definition SYS_IO_URING_SETUP :: "32 word" where "SYS_IO_URING_SETUP = 425"
definition SECCOMP_RET_ERRNO :: "32 word" where "SECCOMP_RET_ERRNO = 0x00050000"
definition SECCOMP_RET_ALLOW :: "32 word" where "SECCOMP_RET_ALLOW = 0x7FFF0000"
definition EPERM :: "32 word" where "EPERM = 1"

definition ioUringDenyFilter :: "bpf list" where
  "ioUringDenyFilter = [LoadAbs 0, JumpEq SYS_IO_URING_SETUP 0 1, Ret (SECCOMP_RET_ERRNO OR EPERM), Ret SECCOMP_RET_ALLOW]"

fun bpf_run :: "32 word \<Rightarrow> 32 word \<Rightarrow> bpf list \<Rightarrow> 32 word option" where
  "bpf_run nr acc [] = None"
| "bpf_run nr acc (LoadAbs k # is) = (if k = 0 then bpf_run nr nr is else None)"
| "bpf_run nr acc (JumpEq k jt jf # is) = bpf_run nr acc (drop (if acc = k then jt else jf) is)"
| "bpf_run nr acc (Ret k # is) = Some k"

lemma seccomp_filter:
  "bpf_run nr 0 ioUringDenyFilter =
   Some (if nr = SYS_IO_URING_SETUP then SECCOMP_RET_ERRNO OR EPERM else SECCOMP_RET_ALLOW)"
  by (simp add: ioUringDenyFilter_def)

section \<open>Starting and exiting\<close>

lemma start_running:
  assumes "show_result (sd_before io) = Inr st" "loaded st" "us_mainPID st > 0"
  shows "isl (fst (SystemdExec_Start x io c)) \<and> set (snd (SystemdExec_Start x io c)) \<subseteq> {show_call x (serviceName (c_unit c))}"
  using assms by (auto simp: SystemdExec_Start_def Let_def split: option.splits)

text \<open>
  When \<open>Start\<close> returns a process, the unit had no running process before, a unit
  left over from an earlier run was released, and the program and its arguments follow
  the option separator of \<open>systemd-run\<close> unchanged, whatever they contain.
\<close>

theorem systemd_start:
  assumes "SystemdExec_Start x io c = (Inr p, calls)"
  shows "\<exists>st path args. show_result (sd_before io) = Inr st \<and> \<not> (loaded st \<and> us_mainPID st > 0) \<and>
    sd_lookPath io = Some path \<and> up_unit p = serviceName (c_unit c) \<and>
    calls = show_call x (up_unit p) # (if loaded st then release x (up_unit p) else []) @
      [systemd_run x ''systemd-run'' args, show_call x (up_unit p)] \<and>
    dropWhile ((\<noteq>) ''--'') args = ''--'' # path # c_args c"
proof -
  let ?u = "serviceName (c_unit c)"
  have "sd_ctx io = None" "c_unit c \<noteq> []" using assms by (auto simp: SystemdExec_Start_def split: option.splits if_splits)
  moreover obtain path where path: "sd_lookPath io = Some path"
    using assms by (auto simp: SystemdExec_Start_def split: option.splits if_splits)
  moreover obtain st where st: "show_result (sd_before io) = Inr st"
    using assms calculation by (cases "show_result (sd_before io)") (auto simp: SystemdExec_Start_def Let_def)
  moreover have nrun: "\<not> (loaded st \<and> us_mainPID st > 0)"
    using assms calculation by (auto simp: SystemdExec_Start_def Let_def)
  moreover have "\<not> (c_log c \<noteq> [] \<and> \<not> sd_log io)" "sd_run io"
    using assms calculation by (auto simp: SystemdExec_Start_def Let_def split: if_splits)
  moreover obtain st' where "show_result (sd_after io) = Inr st'"
    using assms calculation by (cases "show_result (sd_after io)") (auto simp: SystemdExec_Start_def Let_def)
  ultimately have "SystemdExec_Start x io c = (Inr (systemd_process (sd_pidfd io) ?u st'),
      show_call x ?u # (if loaded st then release x ?u else []) @ [systemd_run x ''systemd-run'' (runArgs x ?u path c), show_call x ?u])"
    by (simp only: SystemdExec_Start_def Let_def option.case sum.case if_False) auto
  with assms have "p = systemd_process (sd_pidfd io) ?u st'" and calls: "calls = show_call x ?u # (if loaded st then release x ?u else []) @
      [systemd_run x ''systemd-run'' (runArgs x ?u path c), show_call x ?u]" by auto
  then have "up_unit p = ?u" by (simp add: systemd_process_def)
  with calls st nrun path show ?thesis using runArgs_command [of x ?u path c] by metis
qed

definition demo_cmd :: cmd where
  "demo_cmd = \<lparr>c_path = ''qemu'', c_args = [''--'', ''-m''], c_dir = [], c_env = [], c_log = [], c_unit = ''u'', c_noIOUring = True\<rparr>"

definition demo_systemd :: systemd_exec where
  "demo_systemd = \<lparr>x_manager = ManagerUser, x_runtimeDir = [], x_slice = []\<rparr>"

definition demo_sdio :: systemd_io where
  "demo_sdio = \<lparr>sd_ctx = None, sd_lookPath = Some ''/q'', sd_before = Inr [], sd_log = True, sd_run = True,
     sd_after = Inr ''MainPID=7'', sd_pidfd = PidfdOpen\<rparr>"

theorem systemd_start_witness:
  "\<exists>p calls. SystemdExec_Start demo_systemd demo_sdio demo_cmd = (Inr p, calls) \<and> up_unit p = ''u.service'' \<and>
     calls = [show_call demo_systemd (up_unit p), systemd_run demo_systemd ''systemd-run'' (runArgs demo_systemd (up_unit p) ''/q'' demo_cmd), show_call demo_systemd (up_unit p)]"
proof -
  have z: "parse_show [] = zero_state" by code_simp
  have u: "serviceName ''u'' = ''u.service''" by code_simp
  let ?p = "systemd_process PidfdOpen ''u.service'' (parse_show ''MainPID=7'')"
  let ?calls = "[show_call demo_systemd (up_unit ?p), systemd_run demo_systemd ''systemd-run'' (runArgs demo_systemd (up_unit ?p) ''/q'' demo_cmd), show_call demo_systemd (up_unit ?p)]"
  have s: "SystemdExec_Start demo_systemd demo_sdio demo_cmd = (Inr ?p, ?calls)"
    by (simp add: SystemdExec_Start_def demo_sdio_def demo_cmd_def show_result_def z zero_state_def loaded_def u Let_def systemd_process_def)
  from systemd_start [OF s] s u show ?thesis by (auto simp: demo_cmd_def)
qed

end
