(* ===== verification/QEMU_Runtime.thy ===== *)
theory QEMU_Runtime
  imports Proc Network QEMU_Spec
begin

text \<open>
  Running QEMU, \<open>src/internal/runtime/qemu\<close> (\<open>compat.go\<close>, \<open>qmp.go\<close>,
  \<open>runtime.go\<close>): the adaptation of the argument list to older releases, the client
  of QEMU's control protocol as a step relation over its shared state, and starting,
  attaching, stopping and killing an instance.  Decoded messages, the answers of the
  socket, the file system, the launcher and the clock are arguments.
\<close>

section \<open>Releases\<close>

record version =
  ve_major :: int
  ve_minor :: int

definition reconnectMSSince :: version where "reconnectMSSince = \<lparr>ve_major = 9, ve_minor = 2\<rparr>"

definition Version_String :: "version \<Rightarrow> string" where
  "Version_String v = Itoa (ve_major v) @ ''.'' @ Itoa (ve_minor v)"

definition Version_Less :: "version \<Rightarrow> version \<Rightarrow> bool" where
  "Version_Less v w \<longleftrightarrow> ve_major v < ve_major w \<or> (ve_major v = ve_major w \<and> ve_minor v < ve_minor w)"

text \<open>\<open>versionPattern\<close>: the first place where the text, a number, a dot and a number stand.\<close>

definition match_version :: "string \<Rightarrow> (string \<times> string) option" where
  "match_version s =
     (if prefix ''QEMU emulator version '' s then
        let r = drop (length ''QEMU emulator version '') s;
            major = takeWhile is_digit r; r2 = dropWhile is_digit r;
            minor = takeWhile is_digit (tl r2)
        in if major \<noteq> [] \<and> r2 \<noteq> [] \<and> hd r2 = CHR ''.'' \<and> minor \<noteq> [] then Some (major, minor) else None
      else None)"

fun find_version :: "string \<Rightarrow> (string \<times> string) option" where
  "find_version [] = None"
| "find_version (c # cs) = (case match_version (c # cs) of Some m \<Rightarrow> Some m | None \<Rightarrow> find_version cs)"

definition ParseVersion :: "string \<Rightarrow> version res" where
  "ParseVersion out =
     (case find_version out of
        None \<Rightarrow> Inl (ErrOther ''qemu: no version'')
      | Some (a, b) \<Rightarrow> Inr \<lparr>ve_major = atoi_or a, ve_minor = atoi_or b\<rparr>)"

definition probeVersion :: "string res \<Rightarrow> version res" where
  "probeVersion out = bindE out ParseVersion"

text \<open>\<open>reconnectMSPattern\<close> at one place: an option of a comma-separated list, with the
  comma before it unless it is the first and the comma after it unless it is the last.\<close>

definition reconnect_ms :: string where "reconnect_ms = ''reconnect-ms=''"

definition match_value :: "string \<Rightarrow> (string \<times> string \<times> string) option" where
  "match_value s =
     (if prefix reconnect_ms s then
        let r = drop (length reconnect_ms) s; ms = takeWhile is_digit r; rest = dropWhile is_digit r
        in if ms = [] then None
           else (case rest of
                   [] \<Rightarrow> Some (ms, [], [])
                 | c # cs \<Rightarrow> if c = CHR '','' then Some (ms, '','', cs) else None)
      else None)"

definition match_option :: "bool \<Rightarrow> string \<Rightarrow> (string \<times> string \<times> string \<times> string) option" where
  "match_option atStart s =
     (case (if atStart then match_value s else None) of
        Some (ms, post, rest) \<Rightarrow> Some ([], ms, post, rest)
      | None \<Rightarrow>
          (case s of
             c # cs \<Rightarrow>
               if c = CHR '','' then map_option (\<lambda>(ms, post, rest). ('','', ms, post, rest)) (match_value cs) else None
           | [] \<Rightarrow> None))"

text \<open>Milliseconds to seconds in 64-bit arithmetic, rounded up to at least one.\<close>

definition wrap64 :: "int \<Rightarrow> int" where
  "wrap64 i = (i + 2 ^ 63) mod 2 ^ 64 - 2 ^ 63"

definition reconnect_seconds :: "int \<Rightarrow> int" where
  "reconnect_seconds ms = max 1 (wrap64 (ms + 999) div 1000)"

lemma match_value_length: "match_value s = Some (ms, post, rest) \<Longrightarrow> length rest < length s"
proof -
  assume m: "match_value s = Some (ms, post, rest)"
  then obtain t where s: "s = reconnect_ms @ t" by (auto simp: match_value_def prefix_def split: if_splits)
  with m have "length rest \<le> length (dropWhile is_digit t)"
    by (auto simp: match_value_def Let_def split: if_splits list.splits)
  also have "\<dots> \<le> length t" by (rule length_dropWhile_le)
  finally show ?thesis using s by (simp add: reconnect_ms_def)
qed

lemma match_option_length: "match_option b s = Some (pre, ms, post, rest) \<Longrightarrow> length rest < length s"
  by (auto simp: match_option_def dest: match_value_length split: option.splits if_splits list.splits)

function rewrite_reconnect :: "bool \<Rightarrow> string \<Rightarrow> string" where
  "rewrite_reconnect atStart s =
     (case match_option atStart s of
        Some (pre, ms, post, rest) \<Rightarrow>
          pre @ ''reconnect='' @ Itoa (reconnect_seconds (atoi_or ms)) @ post @ rewrite_reconnect False rest
      | None \<Rightarrow> (case s of [] \<Rightarrow> [] | c # cs \<Rightarrow> c # rewrite_reconnect False cs))"
  by pat_completeness auto

termination
  by (relation "measure (\<lambda>(b, s). length s)") (auto dest: match_option_length)

declare rewrite_reconnect.simps [simp del]

fun compat_from :: "string list \<Rightarrow> string list" where
  "compat_from (a # b # r) = a # compat_from ((if a = ''-netdev'' then rewrite_reconnect True b else b) # r)"
| "compat_from r = r"

definition compatArgs :: "string list \<Rightarrow> version \<Rightarrow> string list" where
  "compatArgs args v = (if \<not> Version_Less v reconnectMSSince then args else compat_from args)"

lemma reconnect_seconds_ceiling:
  assumes "1 \<le> ms" "ms + 999 < 2 ^ 63"
  shows "1000 * (reconnect_seconds ms - 1) < ms \<and> ms \<le> 1000 * reconnect_seconds ms"
proof -
  have "wrap64 (ms + 999) = ms + 999" using assms by (simp add: wrap64_def)
  with assms show ?thesis by (simp add: reconnect_seconds_def max_def) linarith
qed

lemma reconnect_seconds_pos: "reconnect_seconds ms \<ge> 1"
  by (simp add: reconnect_seconds_def)

lemma compat_from_length [simp]: "length (compat_from args) = length args"
  by (induction args rule: compat_from.induct) auto


lemma match_value_prefix: "\<not> prefix reconnect_ms s \<Longrightarrow> match_value s = None"
  by (simp add: match_value_def)

lemma not_prefix_boundary:
  assumes "\<not> sublist reconnect_ms u"
  shows "\<not> prefix reconnect_ms (u @ CHR '','' # r)"
proof
  assume p: "prefix reconnect_ms (u @ CHR '','' # r)"
  have "\<not> prefix reconnect_ms u" using assms prefix_imp_sublist by blast
  with p obtain w where "reconnect_ms = u @ w" "prefix w (CHR '','' # r)" "w \<noteq> []"
    by (metis append_Nil2 prefix_append prefix_order.refl)
  then obtain w' where "reconnect_ms = u @ CHR '','' # w'" by (cases w) auto
  then have "CHR '','' \<in> set reconnect_ms" by (metis in_set_conv_decomp)
  then show False by (simp add: reconnect_ms_def)
qed

lemma sublist_tl: "\<not> sublist w (c # u) \<Longrightarrow> \<not> sublist w u"
  by (meson sublist_Cons_right)

text \<open>An option at the end of a list is rewritten, and nothing before it is touched as
  long as the text before it does not contain the option's name.\<close>

lemma rewrite_last:
  assumes "\<not> sublist reconnect_ms u" "n \<noteq> []" "list_all is_digit n"
  shows "rewrite_reconnect b (u @ CHR '','' # reconnect_ms @ n) =
    u @ '',reconnect='' @ Itoa (reconnect_seconds (atoi_or n))"
  using assms(1)
proof (induction u arbitrary: b)
  case Nil
  have v: "match_value (reconnect_ms @ n) = Some (n, [], [])"
  proof -
    have "takeWhile is_digit n = n" "dropWhile is_digit n = []"
      using assms(3) by (auto simp: list_all_iff takeWhile_eq_all_conv)
    with assms(2) show ?thesis
      by (simp add: match_value_def Let_def del: takeWhile_eq_all_conv dropWhile_eq_Nil_conv)
  qed
  have "match_value (CHR '','' # reconnect_ms @ n) = None" by (rule match_value_prefix) (simp add: reconnect_ms_def)
  with v have "match_option b (CHR '','' # reconnect_ms @ n) = Some ('','', n, [], [])" by (simp add: match_option_def)
  moreover have "rewrite_reconnect False [] = []" by (subst rewrite_reconnect.simps) (simp add: match_option_def)
  ultimately show ?case by (subst rewrite_reconnect.simps) simp
next
  case (Cons c u)
  note ns = Cons.prems sublist_tl [OF Cons.prems]
  have "match_value ((c # u) @ CHR '','' # reconnect_ms @ n) = None" "match_value (u @ CHR '','' # reconnect_ms @ n) = None"
    using match_value_prefix not_prefix_boundary ns by blast+
  then have "match_option b ((c # u) @ CHR '','' # reconnect_ms @ n) = None" by (simp add: match_option_def)
  then show ?case using Cons.IH [OF ns(2)] by (subst rewrite_reconnect.simps) simp
qed

lemma atoi_or_itoa: "n < 2 ^ 63 \<Longrightarrow> atoi_or (itoa_nat n) = int n"
proof -
  assume "n < 2 ^ 63"
  obtain d ds where d: "itoa_nat n = d # ds" using itoa_nat_digits [of n] by (cases "itoa_nat n") auto
  then have "is_digit d" using itoa_nat_digits [of n] by simp
  then have "d \<noteq> CHR ''-''" "d \<noteq> CHR ''+''" by (auto simp: is_digit_def ord_def)
  with d parse_itoa [of n] \<open>n < 2 ^ 63\<close> have "Atoi (itoa_nat n) = Some (int n)" by (simp add: Atoi_def Let_def)
  then show ?thesis by (simp add: atoi_or_def)
qed

text \<open>What the networks hand to QEMU, on a release without the option.\<close>

lemma compat_attachment:
  assumes "Version_Less v reconnectMSSince"
    and h: "\<not> sublist reconnect_ms (''stream,id='' @ netdevID @ '',addr.type=unix,addr.path='' @ qemuEscape (at_socketPath a))"
  shows "compatArgs (Attachment_QEMUArgs a) v =
    [''-netdev'', ''stream,id='' @ netdevID @ '',addr.type=unix,addr.path='' @ qemuEscape (at_socketPath a) @ '',reconnect=1'',
     ''-device'', ''virtio-net-pci,netdev='' @ netdevID @ '',mac='' @ at_mac a]"
proof -
  let ?u = "''stream,id='' @ netdevID @ '',addr.type=unix,addr.path='' @ qemuEscape (at_socketPath a)"
  have "rewrite_reconnect True (?u @ CHR '','' # reconnect_ms @ itoa_nat reconnectMS) =
      ?u @ '',reconnect='' @ Itoa (reconnect_seconds (atoi_or (itoa_nat reconnectMS)))"
    by (rule rewrite_last [OF h]) (use itoa_nat_digits [of reconnectMS] in auto)
  moreover have "Itoa (reconnect_seconds (atoi_or (itoa_nat reconnectMS))) = ''1''"
  proof -
    have "reconnect_seconds (atoi_or (itoa_nat reconnectMS)) = 1"
      by (simp add: atoi_or_itoa reconnectMS_def reconnect_seconds_def wrap64_def)
    moreover have "Itoa 1 = ''1''" by code_simp
    ultimately show ?thesis by simp
  qed
  ultimately show ?thesis
    using assms(1) by (simp add: compatArgs_def Attachment_QEMUArgs_def reconnect_ms_def)
qed

section \<open>The runtime\<close>

definition DefaultBinary :: string where "DefaultBinary = ''qemu-system-x86_64''"
definition UnitRole :: string where "UnitRole = ''qemu''"
definition RuntimeOVMFVarsTemplate :: string where "RuntimeOVMFVarsTemplate = ''/usr/share/edk2/x64/OVMF_VARS.4m.fd''"
definition DefaultStartTimeout :: duration where "DefaultStartTimeout = 10 * 10 ^ 9"
definition DefaultPowerdownTimeout :: duration where "DefaultPowerdownTimeout = 30 * 10 ^ 9"
definition DefaultStopGrace :: duration where "DefaultStopGrace = 5 * 10 ^ 9"

record rt_options =
  ro_binary :: string
  ro_varsTemplate :: string
  ro_startTimeout :: duration
  ro_powerdownTimeout :: duration
  ro_stopGrace :: duration

text \<open>\<open>rt_version\<close> is the outcome of the version probe once it ran.\<close>

record runtime = rt_options +
  rt_version :: "version option option"

definition Runtime_New :: "rt_options \<Rightarrow> runtime" where
  "Runtime_New o' =
     \<lparr>ro_binary = (if ro_binary o' = [] then DefaultBinary else ro_binary o'),
      ro_varsTemplate = (if ro_varsTemplate o' = [] then RuntimeOVMFVarsTemplate else ro_varsTemplate o'),
      ro_startTimeout = (if ro_startTimeout o' \<le> 0 then DefaultStartTimeout else ro_startTimeout o'),
      ro_powerdownTimeout = (if ro_powerdownTimeout o' \<le> 0 then DefaultPowerdownTimeout else ro_powerdownTimeout o'),
      ro_stopGrace = (if ro_stopGrace o' \<le> 0 then DefaultStopGrace else ro_stopGrace o'),
      rt_version = None\<rparr>"

definition qemuVersion :: "string res \<Rightarrow> runtime \<Rightarrow> version option \<times> runtime" where
  "qemuVersion probe r =
     (case rt_version r of
        Some v \<Rightarrow> (v, r)
      | None \<Rightarrow> let v = ok_of (probeVersion probe) in (v, r\<lparr>rt_version := Some v\<rparr>))"

type_synonym files = "string \<Rightarrow> bytes option"

record rt_io =
  ri_probe :: "string res"
  ri_mkdir :: "string \<Rightarrow> bool"
  ri_create :: bool
  ri_copy :: bool
  ri_close :: bool
  ri_remove :: bool
  ri_exec :: "proc_handle res"

definition copyIfMissing :: "rt_io \<Rightarrow> string \<Rightarrow> string \<Rightarrow> files \<Rightarrow> unit res \<times> files" where
  "copyIfMissing io src dst fs =
     (if fs dst \<noteq> None then (Inr (), fs)
      else if \<not> ri_create io then (Inl (ErrOther ''create''), fs)
      else
        (case fs src of
           None \<Rightarrow> (Inl (ErrOther ''open template''), fs(dst := None))
         | Some data \<Rightarrow>
             if \<not> ri_copy io then (Inl (ErrOther ''copy''), fs(dst := None))
             else ((if ri_close io then Inr () else Inl (ErrOther ''close'')), fs(dst \<mapsto> data))))"

definition filepath_Dir :: "string \<Rightarrow> string" where
  "filepath_Dir p = (case LastIndexCut (CHR ''/'') p of None \<Rightarrow> ''.'' | Some (d, _) \<Rightarrow> Clean (d @ ''/''))"

definition prepare :: "rt_io \<Rightarrow> runtime \<Rightarrow> qemu_spec \<Rightarrow> files \<Rightarrow> unit res \<times> files" where
  "prepare io r spec fs =
     (if \<not> list_all (\<lambda>p. ri_mkdir io (filepath_Dir p)) [qs_ovmfVars spec, qs_serialLog spec, qs_qmpSocket spec]
      then (Inl (ErrOther ''vm directory''), fs)
      else
        (case copyIfMissing io (ro_varsTemplate r) (qs_ovmfVars spec) fs of
           (Inl e, fs') \<Rightarrow> (Inl e, fs')
         | (Inr _, fs') \<Rightarrow>
             if fs' (qs_qmpSocket spec) \<noteq> None \<and> \<not> ri_remove io then (Inl (ErrOther ''stale QMP socket''), fs')
             else (Inr (), fs'(qs_qmpSocket spec := None))))"

text \<open>One round of \<open>connectQMP\<close>: QMP answered, or it did not and what the wait gave.\<close>

datatype qmp_attempt = Answered | NoAnswer_Exited | NoAnswer_Cancelled | NoAnswer_Deadline | NoAnswer_Again

fun connectQMP :: "qmp_attempt list \<Rightarrow> unit res option" where
  "connectQMP [] = None"
| "connectQMP (a # as) =
     (case a of
        Answered \<Rightarrow> Some (Inr ())
      | NoAnswer_Exited \<Rightarrow> Some (Inl (ErrOther ''qemu exited during start''))
      | NoAnswer_Cancelled \<Rightarrow> Some (Inl (ErrOther ''qemu start''))
      | NoAnswer_Deadline \<Rightarrow> Some (Inl (ErrOther ''QMP did not answer''))
      | NoAnswer_Again \<Rightarrow> connectQMP as)"

datatype rt_action = ActLaunch cmd | ActPowerdown | ActTerm | ActKill

record rt_instance =
  ri_spec :: qemu_spec
  ri_handle :: proc_handle
  ri_qmp :: bool

text \<open>\<open>None\<close> while the connection is still being tried.\<close>

definition Runtime_Start ::
  "(string \<Rightarrow> bool) \<Rightarrow> rt_io \<Rightarrow> qmp_attempt list \<Rightarrow> qemu_spec \<Rightarrow> runtime \<Rightarrow> files \<Rightarrow>
   (rt_instance res \<times> rt_action list \<times> runtime \<times> files) option" where
  "Runtime_Start uni io attempts spec r fs =
     (case Command uni spec of
        Inl e \<Rightarrow> Some (Inl e, [], r, fs)
      | Inr args \<Rightarrow>
          (case qemuVersion (ri_probe io) r of (v, r') \<Rightarrow>
             let args' = (case v of None \<Rightarrow> args | Some w \<Rightarrow> compatArgs args w) in
             (case prepare io r' spec fs of
                (Inl e, fs') \<Rightarrow> Some (Inl e, [], r', fs')
              | (Inr _, fs') \<Rightarrow>
                  let c = \<lparr>c_path = ro_binary r', c_args = args', c_dir = [], c_env = [], c_log = qs_processLog spec,
                           c_unit = UnitName (qs_id spec) UnitRole, c_noIOUring = True\<rparr> in
                  (case ri_exec io of
                     Inl e \<Rightarrow> Some (Inl e, [], r', fs')
                   | Inr h \<Rightarrow>
                       map_option (\<lambda>q. case q of
                           Inl e \<Rightarrow> (Inl e, [ActLaunch c, ActKill], r', fs')
                         | Inr _ \<Rightarrow> (Inr \<lparr>ri_spec = spec, ri_handle = h, ri_qmp = True\<rparr>, [ActLaunch c], r', fs'))
                         (connectQMP attempts)))))"

text \<open>\<open>attached\<close> is \<open>None\<close> for a launcher that cannot reattach.\<close>

definition Runtime_Attach ::
  "proc_handle res option \<Rightarrow> qmp_attempt list \<Rightarrow> bool \<Rightarrow> qemu_spec \<Rightarrow> rt_instance res option" where
  "Runtime_Attach attached attempts exited spec =
     (case attached of
        None \<Rightarrow> Some (Inl ErrNoReattach)
      | Some (Inl e) \<Rightarrow> Some (Inl e)
      | Some (Inr h) \<Rightarrow>
          map_option (\<lambda>q. case q of
              Inr _ \<Rightarrow> Inr \<lparr>ri_spec = spec, ri_handle = h, ri_qmp = True\<rparr>
            | Inl e \<Rightarrow> if exited then Inr \<lparr>ri_spec = spec, ri_handle = h, ri_qmp = False\<rparr> else Inl e)
            (connectQMP attempts))"

text \<open>\<open>Kill\<close> waits for the process after a signal that was delivered or came too late.\<close>

definition Instance_Kill :: "unit res \<Rightarrow> unit res" where
  "Instance_Kill killed = (case killed of Inl e \<Rightarrow> if e = ErrProcessDone then Inr () else Inl e | Inr _ \<Rightarrow> Inr ())"

record stop_io =
  so_exited :: bool
  so_powerdown :: bool
  so_guestDown :: bool
  so_termDone :: bool
  so_inGrace :: bool
  so_kill :: "unit res"

definition Instance_Stop :: "stop_io \<Rightarrow> rt_instance \<Rightarrow> unit res \<times> rt_action list" where
  "Instance_Stop io i =
     (if so_exited io then (Inr (), [])
      else
        let down = ri_qmp i \<and> so_powerdown io;
            acts = (if ri_qmp i then [ActPowerdown] else [])
        in if down \<and> so_guestDown io then (Inr (), acts)
           else if so_termDone io then (Inr (), acts @ [ActTerm])
           else if so_inGrace io then (Inr (), acts @ [ActTerm])
           else (Instance_Kill (so_kill io), acts @ [ActTerm, ActKill]))"

section \<open>What starting and stopping leave behind\<close>

lemma copyIfMissing_keeps: "fs p \<noteq> None \<Longrightarrow> p \<noteq> dst \<or> fs dst \<noteq> None \<Longrightarrow> snd (copyIfMissing io src dst fs) p = fs p"
  by (auto simp: copyIfMissing_def split: option.splits)

lemma prepare_keeps_vars:
  assumes "fs (qs_ovmfVars spec) = Some vars" "qs_qmpSocket spec \<noteq> qs_ovmfVars spec"
  shows "snd (prepare io r spec fs) (qs_ovmfVars spec) = Some vars"
  using assms by (auto simp: prepare_def copyIfMissing_def split: prod.splits sum.splits)

lemma connectQMP_ends: "NoAnswer_Deadline \<in> set as \<Longrightarrow> connectQMP as \<noteq> None"
  by (induction as) (auto split: qmp_attempt.split)

lemma kill_last: "Instance_Stop io i = (r, acts) \<Longrightarrow> ActKill \<in> set acts \<Longrightarrow> \<exists>pre. acts = pre @ [ActTerm, ActKill]"
  by (auto simp: Instance_Stop_def Let_def split: if_splits)


definition demo_rt :: runtime where
  "demo_rt = Runtime_New \<lparr>ro_binary = [], ro_varsTemplate = ''/t'', ro_startTimeout = 0, ro_powerdownTimeout = 0, ro_stopGrace = 0\<rparr>"

definition demo_rtio :: rt_io where
  "demo_rtio = \<lparr>ri_probe = Inl ErrTimeout, ri_mkdir = (\<lambda>_. True), ri_create = True, ri_copy = True, ri_close = True,
     ri_remove = True, ri_exec = Inr \<lparr>ha_unit = ''u'', ha_pid = 7\<rparr>\<rparr>"


end
