(* ===== verification/Varlink.thy ===== *)
theory Varlink
  imports Go_Http Api_Err
begin

text \<open>
  \<open>src/internal/varlink/varlink.go\<close>: the client side of one Varlink connection.
  A message is a JSON object ended by a NUL byte; file descriptors arrive beside the
  bytes and belong to the message the last byte of their chunk lies in.  The results
  of the \<open>recvmsg\<close> calls still to come are the field \<open>cn_wire\<close>; a call that waits for
  a message the wire does not hold has no result (\<open>None\<close>).  What becomes of every
  received descriptor is kept in a trace, so that the lemmas can count them.  Stream
  offsets are natural numbers: an \<open>int64\<close> offset would need 8 EiB of replies to wrap.
  The JSON codec is an argument.
\<close>

section \<open>Types\<close>

definition maxMessageSize :: nat where "maxMessageSize = 16 * 2 ^ 20"
definition methodGetInfo :: string where "methodGetInfo = ''org.varlink.service.GetInfo''"
definition methodGetInterfaceDescript :: string where
  "methodGetInterfaceDescript = ''org.varlink.service.GetInterfaceDescription''"

datatype vl_error = VErr string bytes | VPlain error

definition ErrClosed :: vl_error where "ErrClosed = VPlain (ErrOther ''varlink: connection closed'')"

definition Error_Error :: "string \<Rightarrow> bytes \<Rightarrow> string" where
  "Error_Error nm ps =
     (if length ps > 0 \<and> bytes_string ps \<noteq> ''{}'' then ''varlink: '' @ nm @ '' '' @ bytes_string ps
      else ''varlink: '' @ nm)"

record service_info =
  si_vendor :: string
  si_product :: string
  si_version :: string
  si_url :: string
  si_interfaces :: "string list"

record vl_request =
  vq_method :: string
  vq_parameters :: string
  vq_more :: bool
  vq_oneway :: bool

record vl_reply =
  vr_parameters :: bytes
  vr_continues :: bool
  vr_error :: string

text \<open>The error of an exchange: \<open>callbackError\<close> marks one of the callback on the last reply.\<close>

datatype exch_error = ExErr vl_error | ExCallback vl_error

text \<open>One control message, and the result of one \<open>recvmsg\<close>.\<close>

datatype cmsg = CRights "int list" | CBadRights | COther

record recvmsg =
  rm_data :: bytes
  rm_oob :: "cmsg list res option"
  rm_ctrunc :: bool
  rm_err :: "error option"

datatype vl_event = FdReceived int | FdClosed int | FdKept int | ReqSent vl_request

record vl_conn =
  cn_err :: "vl_error option"
  cn_rbuf :: bytes
  cn_pos :: nat
  cn_rights :: "(nat \<times> int list) list"
  cn_wire :: "recvmsg list"
  cn_trace :: "vl_event list"

text \<open>What the world around one call decides: the context before and after the
  exchange, whether the request can be encoded, and the result of the write.\<close>

record call_io =
  ci_before :: "error option"
  ci_after :: "error option"
  ci_encodes :: bool
  ci_write :: "error option"

section \<open>Operations\<close>

definition Varlink_Dial :: "error option \<Rightarrow> recvmsg list \<Rightarrow> vl_conn res" where
  "Varlink_Dial err ws =
     (case err of
        Some e \<Rightarrow> Inl e
      | None \<Rightarrow> Inr \<lparr>cn_err = None, cn_rbuf = [], cn_pos = 0, cn_rights = [], cn_wire = ws, cn_trace = []\<rparr>)"

definition log_events :: "vl_event list \<Rightarrow> vl_conn \<Rightarrow> vl_conn" where
  "log_events es c = c\<lparr>cn_trace := cn_trace c @ es\<rparr>"

definition closeFiles :: "int list \<Rightarrow> vl_conn \<Rightarrow> vl_conn" where
  "closeFiles fs c = log_events (map FdClosed fs) c"

definition rights_fds :: "(nat \<times> int list) list \<Rightarrow> int list" where
  "rights_fds bs = concat (map snd bs)"

definition shutdown :: "vl_error \<Rightarrow> vl_conn \<Rightarrow> vl_conn" where
  "shutdown cause c =
     (if cn_err c \<noteq> None then c
      else (closeFiles (rights_fds (cn_rights c)) c)\<lparr>cn_err := Some cause, cn_rights := []\<rparr>)"

definition Conn_Close :: "vl_conn \<Rightarrow> vl_conn" where
  "Conn_Close c = shutdown ErrClosed c"

definition orEmpty :: "string option \<Rightarrow> string" where
  "orEmpty ps = (case ps of None \<Rightarrow> ''{}'' | Some s \<Rightarrow> s)"

definition vl_send :: "call_io \<Rightarrow> vl_request \<Rightarrow> vl_conn \<Rightarrow> exch_error option \<times> vl_conn" where
  "vl_send io req c =
     (if \<not> ci_encodes io then (Some (ExErr (VPlain (ErrOther ''varlink: encode''))), c)
      else case ci_write io of
        Some e \<Rightarrow> (Some (ExErr (VPlain e)), c)
      | None \<Rightarrow> (None, log_events [ReqSent req] c))"

fun collectRights :: "cmsg list \<Rightarrow> nat \<Rightarrow> vl_conn \<Rightarrow> exch_error option \<times> vl_conn" where
  "collectRights [] last_off c = (None, c)"
| "collectRights (COther # ms) last_off c = collectRights ms last_off c"
| "collectRights (CBadRights # ms) last_off c = (Some (ExErr (VPlain (ErrOther ''varlink: parse SCM_RIGHTS''))), c)"
| "collectRights (CRights fds # ms) last_off c =
     collectRights ms last_off (log_events (map FdReceived fds) (c\<lparr>cn_rights := cn_rights c @ [(last_off, fds)]\<rparr>))"

definition last_offset :: "nat \<Rightarrow> recvmsg \<Rightarrow> nat" where
  "last_offset at w = (if length (rm_data w) > 0 then at + length (rm_data w) - 1 else at)"

definition vl_read_rights :: "recvmsg \<Rightarrow> vl_conn \<Rightarrow> exch_error option \<times> vl_conn" where
  "vl_read_rights w c =
     (case rm_oob w of
        None \<Rightarrow> (None, c)
      | Some (Inl e) \<Rightarrow> (Some (ExErr (VPlain e)), c)
      | Some (Inr ms) \<Rightarrow> collectRights ms (last_offset (cn_pos c + length (cn_rbuf c)) w) c)"

definition vl_read :: "recvmsg \<Rightarrow> vl_conn \<Rightarrow> exch_error option \<times> vl_conn" where
  "vl_read w c =
     (case vl_read_rights w c of
        (Some e, c1) \<Rightarrow> (Some e, c1)
      | (None, c1) \<Rightarrow>
          if rm_ctrunc w then (Some (ExErr (VPlain (ErrOther ''varlink: ancillary data truncated''))), c1)
          else
            let c2 = c1\<lparr>cn_rbuf := cn_rbuf c1 @ rm_data w\<rparr> in
            (map_option (\<lambda>e. ExErr (VPlain e)) (rm_err w), c2))"

definition takeFiles :: "nat \<Rightarrow> vl_conn \<Rightarrow> int list \<times> vl_conn" where
  "takeFiles end_off c =
     (filter (\<lambda>fd. 0 \<le> fd) (rights_fds (filter (\<lambda>b. \<not> end_off < fst b) (cn_rights c))),
      c\<lparr>cn_rights := filter (\<lambda>b. end_off < fst b) (cn_rights c)\<rparr>)"

text \<open>The first message of the buffer, if it is complete.\<close>

definition vl_message :: "(bytes \<Rightarrow> vl_reply option) \<Rightarrow> vl_conn \<Rightarrow> (exch_error + vl_reply \<times> int list) \<times> vl_conn" where
  "vl_message dec c =
     (let msg = takeWhile (\<lambda>b. b \<noteq> 0) (cn_rbuf c); i = length msg in
      case dec msg of
        None \<Rightarrow> (Inl (ExErr (VPlain (ErrOther ''varlink: malformed reply''))), c)
      | Some r \<Rightarrow>
          let end_off = cn_pos c + i;
              (files, c') = takeFiles end_off (c\<lparr>cn_rbuf := drop (Suc i) (cn_rbuf c), cn_pos := end_off + 1\<rparr>) in
          (Inr (r, files), c'))"

fun receive_loop ::
  "(bytes \<Rightarrow> vl_reply option) \<Rightarrow> recvmsg list \<Rightarrow> vl_conn \<Rightarrow> ((exch_error + vl_reply \<times> int list) \<times> vl_conn) option" where
  "receive_loop dec ws c =
     (if 0 \<in> set (cn_rbuf c) then Some (apsnd (cn_wire_update (\<lambda>_. ws)) (vl_message dec c))
      else if length (cn_rbuf c) > maxMessageSize then
        Some (Inl (ExErr (VPlain (ErrOther ''varlink: reply too big''))), c\<lparr>cn_wire := ws\<rparr>)
      else case ws of
        [] \<Rightarrow> None
      | w # ws' \<Rightarrow>
          (case vl_read w c of
             (Some e, c') \<Rightarrow> Some (Inl e, c'\<lparr>cn_wire := ws'\<rparr>)
           | (None, c') \<Rightarrow> receive_loop dec ws' c'))"

definition receive :: "(bytes \<Rightarrow> vl_reply option) \<Rightarrow> vl_conn \<Rightarrow> ((exch_error + vl_reply \<times> int list) \<times> vl_conn) option" where
  "receive dec c = receive_loop dec (cn_wire c) c"

text \<open>\<open>do\<close>: one exchange under the lock.  A Varlink error reply and an error of the
  callback on the last reply leave the connection usable; every other one closes it.\<close>

definition do_error :: "call_io \<Rightarrow> exch_error \<Rightarrow> vl_conn \<Rightarrow> vl_error \<times> vl_conn" where
  "do_error io err c =
     (let err' = (case ci_after io of None \<Rightarrow> err | Some e \<Rightarrow> ExErr (VPlain e)) in
      case err' of
        ExErr (VErr n p) \<Rightarrow> (VErr n p, c)
      | ExCallback e \<Rightarrow> (e, c)
      | ExErr (VPlain e) \<Rightarrow> (VPlain e, shutdown ErrClosed c))"

definition Conn_do ::
  "call_io \<Rightarrow> (vl_conn \<Rightarrow> ((exch_error + 'a) \<times> vl_conn) option) \<Rightarrow> vl_conn \<Rightarrow> ((vl_error + 'a) \<times> vl_conn) option" where
  "Conn_do io fn c =
     (case cn_err c of
        Some e \<Rightarrow> Some (Inl e, c)
      | None \<Rightarrow>
          (case ci_before io of
             Some e \<Rightarrow> Some (Inl (VPlain e), c)
           | None \<Rightarrow>
               (case fn c of
                  None \<Rightarrow> None
                | Some (Inr x, c') \<Rightarrow> Some (Inr x, c')
                | Some (Inl err, c') \<Rightarrow> Some (apfst Inl (do_error io err c')))))"

definition vl_decode :: "'a \<Rightarrow> (bytes \<Rightarrow> 'a option) \<Rightarrow> bytes \<Rightarrow> 'a option" where
  "vl_decode z un raw = (if length raw = 0 \<or> bytes_string raw = ''null'' then Some z else un raw)"

definition single_exchange ::
  "call_io \<Rightarrow> (bytes \<Rightarrow> vl_reply option) \<Rightarrow> vl_request \<Rightarrow> vl_conn \<Rightarrow> ((exch_error + bytes \<times> int list) \<times> vl_conn) option" where
  "single_exchange io dec req c =
     (case vl_send io req c of
        (Some e, c1) \<Rightarrow> Some (Inl e, c1)
      | (None, c1) \<Rightarrow>
          (case receive dec c1 of
             None \<Rightarrow> None
           | Some (Inl e, c2) \<Rightarrow> Some (Inl e, c2)
           | Some (Inr (r, files), c2) \<Rightarrow>
               if vr_error r \<noteq> [] then
                 Some (Inl (ExErr (VErr (vr_error r) (vr_parameters r))), closeFiles files c2)
               else if vr_continues r then
                 Some (Inl (ExErr (VPlain (ErrOther ''varlink: continues''))), closeFiles files c2)
               else Some (Inr (vr_parameters r, files), c2)))"

definition CallWithFiles ::
  "call_io \<Rightarrow> (bytes \<Rightarrow> vl_reply option) \<Rightarrow> string \<Rightarrow> string option \<Rightarrow> 'a \<Rightarrow> (bytes \<Rightarrow> 'a option) \<Rightarrow> vl_conn \<Rightarrow>
   ((vl_error + 'a \<times> int list) \<times> vl_conn) option" where
  "CallWithFiles io dec method params z un c =
     (case Conn_do io
             (single_exchange io dec
                \<lparr>vq_method = method, vq_parameters = orEmpty params, vq_more = False, vq_oneway = False\<rparr>) c of
        None \<Rightarrow> None
      | Some (Inl e, c') \<Rightarrow> Some (Inl e, c')
      | Some (Inr (raw, files), c') \<Rightarrow>
          (case vl_decode z un raw of
             None \<Rightarrow> Some (Inl (VPlain (ErrOther ''varlink: decode reply'')), closeFiles files c')
           | Some x \<Rightarrow> Some (Inr (x, files), c')))"

definition Call ::
  "call_io \<Rightarrow> (bytes \<Rightarrow> vl_reply option) \<Rightarrow> string \<Rightarrow> string option \<Rightarrow> 'a \<Rightarrow> (bytes \<Rightarrow> 'a option) \<Rightarrow> vl_conn \<Rightarrow>
   ((vl_error + 'a) \<times> vl_conn) option" where
  "Call io dec method params z un c =
     (case CallWithFiles io dec method params z un c of
        None \<Rightarrow> None
      | Some (Inl e, c') \<Rightarrow> Some (Inl e, c')
      | Some (Inr (x, files), c') \<Rightarrow> Some (Inr x, closeFiles files c'))"

text \<open>The bytes the connection can still deliver, which every message makes fewer.\<close>

definition vl_left :: "vl_conn \<Rightarrow> nat" where
  "vl_left c = length (cn_rbuf c) + sum_list (map (length \<circ> rm_data) (cn_wire c))"

lemma log_events_sel [simp]:
  "cn_err (log_events es c) = cn_err c" "cn_rbuf (log_events es c) = cn_rbuf c" "cn_pos (log_events es c) = cn_pos c"
  "cn_rights (log_events es c) = cn_rights c" "cn_wire (log_events es c) = cn_wire c"
  "cn_trace (log_events es c) = cn_trace c @ es"
  by (simp_all add: log_events_def)

lemma closeFiles_sel [simp]:
  "cn_err (closeFiles fs c) = cn_err c" "cn_rbuf (closeFiles fs c) = cn_rbuf c" "cn_pos (closeFiles fs c) = cn_pos c"
  "cn_rights (closeFiles fs c) = cn_rights c" "cn_wire (closeFiles fs c) = cn_wire c"
  "cn_trace (closeFiles fs c) = cn_trace c @ map FdClosed fs"
  by (simp_all add: closeFiles_def)

lemma collectRights_sel:
  assumes "collectRights ms l c = (e, c')"
  shows "cn_err c' = cn_err c \<and> cn_rbuf c' = cn_rbuf c \<and> cn_pos c' = cn_pos c \<and> cn_wire c' = cn_wire c"
  using assms by (induction ms l c rule: collectRights.induct) auto

lemma vl_read_sel:
  assumes "vl_read w c = (e, c')"
  shows "cn_err c' = cn_err c \<and> cn_pos c' = cn_pos c \<and> cn_wire c' = cn_wire c \<and>
    (cn_rbuf c' = cn_rbuf c \<or> cn_rbuf c' = cn_rbuf c @ rm_data w) \<and> (e = None \<longrightarrow> cn_rbuf c' = cn_rbuf c @ rm_data w)"
  using assms by (auto simp: vl_read_def vl_read_rights_def Let_def split: option.splits prod.splits sum.splits if_splits
      dest: collectRights_sel)

lemma vl_message_Inr:
  assumes "vl_message dec c = (Inr (r, files), c')"
  obtains i where "i = length (takeWhile (\<lambda>b. b \<noteq> 0) (cn_rbuf c))"
    and "dec (takeWhile (\<lambda>b. b \<noteq> 0) (cn_rbuf c)) = Some r"
    and "c' = c\<lparr>cn_rbuf := drop (Suc i) (cn_rbuf c), cn_pos := cn_pos c + i + 1,
      cn_rights := filter (\<lambda>b. cn_pos c + i < fst b) (cn_rights c)\<rparr>"
    and "files = filter (\<lambda>fd. 0 \<le> fd) (rights_fds (filter (\<lambda>b. \<not> cn_pos c + i < fst b) (cn_rights c)))"
  using assms by (auto simp: vl_message_def takeFiles_def Let_def split: option.splits)

declare receive_loop.simps [simp del]

lemma receive_loop_message:
  "0 \<in> set (cn_rbuf c) \<Longrightarrow> receive_loop dec ws c = Some (apsnd (cn_wire_update (\<lambda>_. ws)) (vl_message dec c))"
  by (simp add: receive_loop.simps [of dec ws c])

lemma receive_loop_big:
  "0 \<notin> set (cn_rbuf c) \<Longrightarrow> length (cn_rbuf c) > maxMessageSize \<Longrightarrow>
   receive_loop dec ws c = Some (Inl (ExErr (VPlain (ErrOther ''varlink: reply too big''))), c\<lparr>cn_wire := ws\<rparr>)"
  by (simp add: receive_loop.simps [of dec ws c])

lemma receive_loop_Nil:
  "0 \<notin> set (cn_rbuf c) \<Longrightarrow> \<not> length (cn_rbuf c) > maxMessageSize \<Longrightarrow> receive_loop dec [] c = None"
  by (simp add: receive_loop.simps [of dec "[]" c])

lemma receive_loop_Cons:
  "0 \<notin> set (cn_rbuf c) \<Longrightarrow> \<not> length (cn_rbuf c) > maxMessageSize \<Longrightarrow>
   receive_loop dec (w # ws) c =
     (case vl_read w c of
        (Some e, c') \<Rightarrow> Some (Inl e, c'\<lparr>cn_wire := ws\<rparr>)
      | (None, c') \<Rightarrow> receive_loop dec ws c')"
  by (simp add: receive_loop.simps [of dec "w # ws" c])

text \<open>Induction over the reads of \<open>receive\<close>: a relation that holds of the last step
  and is kept by a read before it.\<close>

lemma receive_loop_rule:
  assumes "receive_loop dec ws c = Some (r, c')" "I ws c"
    and message: "\<And>ws c r c'. I ws c \<Longrightarrow> 0 \<in> set (cn_rbuf c) \<Longrightarrow> vl_message dec c = (r, c') \<Longrightarrow> Q r (c'\<lparr>cn_wire := ws\<rparr>)"
    and big: "\<And>ws c e. I ws c \<Longrightarrow> 0 \<notin> set (cn_rbuf c) \<Longrightarrow> length (cn_rbuf c) > maxMessageSize \<Longrightarrow> Q (Inl e) (c\<lparr>cn_wire := ws\<rparr>)"
    and failed: "\<And>w ws c e c'. I (w # ws) c \<Longrightarrow> vl_read w c = (Some e, c') \<Longrightarrow> Q (Inl e) (c'\<lparr>cn_wire := ws\<rparr>)"
    and more: "\<And>w ws c c'. I (w # ws) c \<Longrightarrow> 0 \<notin> set (cn_rbuf c) \<Longrightarrow> vl_read w c = (None, c') \<Longrightarrow> I ws c'"
  shows "Q r c'"
  using assms(1,2)
proof (induction ws arbitrary: c)
  case Nil
  then show ?case
    by (cases "0 \<in> set (cn_rbuf c)"; cases "length (cn_rbuf c) > maxMessageSize"; cases "vl_message dec c")
      (auto simp: receive_loop_message receive_loop_big receive_loop_Nil intro: message big)
next
  case (Cons w ws)
  obtain e c1 where rd: "vl_read w c = (e, c1)" by fastforce
  consider "0 \<in> set (cn_rbuf c)" | "0 \<notin> set (cn_rbuf c)" "length (cn_rbuf c) > maxMessageSize"
    | "0 \<notin> set (cn_rbuf c)" "\<not> length (cn_rbuf c) > maxMessageSize" by blast
  then show ?case
  proof cases
    case 1
    with Cons.prems show ?thesis by (cases "vl_message dec c") (auto simp: receive_loop_message intro: message)
  next
    case 2
    with Cons.prems show ?thesis by (auto simp: receive_loop_big intro: big)
  next
    case 3
    with Cons rd show ?thesis
      by (cases e) (auto simp: receive_loop_Cons intro: failed more)
  qed
qed

lemma receive_loop_left:
  assumes "receive_loop dec ws c = Some (Inr p, c')"
  shows "vl_left c' < length (cn_rbuf c) + sum_list (map (length \<circ> rm_data) ws)"
proof -
  let ?n = "length (cn_rbuf c) + sum_list (map (length \<circ> rm_data) ws)"
  have "case Inr p :: exch_error + vl_reply \<times> int list of Inl _ \<Rightarrow> True | Inr _ \<Rightarrow> vl_left c' < ?n"
  proof (rule receive_loop_rule [OF assms, where
        I = "\<lambda>ws c. length (cn_rbuf c) + sum_list (map (length \<circ> rm_data) ws) \<le> ?n"
        and Q = "\<lambda>r c'. case r of Inl _ \<Rightarrow> True | Inr _ \<Rightarrow> vl_left c' < ?n"], goal_cases)
    case (2 ws c r c')
    then have d: "length (cn_rbuf c) - Suc i < length (cn_rbuf c)" for i
      by (cases "cn_rbuf c") auto
    show ?case
    proof (cases r)
      case (Inr q)
      with 2(3) obtain i where "c' = c\<lparr>cn_rbuf := drop (Suc i) (cn_rbuf c), cn_pos := cn_pos c + i + 1,
          cn_rights := filter (\<lambda>b. cn_pos c + i < fst b) (cn_rights c)\<rparr>"
        by (cases q) (auto elim!: vl_message_Inr)
      with 2(1) d [of i] Inr show ?thesis by (simp add: vl_left_def)
    qed simp
  next
    case (5 w ws c c')
    with vl_read_sel [OF 5(3)] show ?case by simp
  qed simp_all
  then show ?thesis by simp
qed

lemma receive_left: "receive dec c = Some (Inr (r, files), c') \<Longrightarrow> vl_left c' < vl_left c"
  using receive_loop_left [of dec "cn_wire c" c "(r, files)"] by (simp add: receive_def vl_left_def)

text \<open>The callback returns its error and what it did with the descriptors it got.\<close>

function more_loop ::
  "(bytes \<Rightarrow> vl_reply option) \<Rightarrow> (bytes \<Rightarrow> int list \<Rightarrow> 's \<Rightarrow> vl_error option \<times> vl_event list \<times> 's) \<Rightarrow> 's \<Rightarrow> vl_conn \<Rightarrow>
   ((exch_error + 's) \<times> vl_conn) option" where
  "more_loop dec fn s c =
     (case receive dec c of
        None \<Rightarrow> None
      | Some (Inl e, c1) \<Rightarrow> Some (Inl e, c1)
      | Some (Inr (r, files), c1) \<Rightarrow>
          if vr_error r \<noteq> [] then
            Some (Inl (ExErr (VErr (vr_error r) (vr_parameters r))), closeFiles files c1)
          else
            (case fn (vr_parameters r) files s of
               (Some e, es, s') \<Rightarrow> Some (Inl (if vr_continues r then ExErr e else ExCallback e), log_events es c1)
             | (None, es, s') \<Rightarrow>
                 if \<not> vr_continues r then Some (Inr s', log_events es c1)
                 else more_loop dec fn s' (log_events es c1)))"
  by pat_completeness auto
termination
proof (relation "measure (\<lambda>(dec, fn, s, c). vl_left c)")
  show "wf (measure (\<lambda>(dec, fn, s, c). vl_left c))" by simp
next
  fix dec :: "bytes \<Rightarrow> vl_reply option"
    and fn :: "bytes \<Rightarrow> int list \<Rightarrow> 's \<Rightarrow> vl_error option \<times> vl_event list \<times> 's"
    and s :: 's and c :: vl_conn and x2 x y xa xb ya xc yb es s'
  assume "receive dec c = Some x2" "(x, y) = x2" "x = Inr xa" "(xb, ya) = xa"
  then have "vl_left y < vl_left c" by (auto intro: receive_left)
  then show "((dec, fn, s', log_events es y), (dec, fn, s, c)) \<in> measure (\<lambda>(dec, fn, s, c). vl_left c)"
    by (simp add: vl_left_def)
qed

declare more_loop.simps [simp del]

definition CallMoreWithFiles ::
  "call_io \<Rightarrow> (bytes \<Rightarrow> vl_reply option) \<Rightarrow> string \<Rightarrow> string option \<Rightarrow>
   (bytes \<Rightarrow> int list \<Rightarrow> 's \<Rightarrow> vl_error option \<times> vl_event list \<times> 's) \<Rightarrow> 's \<Rightarrow> vl_conn \<Rightarrow> ((vl_error + 's) \<times> vl_conn) option" where
  "CallMoreWithFiles io dec method params fn s c =
     Conn_do io
       (\<lambda>c. case vl_send io \<lparr>vq_method = method, vq_parameters = orEmpty params, vq_more = True, vq_oneway = False\<rparr> c of
              (Some e, c1) \<Rightarrow> Some (Inl e, c1)
            | (None, c1) \<Rightarrow> more_loop dec fn s c1) c"

definition CallMore ::
  "call_io \<Rightarrow> (bytes \<Rightarrow> vl_reply option) \<Rightarrow> string \<Rightarrow> string option \<Rightarrow> (bytes \<Rightarrow> 's \<Rightarrow> vl_error option \<times> 's) \<Rightarrow> 's \<Rightarrow>
   vl_conn \<Rightarrow> ((vl_error + 's) \<times> vl_conn) option" where
  "CallMore io dec method params fn s c =
     CallMoreWithFiles io dec method params
       (\<lambda>raw files s. let (e, s') = fn raw s in (e, map FdClosed files, s')) s c"

definition Oneway :: "call_io \<Rightarrow> string \<Rightarrow> string option \<Rightarrow> vl_conn \<Rightarrow> ((vl_error + unit) \<times> vl_conn) option" where
  "Oneway io method params c =
     Conn_do io
       (\<lambda>c. case vl_send io \<lparr>vq_method = method, vq_parameters = orEmpty params, vq_more = False, vq_oneway = True\<rparr> c of
              (Some e, c1) \<Rightarrow> Some (Inl e, c1)
            | (None, c1) \<Rightarrow> Some (Inr (), c1)) c"

definition Conn_Info ::
  "call_io \<Rightarrow> (bytes \<Rightarrow> vl_reply option) \<Rightarrow> (bytes \<Rightarrow> service_info option) \<Rightarrow> vl_conn \<Rightarrow>
   ((vl_error + service_info) \<times> vl_conn) option" where
  "Conn_Info io dec un c =
     Call io dec methodGetInfo None
       \<lparr>si_vendor = [], si_product = [], si_version = [], si_url = [], si_interfaces = []\<rparr> un c"

text \<open>\<open>enc\<close> encodes the parameter map.\<close>

definition InterfaceDescription ::
  "call_io \<Rightarrow> (bytes \<Rightarrow> vl_reply option) \<Rightarrow> ((string \<times> string) list \<Rightarrow> string) \<Rightarrow> (bytes \<Rightarrow> string option) \<Rightarrow> string \<Rightarrow> vl_conn \<Rightarrow>
   ((vl_error + string) \<times> vl_conn) option" where
  "InterfaceDescription io dec enc un iface c =
     Call io dec methodGetInterfaceDescript (Some (enc [(''interface'', iface)])) [] un c"

section \<open>No descriptor is lost\<close>

text \<open>Every received descriptor is in exactly one place: closed, kept by a callback,
  waiting for its message, or among the \<open>files\<close> of the message just received.\<close>

definition fd_balance :: "int \<Rightarrow> int list \<Rightarrow> vl_conn \<Rightarrow> bool" where
  "fd_balance fd files c \<longleftrightarrow>
     count_list (cn_trace c) (FdReceived fd) =
       count_list (cn_trace c) (FdClosed fd) + count_list (cn_trace c) (FdKept fd) +
       count_list (rights_fds (cn_rights c)) fd + count_list files fd"

lemma count_map_fd [simp]:
  "count_list (map FdClosed fs) (FdClosed fd) = count_list fs fd" "count_list (map FdKept fs) (FdKept fd) = count_list fs fd"
  "count_list (map FdReceived fs) (FdReceived fd) = count_list fs fd"
  "count_list (map FdClosed fs) (FdReceived fd) = 0" "count_list (map FdClosed fs) (FdKept fd) = 0"
  "count_list (map FdReceived fs) (FdClosed fd) = 0" "count_list (map FdReceived fs) (FdKept fd) = 0"
  "count_list (map FdKept fs) (FdClosed fd) = 0" "count_list (map FdKept fs) (FdReceived fd) = 0"
  by (induction fs) auto

lemma rights_fds_simps [simp]: "rights_fds [] = []" "rights_fds (b # bs) = snd b @ rights_fds bs"
  "rights_fds (as @ bs) = rights_fds as @ rights_fds bs"
  by (simp_all add: rights_fds_def)

lemma count_rights_split:
  "count_list (rights_fds bs) fd = count_list (rights_fds (filter P bs)) fd + count_list (rights_fds (filter (\<lambda>b. \<not> P b) bs)) fd"
  by (induction bs) auto

lemma count_filter_nonneg: "0 \<le> fd \<Longrightarrow> count_list (filter (\<lambda>x. 0 \<le> x) xs) fd = count_list xs (fd::int)"
  by (induction xs) auto

lemma balance_closeFiles: "fd_balance fd (fs @ gs) c \<Longrightarrow> fd_balance fd gs (closeFiles fs c)"
  by (simp add: fd_balance_def)

lemma balance_close_all: "fd_balance fd fs c \<Longrightarrow> fd_balance fd [] (closeFiles fs c)"
  using balance_closeFiles [of fd fs "[]"] by simp

lemma balance_shutdown: "fd_balance fd gs c \<Longrightarrow> fd_balance fd gs (shutdown e c)"
  by (simp add: fd_balance_def shutdown_def)

lemma balance_wire [simp]: "fd_balance fd gs (c\<lparr>cn_wire := ws\<rparr>) \<longleftrightarrow> fd_balance fd gs c"
  by (simp add: fd_balance_def)

lemma balance_send: "fd_balance fd gs c \<Longrightarrow> vl_send io r c = (e, c') \<Longrightarrow> fd_balance fd gs c'"
  by (auto simp: fd_balance_def vl_send_def split: if_splits option.splits)

lemma balance_rights: "fd_balance fd gs c \<Longrightarrow> collectRights ms l c = (e, c') \<Longrightarrow> fd_balance fd gs c'"
  by (induction ms l c rule: collectRights.induct) (auto simp: fd_balance_def)

lemma balance_rbuf [simp]: "fd_balance fd gs (c\<lparr>cn_rbuf := b\<rparr>) \<longleftrightarrow> fd_balance fd gs c"
  by (simp add: fd_balance_def)

lemma balance_read: "fd_balance fd gs c \<Longrightarrow> vl_read w c = (e, c') \<Longrightarrow> fd_balance fd gs c'"
  by (auto simp: vl_read_def vl_read_rights_def Let_def split: option.splits prod.splits sum.splits if_splits
      dest: balance_rights)

lemma balance_message:
  assumes "fd_balance fd [] c" "0 \<le> fd" "vl_message dec c = (r, c')"
  shows "fd_balance fd (case r of Inl _ \<Rightarrow> [] | Inr (_, files) \<Rightarrow> files) c'"
proof (cases r)
  case (Inl e)
  then show ?thesis using assms by (auto simp: vl_message_def Let_def takeFiles_def split: option.splits)
next
  case (Inr p)
  obtain rep files where p: "p = (rep, files)" by (cases p)
  from assms(3) Inr p have "vl_message dec c = (Inr (rep, files), c')" by simp
  then show ?thesis
  proof (rule vl_message_Inr)
    fix i
    assume c': "c' = c\<lparr>cn_rbuf := drop (Suc i) (cn_rbuf c), cn_pos := cn_pos c + i + 1,
        cn_rights := filter (\<lambda>b. cn_pos c + i < fst b) (cn_rights c)\<rparr>"
      and f: "files = filter (\<lambda>fd. 0 \<le> fd) (rights_fds (filter (\<lambda>b. \<not> cn_pos c + i < fst b) (cn_rights c)))"
    have "count_list (rights_fds (cn_rights c)) fd = count_list (rights_fds (cn_rights c')) fd + count_list files fd"
      unfolding f count_filter_nonneg [OF assms(2)]
      using count_rights_split [of "cn_rights c" fd "\<lambda>b. cn_pos c + i < fst b"] c' by simp
    then show ?thesis using assms(1) Inr p c' by (simp add: fd_balance_def)
  qed
qed

lemma balance_receive_loop:
  assumes "fd_balance fd [] c" "0 \<le> fd" "receive_loop dec ws c = Some (r, c')"
  shows "fd_balance fd (case r of Inl _ \<Rightarrow> [] | Inr (_, files) \<Rightarrow> files) c'"
  by (rule receive_loop_rule [OF assms(3), where I = "\<lambda>ws c. fd_balance fd [] c"])
    (use assms in \<open>auto intro: balance_message balance_read\<close>)

lemma balance_receive:
  "fd_balance fd [] c \<Longrightarrow> 0 \<le> fd \<Longrightarrow> receive dec c = Some (r, c') \<Longrightarrow>
   fd_balance fd (case r of Inl _ \<Rightarrow> [] | Inr (_, files) \<Rightarrow> files) c'"
  unfolding receive_def by (rule balance_receive_loop)

lemma balance_do_error: "fd_balance fd gs c \<Longrightarrow> do_error io e c = (e', c') \<Longrightarrow> fd_balance fd gs c'"
  by (auto simp: do_error_def Let_def balance_shutdown split: option.splits exch_error.splits vl_error.splits)

lemma balance_do:
  assumes "fd_balance fd [] c"
    and "\<And>r c'. fn c = Some (r, c') \<Longrightarrow> fd_balance fd (case r of Inl _ \<Rightarrow> [] | Inr x \<Rightarrow> own x) c'"
    and "Conn_do io fn c = Some (r, c')"
  shows "fd_balance fd (case r of Inl _ \<Rightarrow> [] | Inr x \<Rightarrow> own x) c'"
proof (cases "cn_err c = None \<and> ci_before io = None")
  case True
  then obtain r1 c1 where f: "fn c = Some (r1, c1)" using assms(3)
    by (cases "fn c") (auto simp: Conn_do_def)
  show ?thesis
  proof (cases r1)
    case (Inl e)
    obtain e' c2 where d: "do_error io e c1 = (e', c2)" by fastforce
    with assms(2) [OF f] Inl have "fd_balance fd [] c2" by (auto intro: balance_do_error)
    with d Inl f True assms(3) show ?thesis by (auto simp: Conn_do_def)
  next
    case (Inr x)
    with assms(2) [OF f] f True assms(3) show ?thesis by (auto simp: Conn_do_def)
  qed
next
  case False
  then show ?thesis using assms(1,3) by (auto simp: Conn_do_def split: option.splits)
qed

lemma balance_single:
  assumes "fd_balance fd [] c" "0 \<le> fd" "single_exchange io dec req c = Some (r, c')"
  shows "fd_balance fd (case r of Inl _ \<Rightarrow> [] | Inr x \<Rightarrow> snd x) c'"
proof -
  obtain e c1 where s: "vl_send io req c = (e, c1)" by fastforce
  note b1 = balance_send [OF assms(1) s]
  show ?thesis
  proof (cases e)
    case (Some e')
    then show ?thesis using assms(3) s b1 by (auto simp: single_exchange_def)
  next
    case None
    then obtain q c2 where q: "receive dec c1 = Some (q, c2)" using assms(3) s
      by (cases "receive dec c1") (auto simp: single_exchange_def)
    show ?thesis using balance_receive [OF b1 assms(2) q] assms(3) s None q
      by (auto simp: single_exchange_def balance_close_all split: sum.splits prod.splits if_splits)
  qed
qed

lemma balance_CallWithFiles:
  assumes "fd_balance fd [] c" "0 \<le> fd" "CallWithFiles io dec method params z un c = Some (r, c')"
  shows "fd_balance fd (case r of Inl _ \<Rightarrow> [] | Inr x \<Rightarrow> snd x) c'"
proof -
  let ?req = "\<lparr>vq_method = method, vq_parameters = orEmpty params, vq_more = False, vq_oneway = False\<rparr>"
  obtain q c1 where q: "Conn_do io (single_exchange io dec ?req) c = Some (q, c1)"
    using assms(3) by (cases "Conn_do io (single_exchange io dec ?req) c") (auto simp: CallWithFiles_def)
  have "fd_balance fd (case q of Inl _ \<Rightarrow> [] | Inr x \<Rightarrow> snd x) c1"
    by (rule balance_do [OF assms(1) _ q]) (rule balance_single [OF assms(1,2)])
  then show ?thesis using assms(3) q
    by (auto simp: CallWithFiles_def balance_close_all split: sum.splits prod.splits option.splits)
qed

lemma balance_Call:
  assumes "fd_balance fd [] c" "0 \<le> fd" "Call io dec method params z un c = Some (r, c')"
  shows "fd_balance fd [] c'"
proof -
  obtain q c1 where q: "CallWithFiles io dec method params z un c = Some (q, c1)"
    using assms(3) by (cases "CallWithFiles io dec method params z un c") (auto simp: Call_def)
  show ?thesis using balance_CallWithFiles [OF assms(1,2) q] q assms(3)
    by (auto simp: Call_def balance_close_all split: sum.splits prod.splits)
qed

text \<open>An invariant of the connection through a stream of replies.\<close>

lemma more_loop_rule:
  assumes "more_loop dec fn s c = Some (r, c')" "I c"
    and failed: "\<And>c e c1. I c \<Longrightarrow> receive dec c = Some (Inl e, c1) \<Longrightarrow> I c1"
    and refused: "\<And>c rp files c1. I c \<Longrightarrow> receive dec c = Some (Inr (rp, files), c1) \<Longrightarrow> I (closeFiles files c1)"
    and called: "\<And>c rp files c1 s e es s'. I c \<Longrightarrow> receive dec c = Some (Inr (rp, files), c1) \<Longrightarrow>
      fn (vr_parameters rp) files s = (e, es, s') \<Longrightarrow> I (log_events es c1)"
  shows "I c'"
  using assms
proof (induction dec fn s c rule: more_loop.induct)
  case (1 dec fn s c)
  note run = "1.prems"(1) [unfolded more_loop.simps [of dec fn s c]]
  obtain q c1 where q: "receive dec c = Some (q, c1)"
    using run by (cases "receive dec c") auto
  show ?case
  proof (cases "\<exists>rp files es s'. q = Inr (rp, files) \<and> vr_error rp = [] \<and> vr_continues rp \<and>
      fn (vr_parameters rp) files s = (None, es, s')")
    case False
    then show ?thesis using run q "1.prems"(2)
      by (auto split: sum.splits prod.splits if_splits option.splits intro: "1.prems"(3-5))
  next
    case True
    then obtain rp files es s' where t: "q = Inr (rp, files)" "vr_error rp = []" "vr_continues rp"
      "fn (vr_parameters rp) files s = (None, es, s')" by blast
    have m: "more_loop dec fn s' (log_events es c1) = Some (r, c')" using run q t by simp
    have i: "I (log_events es c1)" using "1.prems"(2,5) q t by blast
    show ?thesis
      by (rule "1.IH" [OF q refl t(1) refl _ t(4) [symmetric] refl refl _ m i "1.prems"(3-5)]) (use t in simp_all)
  qed
qed

text \<open>A callback that accounts for the descriptors it gets.\<close>

definition accounts_for :: "int \<Rightarrow> int list \<Rightarrow> vl_event list \<Rightarrow> bool" where
  "accounts_for fd files es \<longleftrightarrow>
     count_list es (FdReceived fd) = 0 \<and> count_list es (FdClosed fd) + count_list es (FdKept fd) = count_list files fd"

lemma balance_log: "fd_balance fd files c \<Longrightarrow> accounts_for fd files es \<Longrightarrow> fd_balance fd [] (log_events es c)"
  by (simp add: fd_balance_def accounts_for_def)

lemma accounts_close [simp]: "accounts_for fd files (map FdClosed files)"
  by (simp add: accounts_for_def)

lemma balance_more_loop:
  assumes "fd_balance fd [] c" "0 \<le> fd" "more_loop dec fn s c = Some (r, c')"
    and "\<And>raw files s e es s'. fn raw files s = (e, es, s') \<Longrightarrow> accounts_for fd files es"
  shows "fd_balance fd [] c'"
  by (rule more_loop_rule [OF assms(3), where I = "fd_balance fd []"])
    (use assms(1,2) balance_receive [OF _ assms(2)] assms(4) in \<open>fastforce intro: balance_close_all balance_log\<close>)+

lemma balance_CallMore:
  assumes "fd_balance fd [] c" "0 \<le> fd" "CallMore io dec method params fn s c = Some (r, c')"
  shows "fd_balance fd [] c'"
proof -
  let ?fn = "\<lambda>raw files s. let (e, s') = fn raw s in (e, map FdClosed files, s')"
  let ?req = "\<lparr>vq_method = method, vq_parameters = orEmpty params, vq_more = True, vq_oneway = False\<rparr>"
  obtain e c1 where s: "vl_send io ?req c = (e, c1)" by fastforce
  note b = balance_send [OF assms(1) s]
  have "fd_balance fd (case r of Inl _ \<Rightarrow> [] | Inr x \<Rightarrow> []) c'"
  proof (rule balance_do [OF assms(1) _ assms(3) [unfolded CallMore_def CallMoreWithFiles_def]], goal_cases)
    case (1 r' c2)
    have "fd_balance fd [] c2"
    proof (cases e)
      case None
      with 1 s have "more_loop dec ?fn s c1 = Some (r', c2)" by simp
      then show ?thesis by (rule balance_more_loop [OF b assms(2)]) (auto simp: Let_def split: prod.splits)
    next
      case (Some e')
      with 1 s b show ?thesis by auto
    qed
    then show ?case by (auto split: sum.splits)
  qed
  then show ?thesis by (auto split: sum.splits)
qed

text \<open>A closed connection holds no descriptor.\<close>

definition conn_ok :: "vl_conn \<Rightarrow> bool" where
  "conn_ok c \<longleftrightarrow> cn_err c = None \<or> cn_rights c = []"

lemma shutdown_closed: "conn_ok c \<Longrightarrow> cn_err (shutdown e c) \<noteq> None \<and> cn_rights (shutdown e c) = []"
  by (auto simp: shutdown_def conn_ok_def)

lemma receive_open: "receive dec c = Some (r, c') \<Longrightarrow> cn_err c' = cn_err c"
  unfolding receive_def
  by (rule receive_loop_rule [where I = "\<lambda>ws x. cn_err x = cn_err c" and Q = "\<lambda>r x. cn_err x = cn_err c"])
    (auto simp: vl_message_def takeFiles_def Let_def split: option.splits dest: vl_read_sel)

lemma send_open: "vl_send io q c = (e, c') \<Longrightarrow> cn_err c' = cn_err c"
  by (auto simp: vl_send_def split: if_splits option.splits)

lemma single_open: "single_exchange io dec q c = Some (r, c') \<Longrightarrow> cn_err c' = cn_err c"
  by (auto simp: single_exchange_def split: prod.splits option.splits sum.splits if_splits dest!: receive_open send_open)

lemma more_loop_open: "more_loop dec fn s c = Some (r, c') \<Longrightarrow> cn_err c' = cn_err c"
  by (erule more_loop_rule [where I = "\<lambda>x. cn_err x = cn_err c"]) (auto dest: receive_open)

lemma do_ok:
  assumes "conn_ok c" "\<And>r c'. fn c = Some (r, c') \<Longrightarrow> cn_err c' = cn_err c" "Conn_do io fn c = Some (r, c')"
  shows "conn_ok c'"
proof (cases "cn_err c = None \<and> ci_before io = None")
  case True
  then obtain q c1 where f: "fn c = Some (q, c1)" using assms(3)
    by (cases "fn c") (auto simp: Conn_do_def)
  then have "cn_err c1 = None" using assms(2) True by auto
  then show ?thesis using True f assms(3)
    by (auto simp: Conn_do_def conn_ok_def do_error_def shutdown_def Let_def
        split: sum.splits option.splits exch_error.splits vl_error.splits)
next
  case False
  then show ?thesis using assms(1,3) by (auto simp: Conn_do_def split: option.splits)
qed

lemma conn_ok_closeFiles [simp]: "conn_ok (closeFiles fs c) \<longleftrightarrow> conn_ok c"
  by (simp add: conn_ok_def)

lemma CallWithFiles_ok:
  assumes "conn_ok c" "CallWithFiles io dec m ps z un c = Some (r, c')"
  shows "conn_ok c'"
proof -
  let ?req = "\<lparr>vq_method = m, vq_parameters = orEmpty ps, vq_more = False, vq_oneway = False\<rparr>"
  obtain q c1 where q: "Conn_do io (single_exchange io dec ?req) c = Some (q, c1)"
    using assms(2) by (cases "Conn_do io (single_exchange io dec ?req) c") (auto simp: CallWithFiles_def)
  have "conn_ok c1" by (rule do_ok [OF assms(1) _ q]) (rule single_open)
  then show ?thesis using assms(2) q
    by (auto simp: CallWithFiles_def split: sum.splits prod.splits option.splits)
qed

lemma Call_ok:
  assumes "conn_ok c" "Call io dec m ps z un c = Some (r, c')"
  shows "conn_ok c'"
proof -
  obtain q c1 where q: "CallWithFiles io dec m ps z un c = Some (q, c1)"
    using assms(2) by (cases "CallWithFiles io dec m ps z un c") (auto simp: Call_def)
  show ?thesis using CallWithFiles_ok [OF assms(1) q] q assms(2)
    by (auto simp: Call_def split: sum.splits prod.splits)
qed

lemma CallMore_ok: "conn_ok c \<Longrightarrow> CallMore io dec m ps fn s c = Some (r, c') \<Longrightarrow> conn_ok c'"
  unfolding CallMore_def CallMoreWithFiles_def
  by (rule do_ok) (auto split: prod.splits option.splits dest!: more_loop_open send_open)

lemma dial_fresh:
  assumes "Varlink_Dial err ws = Inr c"
  shows "conn_ok c" "fd_balance fd [] c" "cn_wire c = ws" "cn_rbuf c = []" "cn_pos c = 0" "cn_rights c = []" "cn_err c = None"
    "cn_trace c = []"
  using assms by (auto simp: Varlink_Dial_def conn_ok_def fd_balance_def split: option.splits)

lemma balance_closed:
  assumes "fd_balance fd files c" "conn_ok c"
  shows "count_list (cn_trace (Conn_Close c)) (FdReceived fd) =
    count_list (cn_trace (Conn_Close c)) (FdClosed fd) + count_list (cn_trace (Conn_Close c)) (FdKept fd) + count_list files fd"
  using balance_shutdown [OF assms(1), of ErrClosed] shutdown_closed [OF assms(2), of ErrClosed]
  by (simp add: fd_balance_def Conn_Close_def)

text \<open>A call on a closed connection does nothing: it reports why the connection was closed.\<close>

lemma closed_calls_fail:
  "cn_err c = Some e \<Longrightarrow> CallWithFiles io dec m ps z un c = Some (Inl e, c)"
  "cn_err c = Some e \<Longrightarrow> CallMore io dec m ps fn s c = Some (Inl e, c)"
  "cn_err c = Some e \<Longrightarrow> Oneway io m ps c = Some (Inl e, c)"
  by (simp_all add: CallWithFiles_def CallMore_def CallMoreWithFiles_def Oneway_def Conn_do_def)

section \<open>Descriptors arrive with their message\<close>

text \<open>What a service sends: messages without a NUL byte, each with its descriptors.
  What Linux promises of the chunks the client then reads: they carry the bytes in
  order, and the chunk that carries the descriptors of a message ends inside it.\<close>

type_synonym sent = "(bytes \<times> int list) list"

definition stream_of :: "sent \<Rightarrow> bytes" where
  "stream_of ms = concat (map (\<lambda>m. fst m @ [0]) ms)"

definition msg_start :: "sent \<Rightarrow> nat \<Rightarrow> nat" where
  "msg_start ms i = length (stream_of (take i ms))"

definition rights_of :: "recvmsg \<Rightarrow> int list list" where
  "rights_of w = (case rm_oob w of Some (Inr cs) \<Rightarrow> concat (map (\<lambda>c. case c of CRights fds \<Rightarrow> [fds] | _ \<Rightarrow> []) cs) | _ \<Rightarrow> [])"

fun wire_batches :: "nat \<Rightarrow> recvmsg list \<Rightarrow> (nat \<times> int list) list" where
  "wire_batches at [] = []"
| "wire_batches at (w # ws) = map (Pair (last_offset at w)) (rights_of w) @ wire_batches (at + length (rm_data w)) ws"

definition clean_recv :: "recvmsg \<Rightarrow> bool" where
  "clean_recv w \<longleftrightarrow> rm_err w = None \<and> \<not> rm_ctrunc w \<and>
     (case rm_oob w of None \<Rightarrow> True | Some (Inl _) \<Rightarrow> False | Some (Inr cs) \<Rightarrow> CBadRights \<notin> set cs)"

definition sendable :: "bytes \<times> int list \<Rightarrow> bool" where
  "sendable m \<longleftrightarrow> 0 \<notin> set (fst m) \<and> length (fst m) \<le> maxMessageSize \<and> list_all (\<lambda>fd. 0 \<le> fd) (snd m)"

definition delivers :: "sent \<Rightarrow> recvmsg list \<Rightarrow> bool" where
  "delivers ms ws \<longleftrightarrow> list_all sendable ms \<and> list_all clean_recv ws \<and> concat (map rm_data ws) = stream_of ms \<and>
     (\<forall>i < length ms.
        rights_fds (filter (\<lambda>b. msg_start ms i \<le> fst b \<and> fst b \<le> msg_start ms i + length (fst (ms ! i))) (wire_batches 0 ws))
        = snd (ms ! i))"

fun in_order :: "nat \<Rightarrow> sent \<Rightarrow> (nat \<times> int list) list \<Rightarrow> bool" where
  "in_order p [] bs \<longleftrightarrow> True"
| "in_order p (m # ms) bs \<longleftrightarrow>
     rights_fds (filter (\<lambda>b. \<not> p + length (fst m) < fst b) bs) = snd m \<and>
     in_order (p + length (fst m) + 1) ms (filter (\<lambda>b. p + length (fst m) < fst b) bs)"

definition framed :: "sent \<Rightarrow> recvmsg list \<Rightarrow> vl_conn \<Rightarrow> bool" where
  "framed ms ws c \<longleftrightarrow> list_all sendable ms \<and> list_all clean_recv ws \<and> cn_rbuf c @ concat (map rm_data ws) = stream_of ms \<and>
     in_order (cn_pos c) ms (cn_rights c @ wire_batches (cn_pos c + length (cn_rbuf c)) ws)"

lemma stream_of_Cons [simp]: "stream_of (m # ms) = fst m @ 0 # stream_of ms" "stream_of [] = []"
  by (simp_all add: stream_of_def)

lemma in_order_intro:
  assumes "\<forall>i < length ms. rights_fds (filter (\<lambda>b. p + msg_start ms i \<le> fst b \<and> fst b \<le> p + msg_start ms i + length (fst (ms ! i))) bs)
      = snd (ms ! i)"
    and "\<forall>b \<in> set bs. p \<le> fst b"
  shows "in_order p ms bs"
  using assms
proof (induction ms arbitrary: p bs)
  case (Cons m ms)
  have "filter (\<lambda>b. \<not> p + length (fst m) < fst b) bs = filter (\<lambda>b. p \<le> fst b \<and> fst b \<le> p + length (fst m)) bs"
    using Cons.prems(2) by (intro filter_cong) auto
  then have first: "rights_fds (filter (\<lambda>b. \<not> p + length (fst m) < fst b) bs) = snd m"
    using Cons.prems(1) [rule_format, of 0] by (simp add: msg_start_def)
  have start: "msg_start (m # ms) (Suc i) = length (fst m) + 1 + msg_start ms i" for i by (simp add: msg_start_def)
  let ?q = "p + length (fst m) + 1"
  let ?bs = "filter (\<lambda>b. p + length (fst m) < fst b) bs"
  have "in_order ?q ms ?bs"
  proof (rule Cons.IH)
    show "\<forall>i < length ms. rights_fds (filter (\<lambda>b. ?q + msg_start ms i \<le> fst b \<and> fst b \<le> ?q + msg_start ms i + length (fst (ms ! i))) ?bs)
      = snd (ms ! i)"
    proof (intro allI impI)
      fix i
      assume i: "i < length ms"
      have "filter (\<lambda>b. ?q + msg_start ms i \<le> fst b \<and> fst b \<le> ?q + msg_start ms i + length (fst (ms ! i))) ?bs =
          filter (\<lambda>b. p + msg_start (m # ms) (Suc i) \<le> fst b \<and> fst b \<le> p + msg_start (m # ms) (Suc i) + length (fst ((m # ms) ! Suc i))) bs"
        unfolding filter_filter start by (rule filter_cong) auto
      with Cons.prems(1) [rule_format, of "Suc i"] i
      show "rights_fds (filter (\<lambda>b. ?q + msg_start ms i \<le> fst b \<and> fst b \<le> ?q + msg_start ms i + length (fst (ms ! i))) ?bs)
        = snd (ms ! i)" by simp
    qed
  qed auto
  with first show ?case by simp
qed simp

lemma last_offset_ge [simp]: "at \<le> last_offset at w"
  by (cases "rm_data w") (auto simp: last_offset_def)

lemma wire_batches_ge: "b \<in> set (wire_batches at ws) \<Longrightarrow> at \<le> fst b"
  by (induction at ws rule: wire_batches.induct) auto

lemma delivers_framed: "delivers ms ws \<Longrightarrow> Varlink_Dial None ws = Inr c \<Longrightarrow> framed ms ws c"
  using dial_fresh [of None ws c] in_order_intro [of ms 0 "wire_batches 0 ws"]
  by (simp add: delivers_def framed_def)

lemma collectRights_clean:
  "CBadRights \<notin> set cs \<Longrightarrow> \<exists>c'. collectRights cs l c = (None, c') \<and>
     cn_rights c' = cn_rights c @ map (Pair l) (concat (map (\<lambda>c. case c of CRights fds \<Rightarrow> [fds] | _ \<Rightarrow> []) cs))"
  by (induction cs l c rule: collectRights.induct) auto

lemma read_clean:
  assumes "clean_recv w"
  obtains c' where "vl_read w c = (None, c')" "cn_rbuf c' = cn_rbuf c @ rm_data w" "cn_pos c' = cn_pos c" "cn_err c' = cn_err c"
    "cn_rights c' = cn_rights c @ map (Pair (last_offset (cn_pos c + length (cn_rbuf c)) w)) (rights_of w)"
proof -
  have "\<exists>c'. vl_read_rights w c = (None, c') \<and>
      cn_rights c' = cn_rights c @ map (Pair (last_offset (cn_pos c + length (cn_rbuf c)) w)) (rights_of w)"
    using assms collectRights_clean by (auto simp: clean_recv_def vl_read_rights_def rights_of_def split: option.splits sum.splits)
  then obtain c' where c': "vl_read_rights w c = (None, c')"
    "cn_rights c' = cn_rights c @ map (Pair (last_offset (cn_pos c + length (cn_rbuf c)) w)) (rights_of w)" by blast
  with assms have r: "vl_read w c = (None, c'\<lparr>cn_rbuf := cn_rbuf c' @ rm_data w\<rparr>)"
    by (simp add: vl_read_def clean_recv_def Let_def)
  from that [OF r] vl_read_sel [OF r] c' show ?thesis by simp
qed

lemma framed_read:
  assumes "framed ms (w # ws) c" "vl_read w c = (e, c')"
  shows "e = None \<and> framed ms ws c' \<and> cn_err c' = cn_err c"
proof -
  from assms(1) have "clean_recv w" by (simp add: framed_def)
  then show ?thesis
    by (rule read_clean [of w c]) (use assms in \<open>auto simp: framed_def add.assoc\<close>)
qed

lemma takeWhile_prefix:
  assumes "b @ x = m @ 0 # rest" "0 \<notin> set m" "0 \<in> set (b :: bytes)"
  shows "takeWhile (\<lambda>y. y \<noteq> 0) b = m \<and> drop (Suc (length m)) b @ x = rest \<and> length m < length b"
proof -
  have "length m < length b"
  proof (rule ccontr)
    assume "\<not> length m < length b"
    then have "b = take (length b) m" using assms(1) by (metis append_eq_append_conv_if linorder_not_le)
    with assms(2,3) show False by (metis in_set_takeD)
  qed
  then obtain y where b: "b = m @ 0 # y" using assms(1)
    by (auto simp: append_eq_append_conv2 append_eq_Cons_conv)
  with assms show ?thesis by (auto simp: takeWhile_append)
qed

lemma unfinished_length:
  assumes "b @ x = m @ 0 # rest" "0 \<notin> set (b :: bytes)"
  shows "length b \<le> length m"
proof (rule ccontr)
  assume "\<not> length b \<le> length m"
  then have "b ! length m = 0" using assms(1) by (metis linorder_not_le nth_append nth_append_length)
  then show False using assms(2) \<open>\<not> length b \<le> length m\<close> by (metis linorder_not_le nth_mem)
qed

lemma framed_message:
  assumes "framed (m # ms) ws c" "0 \<in> set (cn_rbuf c)" "dec (fst m) = Some r"
  shows "\<exists>c'. vl_message dec c = (Inr (r, snd m), c') \<and> framed ms ws c' \<and> cn_err c' = cn_err c"
proof -
  let ?i = "length (fst m)"
  from assms have tw: "takeWhile (\<lambda>b. b \<noteq> 0) (cn_rbuf c) = fst m"
    and rest: "drop (Suc ?i) (cn_rbuf c) @ concat (map rm_data ws) = stream_of ms"
    and len: "Suc ?i \<le> length (cn_rbuf c)"
    using takeWhile_prefix [of "cn_rbuf c" "concat (map rm_data ws)" "fst m" "stream_of ms"]
    by (auto simp: framed_def sendable_def)
  let ?P = "\<lambda>b :: nat \<times> int list. cn_pos c + ?i < fst b"
  let ?ws = "wire_batches (cn_pos c + length (cn_rbuf c)) ws"
  have late: "\<forall>b \<in> set ?ws. ?P b" using wire_batches_ge len by fastforce
  then have "filter (\<lambda>b. \<not> ?P b) ?ws = []" by simp
  with assms(1) have fs: "rights_fds (filter (\<lambda>b. \<not> ?P b) (cn_rights c)) = snd m"
    and ord: "in_order (cn_pos c + ?i + 1) ms (filter ?P (cn_rights c) @ ?ws)"
    using late by (simp_all add: framed_def)
  let ?c = "c\<lparr>cn_rbuf := drop (Suc ?i) (cn_rbuf c), cn_pos := cn_pos c + ?i + 1, cn_rights := filter ?P (cn_rights c)\<rparr>"
  have nonneg: "filter (\<lambda>fd. 0 \<le> fd) (snd m) = snd m"
    using assms(1) by (simp add: framed_def sendable_def list_all_iff filter_id_conv)
  have "vl_message dec c = (Inr (r, snd m), ?c)"
    using assms(3) by (simp add: vl_message_def tw takeFiles_def Let_def fs nonneg)
  moreover have "framed ms ws ?c"
  proof -
    have "Suc (cn_pos c + length (cn_rbuf c) - Suc 0) = cn_pos c + length (cn_rbuf c)" using len by simp
    with assms(1) rest ord len show ?thesis by (simp add: framed_def)
  qed
  ultimately show ?thesis by simp
qed

lemma framed_receive_loop:
  assumes "framed (m # ms) ws c" "dec (fst m) = Some r"
  shows "\<exists>c'. receive_loop dec ws c = Some (Inr (r, snd m), c') \<and> framed ms (cn_wire c') c' \<and> cn_err c' = cn_err c"
  using assms(1)
proof (induction ws arbitrary: c)
  case Nil
  then have "0 \<in> set (cn_rbuf c)" by (auto simp: framed_def)
  with Nil framed_message [where dec = dec, OF Nil this assms(2)] show ?case
    by (auto simp: receive_loop_message framed_def)
next
  case (Cons w ws)
  show ?case
  proof (cases "0 \<in> set (cn_rbuf c)")
    case True
    with framed_message [where dec = dec, OF Cons.prems True assms(2)] show ?thesis
      by (auto simp: receive_loop_message framed_def)
  next
    case False
    then have "length (cn_rbuf c) \<le> length (fst m)"
      using Cons.prems by (auto simp: framed_def intro: unfinished_length)
    then have small: "\<not> length (cn_rbuf c) > maxMessageSize"
      using Cons.prems by (simp add: framed_def sendable_def)
    obtain e c1 where r: "vl_read w c = (e, c1)" by fastforce
    note f = framed_read [OF Cons.prems r]
    with Cons.IH [of c1] False small r show ?thesis by (auto simp: receive_loop_Cons)
  qed
qed

lemma framed_receive:
  assumes "framed (m # ms) (cn_wire c) c" "dec (fst m) = Some r"
  shows "\<exists>c'. receive dec c = Some (Inr (r, snd m), c') \<and> framed ms (cn_wire c') c' \<and> cn_err c' = cn_err c"
  unfolding receive_def using assms by (rule framed_receive_loop)

text \<open>The callback that keeps every reply with its descriptors.\<close>

definition keep_reply :: "bytes \<Rightarrow> int list \<Rightarrow> (bytes \<times> int list) list \<Rightarrow> vl_error option \<times> vl_event list \<times> (bytes \<times> int list) list" where
  "keep_reply raw files s = (None, map FdKept files, s @ [(raw, files)])"

text \<open>The replies of a stream: all but the last say that more follow, none is an error.\<close>

definition reply_stream :: "(bytes \<Rightarrow> vl_reply option) \<Rightarrow> bytes list \<Rightarrow> bool" where
  "reply_stream dec ms \<longleftrightarrow> ms \<noteq> [] \<and>
     (\<forall>i < length ms. \<exists>r. dec (ms ! i) = Some r \<and> vr_error r = [] \<and> vr_continues r = (Suc i < length ms))"

lemma reply_stream_Cons:
  "reply_stream dec (m # ms) \<longleftrightarrow>
     (\<exists>r. dec m = Some r \<and> vr_error r = [] \<and> vr_continues r = (ms \<noteq> [])) \<and> (ms = [] \<or> reply_stream dec ms)"
  unfolding reply_stream_def by (cases ms) (auto simp: All_less_Suc2)

definition reply_parameters :: "(bytes \<Rightarrow> vl_reply option) \<Rightarrow> sent \<Rightarrow> (bytes \<times> int list) list" where
  "reply_parameters dec ms = map (\<lambda>m. (vr_parameters (the (dec (fst m))), snd m)) ms"

lemma framed_log [simp]: "framed ms ws (log_events es c) \<longleftrightarrow> framed ms ws c"
  by (simp add: framed_def)

lemma more_loop_stream:
  assumes "framed ms (cn_wire c) c" "reply_stream dec (map fst ms)"
  shows "\<exists>c'. more_loop dec keep_reply s c = Some (Inr (s @ reply_parameters dec ms), c') \<and> cn_err c' = cn_err c"
  using assms
proof (induction ms arbitrary: c s)
  case Nil
  then show ?case by (simp add: reply_stream_def)
next
  case (Cons m ms)
  then obtain r where r: "dec (fst m) = Some r" "vr_error r = []" "vr_continues r = (ms \<noteq> [])"
    and rest: "ms = [] \<or> reply_stream dec (map fst ms)" by (auto simp: reply_stream_Cons)
  obtain c1 where c1: "receive dec c = Some (Inr (r, snd m), c1)" "framed ms (cn_wire c1) c1" "cn_err c1 = cn_err c"
    using framed_receive [where dec = dec, OF Cons.prems(1) r(1)] by blast
  show ?case
  proof (cases "ms = []")
    case True
    then show ?thesis using r c1
      by (subst more_loop.simps) (simp add: keep_reply_def [of _ _ s] reply_parameters_def)
  next
    case False
    with rest Cons.IH [of "log_events (map FdKept (snd m)) c1" "s @ [(vr_parameters r, snd m)]"] c1
    show ?thesis using r False
      by (subst more_loop.simps) (auto simp: keep_reply_def [of "vr_parameters r" "snd m" s] reply_parameters_def)
  qed
qed

lemma stream_delivered:
  assumes "delivers ms ws" "reply_stream dec (map fst ms)" "Varlink_Dial None ws = Inr c"
    and "ci_before io = None" "ci_encodes io" "ci_write io = None"
  shows "\<exists>c'. CallMoreWithFiles io dec method params keep_reply [] c = Some (Inr (reply_parameters dec ms), c') \<and> cn_err c' = None"
proof -
  let ?req = "\<lparr>vq_method = method, vq_parameters = orEmpty params, vq_more = True, vq_oneway = False\<rparr>"
  note d = dial_fresh [OF assms(3)]
  let ?c = "log_events [ReqSent ?req] c"
  have "framed ms (cn_wire ?c) ?c" using delivers_framed [OF assms(1,3)] d by simp
  from more_loop_stream [OF this assms(2), of "[]"] show ?thesis
    using d assms(4-6) by (auto simp: CallMoreWithFiles_def Conn_do_def vl_send_def)
qed

text \<open>
  C29. The descriptors of a streamed call arrive with the reply they were sent with:
  when the chunks carry the service's bytes in order, however they are cut or glued,
  and the chunk with a message's descriptors ends inside that message,
  \<open>CallMoreWithFiles\<close> passes every reply to the callback exactly once, in order and
  with exactly its own descriptors, returns without an error and leaves the
  connection usable.
\<close>

theorem varlink_files_with_reply:
  assumes "delivers ms ws" "reply_stream dec (map fst ms)" "Varlink_Dial None ws = Inr c"
    and "ci_before io = None" "ci_encodes io" "ci_write io = None"
  shows "\<exists>c'. CallMoreWithFiles io dec method params keep_reply [] c = Some (Inr (reply_parameters dec ms), c') \<and> cn_err c' = None"
  using assms by (rule stream_delivered)

text \<open>Two replies, glued and cut: the first chunk ends inside the second message and
  carries its descriptor.\<close>

definition demo_sent :: sent where "demo_sent = [([1], []), ([2], [7])]"

definition demo_wire :: "recvmsg list" where
  "demo_wire =
     [\<lparr>rm_data = [1, 0, 2], rm_oob = Some (Inr [CRights [7]]), rm_ctrunc = False, rm_err = None\<rparr>,
      \<lparr>rm_data = [0], rm_oob = None, rm_ctrunc = False, rm_err = None\<rparr>]"

definition demo_dec :: "bytes \<Rightarrow> vl_reply option" where
  "demo_dec m = (if m = [1] then Some \<lparr>vr_parameters = m, vr_continues = True, vr_error = []\<rparr>
     else Some \<lparr>vr_parameters = m, vr_continues = False, vr_error = []\<rparr>)"

definition demo_call :: call_io where
  "demo_call = \<lparr>ci_before = None, ci_after = None, ci_encodes = True, ci_write = None\<rparr>"

theorem varlink_files_with_reply_witness:
  "\<exists>c c'. Varlink_Dial None demo_wire = Inr c \<and>
     CallMoreWithFiles demo_call demo_dec ''m'' None keep_reply [] c = Some (Inr [([1], []), ([2], [7])], c') \<and> cn_err c' = None"
proof -
  have d: "delivers demo_sent demo_wire"
    by (simp add: delivers_def demo_sent_def demo_wire_def sendable_def clean_recv_def stream_of_def rights_of_def
        last_offset_def maxMessageSize_def msg_start_def rights_fds_def All_less_Suc)
  have r: "reply_stream demo_dec (map fst demo_sent)"
    by (simp add: reply_stream_def demo_sent_def demo_dec_def All_less_Suc)
  obtain c where c: "Varlink_Dial None demo_wire = Inr c" by (simp add: Varlink_Dial_def)
  have "reply_parameters demo_dec demo_sent = [([1], []), ([2], [7])]"
    by (simp add: reply_parameters_def demo_sent_def demo_dec_def)
  with varlink_files_with_reply [OF d r c, of demo_call "''m''" None] c show ?thesis by (auto simp: demo_call_def)
qed

end
