(* ===== verification/Storage.thy ===== *)
theory Storage
  imports Varlink
begin

text \<open>
  \<open>src/internal/storage\<close>: the volumes VMs boot from.  The file provider is modelled on
  an explicit file system: the entries by path and the descriptors that are open.
  The systemd provider is modelled on the Varlink connection of its calls, with the
  trace of descriptors that carries.  A failing system call, what \<open>stat\<close> and
  \<open>readlink\<close> answer and the JSON codec are arguments.
\<close>

section \<open>Types\<close>

definition VolumeSuffix :: string where "VolumeSuffix = ''.volume''"

datatype kind = KindFile | KindBlock
datatype create_mode = CreateOpen | CreateNew | CreateAny

fun Kind_String :: "kind \<Rightarrow> string" where
  "Kind_String KindBlock = ''blk''"
| "Kind_String KindFile = ''reg''"

fun CreateMode_String :: "create_mode \<Rightarrow> string" where
  "CreateMode_String CreateNew = ''new''"
| "CreateMode_String CreateAny = ''any''"
| "CreateMode_String CreateOpen = ''open''"

definition TemplateSparseFile :: string where "TemplateSparseFile = ''sparse-file''"
definition TemplateAllocatedFile :: string where "TemplateAllocatedFile = ''allocated-file''"

record acquire_spec =
  as_name :: string
  as_sizeBytes :: int
  as_create :: create_mode
  as_readOnly :: bool
  as_template :: string

record volume =
  vo_name :: string
  vo_path :: string
  vo_sizeBytes :: int
  vo_kind :: kind
  vo_readOnly :: bool
  vo_file :: "int option"

record volume_info =
  iv_name :: string
  iv_kind :: kind
  iv_sizeBytes :: int
  iv_readOnly :: bool

text \<open>What \<open>stat\<close> says of an inode.\<close>

record finfo =
  fi_ino :: nat
  fi_regular :: bool
  fi_device :: bool
  fi_char :: bool
  fi_writable :: bool
  fi_size :: int

definition validateName :: "string \<Rightarrow> unit res" where
  "validateName nm =
     (if nm = [] \<or> nm = ''.'' \<or> nm = ''..'' then Inl ErrInvalid
      else if CHR ''/'' \<in> set nm \<or> CHR 0x00 \<in> set nm then Inl ErrInvalid
      else if length nm + length VolumeSuffix > 255 then Inl ErrInvalid
      else Inr ())"

definition volumePath :: "string \<Rightarrow> string \<Rightarrow> string" where
  "volumePath d nm = filepath_Join [d, nm @ VolumeSuffix]"

definition blockSize :: "int res \<Rightarrow> unit res \<Rightarrow> int res" where
  "blockSize seekEnd seekStart =
     (case seekEnd of Inl e \<Rightarrow> Inl e
      | Inr n \<Rightarrow> (case seekStart of Inl e \<Rightarrow> Inl e | Inr _ \<Rightarrow> Inr n))"

text \<open>The volume around descriptor \<open>f\<close>, and the descriptors closed on the way.\<close>

definition newVolume ::
  "string \<Rightarrow> string \<Rightarrow> int \<Rightarrow> finfo res \<Rightarrow> int res \<Rightarrow> bool \<Rightarrow> volume res \<times> int list" where
  "newVolume nm path f stat blk readOnly =
     (case stat of
        Inl e \<Rightarrow> (Inl e, [f])
      | Inr fi \<Rightarrow>
          let v = \<lparr>vo_name = nm, vo_path = path, vo_sizeBytes = 0, vo_kind = KindFile, vo_readOnly = readOnly, vo_file = Some f\<rparr> in
          if fi_regular fi then (Inr (v\<lparr>vo_kind := KindFile, vo_sizeBytes := fi_size fi\<rparr>), [])
          else if fi_device fi \<and> \<not> fi_char fi then
            (case blk of
               Inl e \<Rightarrow> (Inl e, [f])
             | Inr n \<Rightarrow> (Inr (v\<lparr>vo_kind := KindBlock, vo_sizeBytes := n\<rparr>), []))
          else (Inl ErrUnsupported, [f]))"

datatype os_err = ENotExist | EExist | EPermission | EOther

definition removeEntry :: "os_err option \<Rightarrow> unit res" where
  "removeEntry err =
     (case err of
        None \<Rightarrow> Inr ()
      | Some ENotExist \<Rightarrow> Inl ErrNotFound
      | Some EExist \<Rightarrow> Inl ErrUnsupported
      | Some _ \<Rightarrow> Inl (ErrOther ''delete volume''))"

section \<open>The file provider\<close>

text \<open>The files by path with the descriptors that are open; the next descriptor the
  kernel hands out is \<open>fs_next\<close>.\<close>

record fsys =
  fs_files :: "(string, finfo) gomap"
  fs_open :: "int list"
  fs_next :: int

text \<open>The failures of one \<open>Acquire\<close>: of \<open>MkdirAll\<close>, of the exclusive open, of the second
  open, of \<open>Truncate\<close> and \<open>Fallocate\<close>, of the reopening, of the \<open>Remove\<close> after a failed
  allocation, of \<open>Stat\<close> and of the two seeks of a block device.\<close>

record faults =
  fl_mkdir :: "error option"
  fl_create :: "os_err option"
  fl_open :: "os_err option"
  fl_truncate :: "error option"
  fl_fallocate :: "error option"
  fl_reopen :: "error option"
  fl_remove :: bool
  fl_stat :: "error option"
  fl_block :: "int res"

definition new_fd :: "fsys \<Rightarrow> int \<times> fsys" where
  "new_fd fs = (fs_next fs, fs\<lparr>fs_open := fs_next fs # fs_open fs, fs_next := fs_next fs + 1\<rparr>)"

definition close_fd :: "int \<Rightarrow> fsys \<Rightarrow> fsys" where
  "close_fd f fs = fs\<lparr>fs_open := remove1 f (fs_open fs)\<rparr>"

definition empty_file :: "nat \<Rightarrow> finfo" where
  "empty_file ino = \<lparr>fi_ino = ino, fi_regular = True, fi_device = False, fi_char = False, fi_writable = True, fi_size = 0\<rparr>"

definition open_excl :: "os_err option \<Rightarrow> string \<Rightarrow> fsys \<Rightarrow> (os_err + int) \<times> fsys" where
  "open_excl flt path fs =
     (if map_of (fs_files fs) path \<noteq> None then (Inl EExist, fs)
      else case flt of
        Some e \<Rightarrow> (Inl e, fs)
      | None \<Rightarrow>
          let (f, fs') = new_fd fs in
          (Inr f, fs'\<lparr>fs_files := AList.update path (empty_file (nat f)) (fs_files fs')\<rparr>))"

definition open_file :: "os_err option \<Rightarrow> bool \<Rightarrow> string \<Rightarrow> fsys \<Rightarrow> (os_err + int) \<times> fsys" where
  "open_file flt rdonly path fs =
     (case map_of (fs_files fs) path of
        None \<Rightarrow> (Inl ENotExist, fs)
      | Some fi \<Rightarrow>
          (case flt of
             Some e \<Rightarrow> (Inl e, fs)
           | None \<Rightarrow>
               if \<not> rdonly \<and> \<not> fi_writable fi then (Inl EPermission, fs)
               else let (f, fs') = new_fd fs in (Inr f, fs')))"

definition remove_file :: "bool \<Rightarrow> string \<Rightarrow> fsys \<Rightarrow> os_err option \<times> fsys" where
  "remove_file fails path fs =
     (if map_of (fs_files fs) path = None then (Some ENotExist, fs)
      else if fails then (Some EOther, fs)
      else (None, fs\<lparr>fs_files := AList.delete path (fs_files fs)\<rparr>))"

definition provider_open :: "faults \<Rightarrow> string \<Rightarrow> acquire_spec \<Rightarrow> fsys \<Rightarrow> (error + int \<times> bool) \<times> fsys" where
  "provider_open fl path sp fs =
     (let opened = (\<lambda>rdonly fs.
            case open_file (fl_open fl) rdonly path fs of
              (Inr f, fs') \<Rightarrow> (Inr (f, False), fs')
            | (Inl ENotExist, fs') \<Rightarrow> (Inl ErrNotFound, fs')
            | (Inl EPermission, fs') \<Rightarrow> (Inl (if as_readOnly sp then ErrOther ''open volume'' else ErrConflict), fs')
            | (Inl _, fs') \<Rightarrow> (Inl (ErrOther ''open volume''), fs')) in
      if as_create sp \<noteq> CreateOpen then
        (case open_excl (fl_create fl) path fs of
           (Inr f, fs') \<Rightarrow> (Inr (f, True), fs')
         | (Inl e, fs') \<Rightarrow>
             if e \<noteq> EExist then (Inl (ErrOther ''create volume''), fs')
             else if as_create sp = CreateNew then (Inl ErrConflict, fs')
             else opened (as_readOnly sp) fs')
      else opened (as_readOnly sp) fs)"

definition provider_allocate :: "faults \<Rightarrow> string \<Rightarrow> acquire_spec \<Rightarrow> fsys \<Rightarrow> error option \<times> fsys" where
  "provider_allocate fl path sp fs =
     (case fl_truncate fl of
        Some e \<Rightarrow> (Some e, fs)
      | None \<Rightarrow>
          let fs' = fs\<lparr>fs_files := map (\<lambda>(p, fi). (p, if p = path then fi\<lparr>fi_size := as_sizeBytes sp\<rparr> else fi)) (fs_files fs)\<rparr> in
          (if as_template sp = TemplateAllocatedFile then fl_fallocate fl else None, fs'))"

definition finish_volume :: "faults \<Rightarrow> acquire_spec \<Rightarrow> string \<Rightarrow> int \<Rightarrow> fsys \<Rightarrow> volume res \<times> fsys" where
  "finish_volume fl sp path f fs =
     (let stat = (case fl_stat fl of
                    Some e \<Rightarrow> Inl e
                  | None \<Rightarrow> (case map_of (fs_files fs) path of None \<Rightarrow> Inl (ErrOther ''stat volume'') | Some fi \<Rightarrow> Inr fi));
          (r, closed) = newVolume (as_name sp) path f stat (fl_block fl) (as_readOnly sp) in
      (r, fold close_fd closed fs))"

definition FileProvider_Acquire :: "faults \<Rightarrow> string \<Rightarrow> acquire_spec \<Rightarrow> fsys \<Rightarrow> volume res \<times> fsys" where
  "FileProvider_Acquire fl d sp fs =
     (case validateName (as_name sp) of
        Inl e \<Rightarrow> (Inl e, fs)
      | Inr _ \<Rightarrow>
          if as_template sp \<noteq> [] \<and> as_template sp \<noteq> TemplateSparseFile \<and> as_template sp \<noteq> TemplateAllocatedFile then
            (Inl ErrInvalid, fs)
          else if as_create sp \<noteq> CreateOpen \<and> as_sizeBytes sp \<le> 0 then (Inl ErrInvalid, fs)
          else
            (case fl_mkdir fl of
               Some e \<Rightarrow> (Inl e, fs)
             | None \<Rightarrow>
                 let path = volumePath d (as_name sp) in
                 (case provider_open fl path sp fs of
                    (Inl e, fs1) \<Rightarrow> (Inl e, fs1)
                  | (Inr (f, False), fs1) \<Rightarrow> finish_volume fl sp path f fs1
                  | (Inr (f, True), fs1) \<Rightarrow>
                      (case provider_allocate fl path sp fs1 of
                         (Some e, fs2) \<Rightarrow> (Inl e, snd (remove_file (fl_remove fl) path (close_fd f fs2)))
                       | (None, fs2) \<Rightarrow>
                           if as_readOnly sp then
                             (let fs3 = close_fd f fs2 in
                              case fl_reopen fl of
                                Some e \<Rightarrow> (Inl e, fs3)
                              | None \<Rightarrow> (let (f', fs4) = new_fd fs3 in finish_volume fl sp path f' fs4))
                           else finish_volume fl sp path f fs2))))"

definition Volume_Close :: "volume \<Rightarrow> fsys \<Rightarrow> volume \<times> fsys" where
  "Volume_Close v fs =
     (case vo_file v of None \<Rightarrow> (v, fs) | Some f \<Rightarrow> (v\<lparr>vo_file := None\<rparr>, close_fd f fs))"

definition FileProvider_Release :: "volume \<Rightarrow> fsys \<Rightarrow> volume \<times> fsys" where
  "FileProvider_Release v fs = Volume_Close v fs"

definition FileProvider_Delete :: "bool \<Rightarrow> string \<Rightarrow> string \<Rightarrow> fsys \<Rightarrow> unit res \<times> fsys" where
  "FileProvider_Delete fails d nm fs =
     (case validateName nm of
        Inl e \<Rightarrow> (Inl e, fs)
      | Inr _ \<Rightarrow> apfst removeEntry (remove_file fails (volumePath d nm) fs))"

text \<open>\<open>List\<close> on the paths \<open>Glob\<close> found.\<close>

definition Base :: "string \<Rightarrow> string" where
  "Base p =
     (if p = [] then ''.''
      else let q = rev (dropWhile ((=) (CHR ''/'')) (rev p)) in
        if q = [] then ''/'' else last (Split (CHR ''/'') q))"

definition FileProvider_List :: "string list res \<Rightarrow> fsys \<Rightarrow> volume_info list res" where
  "FileProvider_List found fs =
     (case found of
        Inl _ \<Rightarrow> Inl ErrInvalid
      | Inr ps \<Rightarrow>
          Inr (concat (map (\<lambda>m. case map_of (fs_files fs) m of
              None \<Rightarrow> []
            | Some fi \<Rightarrow>
                if \<not> fi_regular fi then []
                else let nm = Base m in
                  [\<lparr>iv_name = take (length nm - length VolumeSuffix) nm, iv_kind = KindFile, iv_sizeBytes = fi_size fi,
                    iv_readOnly = \<not> fi_writable fi\<rparr>]) ps)))"

section \<open>Paths of volumes\<close>

lemma clean_comps_snoc:
  assumes "n \<noteq> []" "n \<noteq> ''.''" "n \<noteq> ''..''"
  shows "clean_comps r out (cs @ [n]) = clean_comps r out cs @ [n]"
  by (induction r out cs rule: clean_comps.induct) (use assms in \<open>auto split: list.splits\<close>)

lemma Split_snoc: "sep \<notin> set n \<Longrightarrow> Split sep (d @ sep # n) = Split sep d @ [n]"
  by (induction d) (auto simp: Split_word split: list.splits)

lemma Join_snoc: "Join sep (ws @ [w]) = (if ws = [] then w else Join sep ws @ sep @ w)"
  by (induction sep ws rule: Join.induct) auto

lemma clean_comps_nonempty: "[] \<notin> set out \<Longrightarrow> [] \<notin> set (clean_comps r out cs)"
  by (induction r out cs rule: clean_comps.induct) (auto split: list.splits)

lemma Join_eq_Nil: "[] \<notin> set ws \<Longrightarrow> Join sep ws = [] \<longleftrightarrow> ws = []"
  by (induction sep ws rule: Join.induct) auto

definition valid_name :: "string \<Rightarrow> bool" where
  "valid_name nm \<longleftrightarrow> validateName nm = Inr ()"

lemma valid_nameD:
  assumes "valid_name nm"
  shows "CHR ''/'' \<notin> set (nm @ VolumeSuffix)" "nm @ VolumeSuffix \<noteq> []" "nm @ VolumeSuffix \<noteq> ''.''" "nm @ VolumeSuffix \<noteq> ''..''"
  using assms by (auto simp: valid_name_def validateName_def VolumeSuffix_def append_eq_Cons_conv split: if_splits)

text \<open>The entry of a valid name lies directly below the directory.\<close>

lemma volumePath_below:
  assumes "valid_name nm"
  shows "\<exists>base. (\<forall>n. valid_name n \<longrightarrow> volumePath d n = base @ n @ VolumeSuffix) \<and>
    (base = [] \<or> base = ''/'' \<or> base = Clean d @ ''/'')"
proof (cases "d = []")
  case True
  have "volumePath d n = n @ VolumeSuffix" if "valid_name n" for n
  proof -
    note v = valid_nameD [OF that]
    have "(case n @ VolumeSuffix of c # _ \<Rightarrow> c = CHR ''/'' | [] \<Rightarrow> False) = False"
      using v(1) by (cases "n @ VolumeSuffix") (auto simp del: set_append)
    then show ?thesis using v True
      by (simp add: volumePath_def filepath_Join_def Clean_def Split_word Let_def split: list.splits)
  qed
  then show ?thesis by auto
next
  case False
  define r where "r = (case d of c # _ \<Rightarrow> c = CHR ''/'' | [] \<Rightarrow> False)"
  define cs where "cs = clean_comps r [] (Split (CHR ''/'') d)"
  let ?base = "(if r then ''/'' else []) @ (if cs = [] then [] else Join ''/'' cs @ ''/'')"
  have p: "volumePath d n = ?base @ n @ VolumeSuffix" if "valid_name n" for n
  proof -
    note v = valid_nameD [OF that]
    have r': "(case d @ CHR ''/'' # n @ VolumeSuffix of c # _ \<Rightarrow> c = CHR ''/'' | [] \<Rightarrow> False) = r"
      using False by (auto simp: r_def split: list.splits)
    have "clean_comps r [] (Split (CHR ''/'') (d @ CHR ''/'' # n @ VolumeSuffix)) = cs @ [n @ VolumeSuffix]"
      using v by (simp add: Split_snoc clean_comps_snoc cs_def)
    then show ?thesis using False v
      by (cases r) (auto simp: volumePath_def filepath_Join_def Clean_def r' Join_snoc Let_def)
  qed
  have "Join ''/'' cs = [] \<longleftrightarrow> cs = []"
    unfolding cs_def by (rule Join_eq_Nil) (simp add: clean_comps_nonempty)
  then have "?base = [] \<or> ?base = ''/'' \<or> ?base = Clean d @ ''/''"
    unfolding Clean_def Let_def r_def [symmetric] cs_def [symmetric] by auto
  with p show ?thesis by blast
qed

lemma volumePath_inj: "valid_name a \<Longrightarrow> valid_name b \<Longrightarrow> volumePath d a = volumePath d b \<longleftrightarrow> a = b"
  using volumePath_below [of a d] by auto

section \<open>What the file provider guarantees\<close>

text \<open>Open descriptors are distinct and below the next one.\<close>

definition fs_ok :: "fsys \<Rightarrow> bool" where
  "fs_ok fs \<longleftrightarrow> distinct (fs_open fs) \<and> (\<forall>f \<in> set (fs_open fs). f < fs_next fs)"

text \<open>What an operation on the volume at \<open>path\<close> leaves of the files before it.\<close>

definition keeps_files :: "string \<Rightarrow> fsys \<Rightarrow> fsys \<Rightarrow> bool" where
  "keeps_files path fs fs' \<longleftrightarrow>
     (\<forall>p. p \<noteq> path \<or> map_of (fs_files fs) p \<noteq> None \<longrightarrow> map_of (fs_files fs') p = map_of (fs_files fs) p)"

lemma keeps_refl [simp]: "keeps_files path fs fs"
  by (simp add: keeps_files_def)

lemma fs_simps [simp]:
  "fs_files (close_fd f fs) = fs_files fs" "fs_next (close_fd f fs) = fs_next fs"
  "fs_open (close_fd f fs) = remove1 f (fs_open fs)"
  "fs_files (snd (new_fd fs)) = fs_files fs"
  by (simp_all add: close_fd_def new_fd_def)

lemma fresh_fd: "fs_ok fs \<Longrightarrow> fs_next fs \<notin> set (fs_open fs)"
  by (auto simp: fs_ok_def)

text \<open>The result of an open: nothing changed, or a fresh descriptor and, for a
  created volume, an entry that was not there.\<close>

lemma provider_open_result:
  assumes "provider_open fl path sp fs = (r, fs')"
  shows "case r of
      Inl _ \<Rightarrow> fs' = fs
    | Inr (f, created) \<Rightarrow>
        f = fs_next fs \<and> fs_open fs' = f # fs_open fs \<and> fs_next fs' = fs_next fs + 1 \<and>
        (if created then map_of (fs_files fs) path = None \<and> fs_files fs' = AList.update path (empty_file (nat f)) (fs_files fs)
         else fs_files fs' = fs_files fs \<and> map_of (fs_files fs) path \<noteq> None)"
  using assms
  by (auto simp: provider_open_def open_excl_def open_file_def new_fd_def Let_def
      split: if_splits prod.splits option.splits sum.splits os_err.splits)

lemma finish_volume_result:
  assumes "finish_volume fl sp path f fs = (r, fs')"
  shows "fs_files fs' = fs_files fs \<and> fs_next fs' = fs_next fs \<and>
    (case r of Inl _ \<Rightarrow> fs_open fs' = remove1 f (fs_open fs)
     | Inr v \<Rightarrow> fs_open fs' = fs_open fs \<and> vo_file v = Some f \<and> vo_path v = path \<and> vo_name v = as_name sp \<and>
         vo_readOnly v = as_readOnly sp)"
  using assms
  by (auto simp: finish_volume_def newVolume_def Let_def split: sum.splits option.splits prod.splits if_splits)

lemma map_of_resize:
  "map_of (map (\<lambda>(p, fi). (p, if p = path then g fi else fi)) al) p =
     (if p = path then map_option g (map_of al p) else map_of al p)"
  by (induction al) auto

lemma allocate_result:
  assumes "provider_allocate fl path sp fs = (e, fs')"
  shows "fs_open fs' = fs_open fs \<and> fs_next fs' = fs_next fs \<and>
    (\<forall>p. p \<noteq> path \<longrightarrow> map_of (fs_files fs') p = map_of (fs_files fs) p) \<and>
    (e = None \<longrightarrow> map_of (fs_files fs') path = map_option (fi_size_update (\<lambda>_. as_sizeBytes sp)) (map_of (fs_files fs) path))"
  using assms
  by (auto simp: provider_allocate_def Let_def map_of_resize [where g = "fi_size_update (\<lambda>_. as_sizeBytes sp)"] comp_def
      split: option.splits)

lemma remove_file_result:
  assumes "remove_file b path fs = (e, fs')"
  shows "fs_open fs' = fs_open fs \<and> fs_next fs' = fs_next fs \<and>
    (\<forall>p. p \<noteq> path \<longrightarrow> map_of (fs_files fs') p = map_of (fs_files fs) p)"
  using assms by (auto simp: remove_file_def delete_conv' split: if_splits)

definition acquired :: "string \<Rightarrow> acquire_spec \<Rightarrow> fsys \<Rightarrow> volume res \<times> fsys \<Rightarrow> bool" where
  "acquired path sp fs rf \<longleftrightarrow>
     keeps_files path fs (snd rf) \<and>
     (case fst rf of
        Inl _ \<Rightarrow> fs_open (snd rf) = fs_open fs
      | Inr v \<Rightarrow> (\<exists>f. vo_file v = Some f \<and> f \<notin> set (fs_open fs) \<and> fs_open (snd rf) = f # fs_open fs \<and>
          vo_path v = path \<and> vo_name v = as_name sp \<and> vo_readOnly v = as_readOnly sp))"

lemma acquired_finish:
  assumes "fs_ok fs" "fs_open fs1 = f # fs_open fs" "f \<notin> set (fs_open fs)" "keeps_files path fs fs1"
  shows "acquired path sp fs (finish_volume fl sp path f fs1)"
proof -
  obtain r fs2 where fin: "finish_volume fl sp path f fs1 = (r, fs2)" by fastforce
  show ?thesis using finish_volume_result [OF fin] assms fin
    by (auto simp: acquired_def keeps_files_def split: sum.splits)
qed

lemma FileProvider_Acquire_acquired:
  assumes ok: "fs_ok fs"
  shows "acquired (volumePath d (as_name sp)) sp fs (FileProvider_Acquire fl d sp fs)"
proof -
  let ?path = "volumePath d (as_name sp)"
  obtain r1 fs1 where o: "provider_open fl ?path sp fs = (r1, fs1)" by fastforce
  note op = provider_open_result [OF o]
  note refused = acquired_def [of ?path sp fs "(Inl _, fs)"]
  have "acquired ?path sp fs
     (case (r1, fs1) of
        (Inl e, fs1) \<Rightarrow> (Inl e, fs1)
      | (Inr (f, False), fs1) \<Rightarrow> finish_volume fl sp ?path f fs1
      | (Inr (f, True), fs1) \<Rightarrow>
          (case provider_allocate fl ?path sp fs1 of
             (Some e, fs2) \<Rightarrow> (Inl e, snd (remove_file (fl_remove fl) ?path (close_fd f fs2)))
           | (None, fs2) \<Rightarrow>
               if as_readOnly sp then
                 (let fs3 = close_fd f fs2 in
                  case fl_reopen fl of
                    Some e \<Rightarrow> (Inl e, fs3)
                  | None \<Rightarrow> (let (f', fs4) = new_fd fs3 in finish_volume fl sp ?path f' fs4))
               else finish_volume fl sp ?path f fs2))" (is "acquired _ _ _ ?R")
  proof (cases r1)
    case (Inl e)
    then show ?thesis using op by (simp add: acquired_def)
  next
    case (Inr fc)
    obtain f created where fc: "fc = (f, created)" by (cases fc)
    have fresh: "f \<notin> set (fs_open fs)" and opn: "fs_open fs1 = f # fs_open fs" and nxt: "fs_next fs1 = fs_next fs + 1"
      using op Inr fc fresh_fd [OF ok] by auto
    show ?thesis
    proof (cases created)
      case False
      then show ?thesis using op Inr fc fresh opn ok
        by (auto simp: keeps_files_def intro!: acquired_finish)
    next
      case True
      obtain e fs2 where a: "provider_allocate fl ?path sp fs1 = (e, fs2)" by fastforce
      note al = allocate_result [OF a]
      have keeps: "keeps_files ?path fs fs2"
        using op Inr fc True al by (auto simp: keeps_files_def update_conv')
      have fresh': "fs_next fs1 \<notin> set (fs_open fs)" using ok nxt by (auto simp: fs_ok_def)
      show ?thesis
      proof (cases e)
        case (Some x)
        obtain e3 fs3 where r: "remove_file (fl_remove fl) ?path (close_fd f fs2) = (e3, fs3)" by fastforce
        show ?thesis using remove_file_result [OF r] keeps op Inr fc True a al Some r opn
          by (auto simp: acquired_def keeps_files_def)
      next
        case None
        let ?fs3 = "close_fd f fs2"
        have k3: "keeps_files ?path fs (snd (new_fd ?fs3))" using keeps by (simp add: keeps_files_def)
        show ?thesis
          using Inr fc True a None al opn keeps k3 fresh fresh' ok acquired_finish [OF ok _ fresh keeps]
            acquired_finish [OF ok _ fresh' k3]
          by (auto simp: Let_def new_fd_def acquired_def [of ?path sp fs "(Inl _, _)"] keeps_files_def split: option.splits)
      qed
    qed
  qed
  then show ?thesis using o
    by (auto simp: FileProvider_Acquire_def refused Let_def split: sum.splits option.splits)
qed

text \<open>The life of one volume without failing system calls.\<close>

definition no_faults :: "faults \<Rightarrow> bool" where
  "no_faults fl \<longleftrightarrow> fl_mkdir fl = None \<and> fl_create fl = None \<and> fl_open fl = None \<and> fl_truncate fl = None \<and>
     fl_fallocate fl = None \<and> fl_reopen fl = None \<and> \<not> fl_remove fl \<and> fl_stat fl = None"

definition good_spec :: "acquire_spec \<Rightarrow> bool" where
  "good_spec sp \<longleftrightarrow> valid_name (as_name sp) \<and> as_template sp \<in> {[], TemplateSparseFile, TemplateAllocatedFile} \<and>
     (as_create sp \<noteq> CreateOpen \<longrightarrow> 0 < as_sizeBytes sp)"

lemma good_specD:
  assumes "good_spec sp" "no_faults fl"
  shows "FileProvider_Acquire fl d sp fs =
    (let path = volumePath d (as_name sp) in
     case provider_open fl path sp fs of
       (Inl e, fs1) \<Rightarrow> (Inl e, fs1)
     | (Inr (f, False), fs1) \<Rightarrow> finish_volume fl sp path f fs1
     | (Inr (f, True), fs1) \<Rightarrow>
         (let fs2 = fs1\<lparr>fs_files := map (\<lambda>(p, fi). (p, if p = path then fi\<lparr>fi_size := as_sizeBytes sp\<rparr> else fi)) (fs_files fs1)\<rparr> in
          if as_readOnly sp then (let (f', fs4) = new_fd (close_fd f fs2) in finish_volume fl sp path f' fs4)
          else finish_volume fl sp path f fs2))"
  using assms
  by (auto simp: FileProvider_Acquire_def good_spec_def valid_name_def no_faults_def provider_allocate_def Let_def
      split: sum.splits prod.splits bool.splits)

lemma finish_no_faults:
  assumes "no_faults fl" "map_of (fs_files fs) path = Some fi" "fi_regular fi"
  shows "finish_volume fl sp path f fs =
    (Inr \<lparr>vo_name = as_name sp, vo_path = path, vo_sizeBytes = fi_size fi, vo_kind = KindFile, vo_readOnly = as_readOnly sp,
       vo_file = Some f\<rparr>, fs)"
  using assms by (simp add: finish_volume_def newVolume_def no_faults_def Let_def)

text \<open>Creating a volume that is not there.\<close>

lemma acquire_creates:
  assumes "good_spec sp" "no_faults fl" "as_create sp \<noteq> CreateOpen"
    and "map_of (fs_files fs) (volumePath d (as_name sp)) = None" "FileProvider_Acquire fl d sp fs = (r, fs')"
  shows "\<exists>v fi. r = Inr v \<and> vo_sizeBytes v = as_sizeBytes sp \<and> vo_path v = volumePath d (as_name sp) \<and>
    map_of (fs_files fs') (volumePath d (as_name sp)) = Some fi \<and> fi_regular fi \<and> fi_writable fi \<and> fi_size fi = as_sizeBytes sp"
proof -
  let ?path = "volumePath d (as_name sp)"
  let ?fi = "(empty_file (nat (fs_next fs)))\<lparr>fi_size := as_sizeBytes sp\<rparr>"
  obtain fs1 where o: "provider_open fl ?path sp fs = (Inr (fs_next fs, True), fs1)"
    "fs_files fs1 = AList.update ?path (empty_file (nat (fs_next fs))) (fs_files fs)"
    using assms(2-4) by (auto simp: provider_open_def open_excl_def new_fd_def no_faults_def Let_def)
  let ?fs2 = "fs1\<lparr>fs_files := map (\<lambda>(p, fi). (p, if p = ?path then fi\<lparr>fi_size := as_sizeBytes sp\<rparr> else fi)) (fs_files fs1)\<rparr>"
  have f: "map_of (fs_files ?fs2) ?path = Some ?fi"
    by (simp add: o(2) map_of_resize [where g = "fi_size_update (\<lambda>_. as_sizeBytes sp)"] update_conv')
  moreover have "map_of (fs_files (snd (new_fd (close_fd (fs_next fs) ?fs2)))) ?path = Some ?fi" using f by simp
  moreover have "fi_regular ?fi" "fi_writable ?fi" "fi_size ?fi = as_sizeBytes sp" by (simp_all add: empty_file_def)
  ultimately show ?thesis
    using good_specD [OF assms(1,2), of d fs] o(1) assms(5) finish_no_faults [OF assms(2)]
    by (auto simp: Let_def new_fd_def split: if_splits)
qed

lemma acquire_opens:
  assumes "good_spec sp" "no_faults fl" "as_create sp \<noteq> CreateNew"
    and "map_of (fs_files fs) (volumePath d (as_name sp)) = Some fi" "fi_regular fi" "fi_writable fi"
  shows "\<exists>v fs'. FileProvider_Acquire fl d sp fs = (Inr v, fs') \<and> vo_sizeBytes v = fi_size fi \<and>
    vo_path v = volumePath d (as_name sp) \<and> fs_files fs' = fs_files fs"
proof -
  let ?path = "volumePath d (as_name sp)"
  obtain fs1 where o: "provider_open fl ?path sp fs = (Inr (fs_next fs, False), fs1)" "fs_files fs1 = fs_files fs"
    using assms(2-6) by (cases "as_create sp") (auto simp: provider_open_def open_excl_def open_file_def new_fd_def no_faults_def Let_def)
  then show ?thesis
    using good_specD [OF assms(1,2), of d fs] finish_no_faults [OF assms(2) _ assms(5)] assms(4) by (simp add: Let_def)
qed

lemma acquire_missing:
  assumes "good_spec sp" "no_faults fl" "as_create sp = CreateOpen" "map_of (fs_files fs) (volumePath d (as_name sp)) = None"
  shows "FileProvider_Acquire fl d sp fs = (Inl ErrNotFound, fs)"
  using good_specD [OF assms(1,2), of d fs] assms(3,4) by (simp add: provider_open_def open_file_def Let_def)

lemma acquire_exists:
  assumes "good_spec sp" "no_faults fl" "as_create sp = CreateNew" "map_of (fs_files fs) (volumePath d (as_name sp)) \<noteq> None"
  shows "FileProvider_Acquire fl d sp fs = (Inl ErrConflict, fs)"
  using good_specD [OF assms(1,2), of d fs] assms(3,4) by (auto simp: provider_open_def open_excl_def Let_def)

lemma close_files [simp]: "fs_files (snd (Volume_Close v fs)) = fs_files fs"
  by (simp add: Volume_Close_def split: option.splits)

lemma delete_removes:
  assumes "valid_name nm" "map_of (fs_files fs) (volumePath d nm) \<noteq> None"
  shows "\<exists>fs'. FileProvider_Delete False d nm fs = (Inr (), fs') \<and> map_of (fs_files fs') (volumePath d nm) = None \<and>
    (\<forall>n. valid_name n \<longrightarrow> n \<noteq> nm \<longrightarrow> map_of (fs_files fs') (volumePath d n) = map_of (fs_files fs) (volumePath d n))"
  using assms volumePath_inj [of _ nm d]
  by (auto simp: FileProvider_Delete_def valid_name_def remove_file_def removeEntry_def delete_conv')

text \<open>
  C30. Acquiring a volume of the file provider never touches what is already there: whatever
  system calls fail, every file that existed keeps its contents and size, no file
  of another name appears, a failed call leaves no descriptor open, and a successful
  one exactly one new descriptor, which the returned volume of that name holds.
\<close>

theorem volume_acquire_safe:
  assumes "fs_ok fs"
  shows "acquired (volumePath d (as_name sp)) sp fs (FileProvider_Acquire fl d sp fs)"
  using assms by (rule FileProvider_Acquire_acquired)

definition demo_faults :: faults where
  "demo_faults = \<lparr>fl_mkdir = None, fl_create = None, fl_open = None, fl_truncate = None, fl_fallocate = None, fl_reopen = None,
     fl_remove = False, fl_stat = None, fl_block = Inl (ErrOther ''seek'')\<rparr>"

definition demo_spec :: "create_mode \<Rightarrow> int \<Rightarrow> acquire_spec" where
  "demo_spec m n = \<lparr>as_name = ''vm-1'', as_sizeBytes = n, as_create = m, as_readOnly = False, as_template = []\<rparr>"

definition demo_fsys :: fsys where
  "demo_fsys = \<lparr>fs_files = [(''/var/lib/other.volume'', (empty_file 3)\<lparr>fi_size := 9\<rparr>)], fs_open = [4], fs_next = 5\<rparr>"

theorem volume_acquire_safe_witness:
  "acquired (volumePath ''/var/lib'' ''vm-1'') (demo_spec CreateNew 10) demo_fsys
     (FileProvider_Acquire (demo_faults\<lparr>fl_truncate := Some (ErrOther ''ENOSPC'')\<rparr>) ''/var/lib'' (demo_spec CreateNew 10) demo_fsys)"
  using volume_acquire_safe [of demo_fsys "''/var/lib''" "demo_spec CreateNew 10" "demo_faults\<lparr>fl_truncate := Some (ErrOther ''ENOSPC'')\<rparr>"]
  by (simp add: fs_ok_def demo_fsys_def demo_spec_def)

text \<open>
  C31. Volumes round-trip: a volume created with a size is opened again with that size
  and path after it was released, whatever size the second request names; creating
  it anew is a conflict that changes nothing; once deleted it is not found.
\<close>

theorem volume_roundtrip:
  assumes "good_spec sp" "good_spec sp2" "as_name sp2 = as_name sp" "no_faults fl" "as_create sp = CreateNew" "as_create sp2 = CreateOpen"
    and "map_of (fs_files fs) (volumePath d (as_name sp)) = None"
    and "FileProvider_Acquire fl d sp fs = (r, fs1)"
  shows "\<exists>v v2 fs2 fs3. r = Inr v \<and> vo_sizeBytes v = as_sizeBytes sp \<and>
    FileProvider_Acquire fl d sp2 (snd (FileProvider_Release v fs1)) = (Inr v2, fs2) \<and>
    vo_sizeBytes v2 = as_sizeBytes sp \<and> vo_path v2 = vo_path v \<and>
    FileProvider_Acquire fl d sp (snd (FileProvider_Release v fs1)) = (Inl ErrConflict, snd (FileProvider_Release v fs1)) \<and>
    FileProvider_Delete False d (as_name sp) (snd (FileProvider_Release v2 fs2)) = (Inr (), fs3) \<and>
    FileProvider_Acquire fl d sp2 fs3 = (Inl ErrNotFound, fs3)"
proof -
  obtain v fi where v: "r = Inr v" "vo_sizeBytes v = as_sizeBytes sp" "vo_path v = volumePath d (as_name sp)"
    and fi: "map_of (fs_files fs1) (volumePath d (as_name sp)) = Some fi" "fi_regular fi" "fi_writable fi" "fi_size fi = as_sizeBytes sp"
    using acquire_creates [OF assms(1,4) _ assms(7,8)] assms(5) by auto
  let ?fs = "snd (FileProvider_Release v fs1)"
  have f: "fs_files ?fs = fs_files fs1" by (simp add: FileProvider_Release_def)
  obtain v2 fs2 where v2: "FileProvider_Acquire fl d sp2 ?fs = (Inr v2, fs2)" "vo_sizeBytes v2 = fi_size fi"
      "vo_path v2 = volumePath d (as_name sp)" "fs_files fs2 = fs_files ?fs"
    using acquire_opens [OF assms(2,4), of ?fs d fi] fi f assms(3,6) by auto
  have "FileProvider_Acquire fl d sp ?fs = (Inl ErrConflict, ?fs)"
    using acquire_exists [OF assms(1,4,5)] fi f by simp
  moreover obtain fs3 where "FileProvider_Delete False d (as_name sp) (snd (FileProvider_Release v2 fs2)) = (Inr (), fs3)"
      "map_of (fs_files fs3) (volumePath d (as_name sp)) = None"
    using delete_removes [of "as_name sp" "snd (FileProvider_Release v2 fs2)" d] assms(1) fi f v2(4)
    by (auto simp: FileProvider_Release_def good_spec_def)
  moreover from this have "FileProvider_Acquire fl d sp2 fs3 = (Inl ErrNotFound, fs3)"
    using acquire_missing [OF assms(2,4,6)] assms(3) by simp
  ultimately show ?thesis using v v2 fi by auto
qed

theorem volume_roundtrip_witness:
  "\<exists>v fs1. FileProvider_Acquire demo_faults ''/var/lib'' (demo_spec CreateNew 10) demo_fsys = (Inr v, fs1) \<and> vo_sizeBytes v = 10"
proof -
  have g: "good_spec (demo_spec CreateNew 10)" "good_spec (demo_spec CreateOpen 3)"
    by (simp_all add: good_spec_def demo_spec_def valid_name_def validateName_def VolumeSuffix_def)
  have p: "volumePath ''/var/lib'' ''vm-1'' = ''/var/lib/vm-1.volume''" by code_simp
  obtain r fs1 where a: "FileProvider_Acquire demo_faults ''/var/lib'' (demo_spec CreateNew 10) demo_fsys = (r, fs1)" by fastforce
  have s: "as_name (demo_spec CreateOpen 3) = as_name (demo_spec CreateNew 10)" "no_faults demo_faults"
    "as_create (demo_spec CreateNew 10) = CreateNew" "as_create (demo_spec CreateOpen 3) = CreateOpen"
    "map_of (fs_files demo_fsys) (volumePath ''/var/lib'' (as_name (demo_spec CreateNew 10))) = None"
    using p by (simp_all add: demo_spec_def no_faults_def demo_faults_def demo_fsys_def)
  from volume_roundtrip [OF g s a] obtain v where "r = Inr v" "vo_sizeBytes v = as_sizeBytes (demo_spec CreateNew 10)" by blast
  with a show ?thesis by (simp add: demo_spec_def)
qed

section \<open>The systemd provider\<close>

definition interfaceName :: string where "interfaceName = ''io.systemd.StorageProvider''"
definition methodAcquire :: string where "methodAcquire = interfaceName @ ''.Acquire''"
definition methodListVolumes :: string where "methodListVolumes = interfaceName @ ''.ListVolumes''"
definition errInvalidParameter :: string where "errInvalidParameter = ''org.varlink.service.InvalidParameter''"
definition typeReg :: string where "typeReg = ''reg''"
definition typeBlk :: string where "typeBlk = ''blk''"

record acquire_params =
  ap_name :: string
  ap_createMode :: string
  ap_template :: string
  ap_readOnly :: bool
  ap_requestAs :: string
  ap_createSizeBytes :: int

record acquire_reply =
  ar_fileDescriptorIndex :: int
  ar_type :: string
  ar_readOnly :: bool

record list_volumes_reply =
  lr_name :: string
  lr_type :: string
  lr_readOnly :: bool
  lr_sizeBytes :: int

text \<open>The world of a call: the dial, the bytes that arrive, the codec and the
  answers of \<open>stat\<close>, \<open>readlink\<close> and the seeks of the received descriptor.\<close>

record storage_io =
  so_dial :: "error option"
  so_wire :: "recvmsg list"
  so_call :: call_io
  so_dec :: "bytes \<Rightarrow> vl_reply option"
  so_encAcquire :: "acquire_params \<Rightarrow> string"
  so_decAcquire :: "bytes \<Rightarrow> acquire_reply option"
  so_encList :: "(string \<times> string) list \<Rightarrow> string"
  so_decList :: "bytes \<Rightarrow> list_volumes_reply option"
  so_decInfo :: "bytes \<Rightarrow> service_info option"
  so_fstat :: "int \<Rightarrow> finfo res"
  so_stat :: "string \<Rightarrow> finfo option"
  so_readlink :: "int \<Rightarrow> string option"
  so_seekEnd :: "int \<Rightarrow> int res"
  so_seekStart :: "int \<Rightarrow> unit res"

definition mapError :: "vl_error \<Rightarrow> error" where
  "mapError err =
     (case err of
        VPlain e \<Rightarrow> e
      | VErr n _ \<Rightarrow>
          if n = interfaceName @ ''.NoSuchVolume'' then ErrNotFound
          else if n \<in> {interfaceName @ ''.VolumeExists'', interfaceName @ ''.WrongType'', interfaceName @ ''.ReadOnlyVolume''} then ErrConflict
          else if n \<in> {interfaceName @ ''.NoSuchTemplate'', interfaceName @ ''.BadTemplate'', interfaceName @ ''.CreateSizeRequired'',
            errInvalidParameter} then ErrInvalid
          else if n \<in> {interfaceName @ ''.TypeNotSupported'', interfaceName @ ''.CreateNotSupported''} then ErrUnsupported
          else ErrOther ''volume'')"

definition pickFile :: "int list \<Rightarrow> int \<Rightarrow> int res \<times> int list" where
  "pickFile files index =
     (if index < 0 \<or> index \<ge> int (length files) then (Inl (ErrOther ''reply refers to a descriptor that was not received''), files)
      else (Inr (files ! nat index), take (nat index) files @ drop (Suc (nat index)) files))"

definition resolvePath :: "storage_io \<Rightarrow> string \<Rightarrow> string \<Rightarrow> int \<Rightarrow> string res" where
  "resolvePath io volumeDir nm f =
     (case so_fstat io f of
        Inl e \<Rightarrow> Inl e
      | Inr fi \<Rightarrow>
          let candidates = volumePath volumeDir nm #
                (case so_readlink io f of
                   None \<Rightarrow> []
                 | Some link \<Rightarrow> if suffix '' (deleted)'' link then [] else [link]) in
          (case find (\<lambda>c. case so_stat io c of None \<Rightarrow> False | Some pi \<Rightarrow> fi_ino pi = fi_ino fi) candidates of
             Some c \<Rightarrow> Inr c
           | None \<Rightarrow> Inl (ErrOther ''no path names the inode'')))"

definition acquireParams :: "acquire_spec \<Rightarrow> acquire_params" where
  "acquireParams sp =
     \<lparr>ap_name = as_name sp, ap_createMode = CreateMode_String (as_create sp), ap_template = as_template sp,
      ap_readOnly = as_readOnly sp, ap_requestAs = (if as_create sp \<noteq> CreateOpen then typeReg else []),
      ap_createSizeBytes = as_sizeBytes sp\<rparr>"

text \<open>From the descriptors of the reply to the volume: the result and what is closed.\<close>

definition acquired_volume :: "storage_io \<Rightarrow> string \<Rightarrow> string \<Rightarrow> acquire_reply \<Rightarrow> int list \<Rightarrow> volume res \<times> int list" where
  "acquired_volume io volumeDir nm rep files =
     (case pickFile files (ar_fileDescriptorIndex rep) of
        (Inl e, closed) \<Rightarrow> (Inl e, closed)
      | (Inr f, closed) \<Rightarrow>
          if ar_type rep \<noteq> typeReg \<and> ar_type rep \<noteq> typeBlk then (Inl ErrUnsupported, closed @ [f])
          else
            (case resolvePath io volumeDir nm f of
               Inl e \<Rightarrow> (Inl e, closed @ [f])
             | Inr path \<Rightarrow>
                 apsnd ((@) closed)
                   (newVolume nm path f (so_fstat io f) (blockSize (so_seekEnd io f) (so_seekStart io f)) (ar_readOnly rep))))"

text \<open>\<open>Acquire\<close>: the result and the trace of the connection, which is closed at the end.\<close>

definition SystemdProvider_Acquire :: "storage_io \<Rightarrow> string \<Rightarrow> acquire_spec \<Rightarrow> (volume res \<times> vl_event list) option" where
  "SystemdProvider_Acquire io volumeDir sp =
     (case validateName (as_name sp) of
        Inl e \<Rightarrow> Some (Inl e, [])
      | Inr _ \<Rightarrow>
          if as_sizeBytes sp < 0 then Some (Inl ErrInvalid, [])
          else
            (case Varlink_Dial (so_dial io) (so_wire io) of
               Inl e \<Rightarrow> Some (Inl e, [])
             | Inr c \<Rightarrow>
                 (case CallWithFiles (so_call io) (so_dec io) methodAcquire (Some (so_encAcquire io (acquireParams sp)))
                         \<lparr>ar_fileDescriptorIndex = 0, ar_type = [], ar_readOnly = False\<rparr> (so_decAcquire io) c of
                    None \<Rightarrow> None
                  | Some (Inl e, c') \<Rightarrow> Some (Inl (mapError e), cn_trace (Conn_Close c'))
                  | Some (Inr (rep, files), c') \<Rightarrow>
                      (let (r, closed) = acquired_volume io volumeDir (as_name sp) rep files in
                       Some (r, cn_trace (Conn_Close (closeFiles closed c')))))))"

definition SystemdProvider_Delete :: "bool \<Rightarrow> string \<Rightarrow> string \<Rightarrow> fsys \<Rightarrow> unit res \<times> fsys" where
  "SystemdProvider_Delete fails volumeDir nm fs =
     (case validateName nm of
        Inl e \<Rightarrow> (Inl e, fs)
      | Inr _ \<Rightarrow> apfst removeEntry (remove_file fails (volumePath volumeDir nm) fs))"

definition list_reply :: "storage_io \<Rightarrow> bytes \<Rightarrow> volume_info list \<Rightarrow> vl_error option \<times> volume_info list" where
  "list_reply io raw out =
     (case so_decList io raw of
        None \<Rightarrow> (Some (VPlain (ErrOther ''decode'')), out)
      | Some r \<Rightarrow>
          let info = (\<lambda>k. \<lparr>iv_name = lr_name r, iv_kind = k, iv_sizeBytes = lr_sizeBytes r, iv_readOnly = lr_readOnly r\<rparr>) in
          (None, if lr_type r = typeReg then out @ [info KindFile] else if lr_type r = typeBlk then out @ [info KindBlock] else out))"

definition SystemdProvider_List :: "storage_io \<Rightarrow> string \<Rightarrow> (volume_info list res \<times> vl_event list) option" where
  "SystemdProvider_List io glob =
     (case Varlink_Dial (so_dial io) (so_wire io) of
        Inl e \<Rightarrow> Some (Inl e, [])
      | Inr c \<Rightarrow>
          (case CallMore (so_call io) (so_dec io) methodListVolumes
                  (Some (so_encList io (if glob \<noteq> [] then [(''matchName'', glob)] else []))) (list_reply io) [] c of
             None \<Rightarrow> None
           | Some (Inl e, c') \<Rightarrow> Some (Inl (mapError e), cn_trace (Conn_Close c'))
           | Some (Inr out, c') \<Rightarrow> Some (Inr out, cn_trace (Conn_Close c'))))"

section \<open>Detection\<close>

definition storage_probe :: "storage_io \<Rightarrow> service_info res option" where
  "storage_probe io =
     (case Varlink_Dial (so_dial io) (so_wire io) of
        Inl e \<Rightarrow> Some (Inl e)
      | Inr c \<Rightarrow>
          (case Conn_Info (so_call io) (so_dec io) (so_decInfo io) c of
             None \<Rightarrow> None
           | Some (Inl (VPlain e), _) \<Rightarrow> Some (Inl e)
           | Some (Inl (VErr _ _), _) \<Rightarrow> Some (Inl (ErrOther ''varlink''))
           | Some (Inr info, _) \<Rightarrow>
               Some (if interfaceName \<in> set (si_interfaces info) then Inr info else Inl (ErrOther ''not implemented''))))"

definition StorageProviderDir :: string where "StorageProviderDir = ''/run/systemd/io.systemd.StorageProvider''"
definition StorageProviderFS :: string where "StorageProviderFS = ''fs''"
definition SystemSocket :: string where "SystemSocket = StorageProviderDir @ ''/'' @ StorageProviderFS"
definition SystemVolumeDir :: string where "SystemVolumeDir = ''/var/lib/storage''"

definition UserSocket :: "string \<Rightarrow> nat \<Rightarrow> string" where
  "UserSocket runtimeDir uid =
     (let d = if runtimeDir = [] then ''/run/user/'' @ Itoa (int uid) else runtimeDir in
      filepath_Join [d, ''systemd'', ''io.systemd.StorageProvider'', StorageProviderFS])"

definition UserVolumeDir :: "string \<Rightarrow> string option \<Rightarrow> string" where
  "UserVolumeDir stateHome home =
     (let d = if stateHome = [] then filepath_Join [case home of None \<Rightarrow> ''/'' | Some h \<Rightarrow> h, ''.local'', ''state''] else stateHome in
      filepath_Join [d, ''storage''])"

datatype provider = SystemdProvider string string | FileProvider string

definition systemdCandidates :: "nat \<Rightarrow> string \<times> string \<Rightarrow> (string \<times> string) list" where
  "systemdCandidates euid user =
     (if euid = 0 then [(SystemSocket, SystemVolumeDir), user] else [user, (SystemSocket, SystemVolumeDir)])"

text \<open>A candidate whose socket is missing or whose probe fails, also by the timeout of
  the probe, is passed over.\<close>

fun Detect :: "(string \<Rightarrow> bool) \<Rightarrow> (string \<Rightarrow> service_info res) \<Rightarrow> (string \<times> string) list \<Rightarrow> string \<Rightarrow> provider" where
  "Detect socketExists probe [] fallbackDir = FileProvider fallbackDir"
| "Detect socketExists probe ((socket, volumeDir) # cs) fallbackDir =
     (if \<not> socketExists socket then Detect socketExists probe cs fallbackDir
      else case probe socket of
        Inl _ \<Rightarrow> Detect socketExists probe cs fallbackDir
      | Inr _ \<Rightarrow> SystemdProvider socket volumeDir)"

section \<open>Descriptors of the systemd provider\<close>

lemma pickFile_count:
  "pickFile files i = (r, closed) \<Longrightarrow>
   count_list files fd = count_list closed fd + (case r of Inl _ \<Rightarrow> 0 | Inr f \<Rightarrow> count_list [f] fd)"
proof -
  assume p: "pickFile files i = (r, closed)"
  show ?thesis
  proof (cases "i < 0 \<or> i \<ge> int (length files)")
    case True
    with p show ?thesis by (auto simp: pickFile_def)
  next
    case False
    then have "files = take (nat i) files @ files ! nat i # drop (Suc (nat i)) files"
      by (intro id_take_nth_drop) auto
    then have "count_list files fd = count_list (take (nat i) files @ files ! nat i # drop (Suc (nat i)) files) fd" by simp
    with p False show ?thesis by (auto simp: pickFile_def)
  qed
qed

lemma newVolume_count:
  "newVolume nm path f stat blk ro = (r, closed) \<Longrightarrow>
   (case r of Inl _ \<Rightarrow> closed = [f] | Inr v \<Rightarrow> closed = [] \<and> vo_file v = Some f)"
  by (auto simp: newVolume_def Let_def split: sum.splits if_splits)

definition held :: "volume res \<Rightarrow> int list" where
  "held r = (case r of Inl _ \<Rightarrow> [] | Inr v \<Rightarrow> (case vo_file v of None \<Rightarrow> [] | Some f \<Rightarrow> [f]))"

lemma apsnd_eq_Pair: "apsnd g p = (a, b) \<longleftrightarrow> (\<exists>b'. p = (a, b') \<and> b = g b')"
  by (cases p) auto

lemma acquired_volume_count:
  assumes "acquired_volume io volumeDir nm rep files = (r, closed)"
  shows "count_list files fd = count_list closed fd + count_list (held r) fd"
proof -
  obtain p cl where p: "pickFile files (ar_fileDescriptorIndex rep) = (p, cl)" by fastforce
  note pc = pickFile_count [OF p, of fd]
  show ?thesis
  proof (cases p)
    case (Inl e)
    then show ?thesis using assms p pc by (auto simp: acquired_volume_def held_def)
  next
    case (Inr f)
    then show ?thesis using assms p pc
      by (auto simp: acquired_volume_def held_def apsnd_eq_Pair split: if_splits sum.splits dest!: newVolume_count)
  qed
qed

text \<open>A call never reports a descriptor as kept: only a callback does.\<close>

definition kept_free :: "vl_conn \<Rightarrow> bool" where
  "kept_free c \<longleftrightarrow> (\<forall>fd. FdKept fd \<notin> set (cn_trace c))"

lemma kept_free_simps [simp]:
  "kept_free (closeFiles fs c) \<longleftrightarrow> kept_free c" "kept_free (c\<lparr>cn_wire := ws\<rparr>) \<longleftrightarrow> kept_free c"
  "kept_free (c\<lparr>cn_rbuf := b\<rparr>) \<longleftrightarrow> kept_free c"
  by (auto simp: kept_free_def)

lemma kept_free_shutdown [simp]: "kept_free (shutdown e c) \<longleftrightarrow> kept_free c"
  by (auto simp: shutdown_def kept_free_def)

lemma kept_free_rights: "kept_free c \<Longrightarrow> collectRights ms l c = (e, c') \<Longrightarrow> kept_free c'"
  by (induction ms l c rule: collectRights.induct) (auto simp: kept_free_def)

lemma kept_free_read: "kept_free c \<Longrightarrow> vl_read w c = (e, c') \<Longrightarrow> kept_free c'"
  by (auto simp: vl_read_def vl_read_rights_def Let_def split: option.splits prod.splits sum.splits if_splits
      dest: kept_free_rights)

lemma kept_free_receive: "kept_free c \<Longrightarrow> receive dec c = Some (r, c') \<Longrightarrow> kept_free c'"
  unfolding receive_def
  by (rule receive_loop_rule [where I = "\<lambda>ws. kept_free" and Q = "\<lambda>r. kept_free"])
    (auto simp: vl_message_def takeFiles_def Let_def kept_free_def split: option.splits
      dest: kept_free_read [unfolded kept_free_def, rule_format, rotated])

lemma kept_free_send: "kept_free c \<Longrightarrow> vl_send io q c = (e, c') \<Longrightarrow> kept_free c'"
  by (auto simp: vl_send_def kept_free_def split: if_splits option.splits)

lemma kept_free_single:
  assumes "kept_free c" "single_exchange io dec q c = Some (r, c')"
  shows "kept_free c'"
proof -
  obtain e c1 where s: "vl_send io q c = (e, c1)" by fastforce
  note k = kept_free_send [OF assms(1) s]
  show ?thesis
  proof (cases e)
    case (Some e')
    then show ?thesis using assms(2) s k by (auto simp: single_exchange_def)
  next
    case None
    then obtain p c2 where p: "receive dec c1 = Some (p, c2)" using assms(2) s
      by (cases "receive dec c1") (auto simp: single_exchange_def)
    show ?thesis using kept_free_receive [OF k p] assms(2) s None p
      by (auto simp: single_exchange_def split: sum.splits prod.splits if_splits)
  qed
qed

lemma kept_free_do_error: "kept_free c \<Longrightarrow> do_error io e c = (e', c') \<Longrightarrow> kept_free c'"
  by (auto simp: do_error_def Let_def split: option.splits exch_error.splits vl_error.splits)

lemma kept_free_do:
  assumes "kept_free c" "\<And>r c'. fn c = Some (r, c') \<Longrightarrow> kept_free c'" "Conn_do io fn c = Some (r, c')"
  shows "kept_free c'"
proof (cases "cn_err c = None \<and> ci_before io = None")
  case True
  then obtain p c1 where f: "fn c = Some (p, c1)" using assms(3)
    by (cases "fn c") (auto simp: Conn_do_def)
  show ?thesis
  proof (cases p)
    case (Inl e)
    obtain e' c2 where d: "do_error io e c1 = (e', c2)" by fastforce
    with kept_free_do_error [OF assms(2) [OF f] d] Inl f True assms(3) show ?thesis by (auto simp: Conn_do_def)
  next
    case (Inr x)
    with assms(2) [OF f] f True assms(3) show ?thesis by (auto simp: Conn_do_def)
  qed
next
  case False
  then show ?thesis using assms(1,3) by (auto simp: Conn_do_def split: option.splits)
qed

lemma kept_free_CallWithFiles:
  assumes "kept_free c" "CallWithFiles io dec m ps z un c = Some (r, c')"
  shows "kept_free c'"
proof -
  let ?req = "\<lparr>vq_method = m, vq_parameters = orEmpty ps, vq_more = False, vq_oneway = False\<rparr>"
  obtain q c1 where q: "Conn_do io (single_exchange io dec ?req) c = Some (q, c1)"
    using assms(2) by (cases "Conn_do io (single_exchange io dec ?req) c") (auto simp: CallWithFiles_def)
  have "kept_free c1" by (rule kept_free_do [OF assms(1) _ q]) (rule kept_free_single [OF assms(1)])
  then show ?thesis using assms(2) q
    by (auto simp: CallWithFiles_def split: sum.splits prod.splits option.splits)
qed

lemma kept_free_count: "kept_free c \<Longrightarrow> count_list (cn_trace c) (FdKept fd) = 0"
  by (simp add: kept_free_def)

text \<open>After the deferred \<open>Close\<close>, a received descriptor was closed or is one of \<open>files\<close>.\<close>

lemma closed_or_held:
  assumes "fd_balance fd files c" "conn_ok c" "kept_free c"
  shows "count_list (cn_trace (Conn_Close c)) (FdReceived fd) =
    count_list (cn_trace (Conn_Close c)) (FdClosed fd) + count_list files fd"
  using balance_closed [OF assms(1,2)] kept_free_count [of "Conn_Close c" fd] assms(3) by (simp add: Conn_Close_def)

lemma acquire_balance:
  assumes "SystemdProvider_Acquire io volumeDir sp = Some (r, tr)" "0 \<le> fd"
  shows "count_list tr (FdReceived fd) = count_list tr (FdClosed fd) + count_list (held r) fd"
proof (cases "\<exists>c. validateName (as_name sp) = Inr () \<and> \<not> as_sizeBytes sp < 0 \<and> Varlink_Dial (so_dial io) (so_wire io) = Inr c")
  case True
  then obtain c where v: "validateName (as_name sp) = Inr ()" "\<not> as_sizeBytes sp < 0"
    and d: "Varlink_Dial (so_dial io) (so_wire io) = Inr c" by blast
  note fresh = dial_fresh [OF d]
  let ?call = "CallWithFiles (so_call io) (so_dec io) methodAcquire (Some (so_encAcquire io (acquireParams sp)))
    \<lparr>ar_fileDescriptorIndex = 0, ar_type = [], ar_readOnly = False\<rparr> (so_decAcquire io) c"
  obtain q c' where q: "?call = Some (q, c')"
    using assms(1) v d by (cases ?call) (auto simp: SystemdProvider_Acquire_def)
  have kf: "kept_free c" using fresh(8) by (simp add: kept_free_def)
  note post = balance_CallWithFiles [OF fresh(2) assms(2) q] CallWithFiles_ok [OF fresh(1) q] kept_free_CallWithFiles [OF kf q]
  show ?thesis
  proof (cases q)
    case (Inl e)
    then have r: "r = Inl (mapError e)" "tr = cn_trace (Conn_Close c')"
      using assms(1) v d q by (auto simp: SystemdProvider_Acquire_def)
    show ?thesis using closed_or_held [of fd "[]" c'] post Inl unfolding r by (simp add: held_def)
  next
    case (Inr rf)
    obtain rep files where rf: "rf = (rep, files)" by (cases rf)
    obtain r' closed where a: "acquired_volume io volumeDir (as_name sp) rep files = (r', closed)" by fastforce
    have r: "r = r'" "tr = cn_trace (Conn_Close (closeFiles closed c'))"
      using assms(1) v d q Inr rf a by (auto simp: SystemdProvider_Acquire_def)
    have "fd_balance fd (closed @ held r') c'"
      using post(1) Inr rf acquired_volume_count [OF a, of fd] by (simp add: fd_balance_def)
    then have "fd_balance fd (held r') (closeFiles closed c')" by (rule balance_closeFiles)
    with closed_or_held [of fd "held r'" "closeFiles closed c'"] post show ?thesis unfolding r by simp
  qed
next
  case False
  then show ?thesis using assms(1)
    by (auto simp: SystemdProvider_Acquire_def held_def split: sum.splits if_splits)
qed

text \<open>
  C28. Acquiring a volume from the systemd provider leaks no descriptor: whatever the
  service sends and wherever the call fails, every descriptor received on the
  connection is closed exactly once, except the one the returned volume holds.
\<close>

theorem systemd_acquire_no_leak:
  assumes "SystemdProvider_Acquire io volumeDir sp = Some (r, tr)" "0 \<le> fd"
  shows "count_list tr (FdReceived fd) = count_list tr (FdClosed fd) + count_list (held r) fd"
  using assms by (rule acquire_balance)

text \<open>A service that answers with two descriptors, the second of them the volume.\<close>

definition demo_storage :: storage_io where
  "demo_storage =
     \<lparr>so_dial = None,
      so_wire = [\<lparr>rm_data = [1, 0], rm_oob = Some (Inr [CRights [7, 8]]), rm_ctrunc = False, rm_err = None\<rparr>],
      so_call = demo_call, so_dec = (\<lambda>m. Some \<lparr>vr_parameters = [1], vr_continues = False, vr_error = []\<rparr>),
      so_encAcquire = (\<lambda>_. []), so_decAcquire = (\<lambda>_. Some \<lparr>ar_fileDescriptorIndex = 1, ar_type = typeReg, ar_readOnly = False\<rparr>),
      so_encList = (\<lambda>_. []), so_decList = (\<lambda>_. None), so_decInfo = (\<lambda>_. None),
      so_fstat = (\<lambda>_. Inr (empty_file 3)), so_stat = (\<lambda>_. Some (empty_file 3)), so_readlink = (\<lambda>_. None),
      so_seekEnd = (\<lambda>_. Inr 0), so_seekStart = (\<lambda>_. Inr ())\<rparr>"

lemma demo_storage_acquires:
  "\<exists>r tr. SystemdProvider_Acquire demo_storage [] (demo_spec CreateNew 10) = Some (r, tr) \<and> held r = [8]"
  by (simp add: SystemdProvider_Acquire_def demo_storage_def demo_spec_def validateName_def VolumeSuffix_def Varlink_Dial_def
      CallWithFiles_def Conn_do_def demo_call_def single_exchange_def vl_send_def receive_def receive_loop.simps vl_read_def
      vl_read_rights_def vl_message_def takeFiles_def maxMessageSize_def last_offset_def vl_decode_def acquired_volume_def
      pickFile_def resolvePath_def newVolume_def empty_file_def held_def bytes_string_def typeReg_def typeBlk_def)

theorem systemd_acquire_no_leak_witness:
  "\<exists>r tr. SystemdProvider_Acquire demo_storage [] (demo_spec CreateNew 10) = Some (r, tr) \<and>
     count_list tr (FdReceived 8) = count_list tr (FdClosed 8) + 1 \<and> count_list tr (FdReceived 7) = count_list tr (FdClosed 7)"
proof -
  obtain r tr where a: "SystemdProvider_Acquire demo_storage [] (demo_spec CreateNew 10) = Some (r, tr)" "held r = [8]"
    using demo_storage_acquires by blast
  from systemd_acquire_no_leak [OF a(1), of 8] systemd_acquire_no_leak [OF a(1), of 7] a show ?thesis by simp
qed

text \<open>A listing closes every descriptor it is sent.\<close>

lemma list_no_leak:
  assumes "SystemdProvider_List io glob = Some (r, tr)" "0 \<le> fd" "FdKept fd \<notin> set tr"
  shows "count_list tr (FdReceived fd) = count_list tr (FdClosed fd)"
proof (cases "Varlink_Dial (so_dial io) (so_wire io)")
  case (Inl e)
  then show ?thesis using assms(1) by (auto simp: SystemdProvider_List_def)
next
  case (Inr c)
  note fresh = dial_fresh [OF Inr]
  let ?call = "CallMore (so_call io) (so_dec io) methodListVolumes
    (Some (so_encList io (if glob \<noteq> [] then [(''matchName'', glob)] else []))) (list_reply io) [] c"
  obtain q c' where q: "?call = Some (q, c')"
    using assms(1) Inr by (cases ?call) (auto simp: SystemdProvider_List_def)
  have "tr = cn_trace (Conn_Close c')"
    using assms(1) Inr q by (auto simp: SystemdProvider_List_def split: sum.splits)
  with balance_closed [OF balance_CallMore [OF fresh(2) assms(2) q] CallMore_ok [OF fresh(1) q]] assms(3)
  show ?thesis by simp
qed

text \<open>A volume the systemd provider returns has a path that names its descriptor's inode.\<close>

lemma resolved_path_same_file:
  assumes "resolvePath io volumeDir nm f = Inr path"
  shows "\<exists>fi pi. so_fstat io f = Inr fi \<and> so_stat io path = Some pi \<and> fi_ino pi = fi_ino fi"
  using assms
  by (auto simp: resolvePath_def Let_def find_Some_iff split: sum.splits option.splits if_splits)

text \<open>The provider detection picks is the first candidate that answers, and the file
  provider only when none does.\<close>

lemma Detect_first:
  "Detect ex pr cs d =
     (case find (\<lambda>(s, v). ex s \<and> (case pr s of Inl _ \<Rightarrow> False | Inr _ \<Rightarrow> True)) cs of
        Some (s, v) \<Rightarrow> SystemdProvider s v | None \<Rightarrow> FileProvider d)"
  by (induction ex pr cs d rule: Detect.induct) (auto split: sum.splits)

end
