(* ===== verification/Api.thy ===== *)
theory Api
  imports VM_Exec Go_Http
begin

text \<open>
  The two programming interfaces, \<open>src/internal/api\<close>: REST under \<open>/api/v1\<close>
  (\<open>rest.go\<close>), the MCP tools (\<open>mcp.go\<close>) and the request types and adapters they share
  (\<open>vm.go\<close>).  The domain services are the operations of the record \<open>services\<close>;
  \<open>vm_services\<close> instantiates them with the model of the VM service and the image
  catalog.  Decoding JSON and the argument accessors of the MCP library are arguments,
  an error body keeps the code and not the message.  An operation that does not return
  (\<open>Create\<close> drawing ids forever) has no result.
\<close>

section \<open>Requests and answers\<close>

definition DefaultCPUs :: int where "DefaultCPUs = 2"
definition DefaultMemoryMiB :: int where "DefaultMemoryMiB = 2048"
definition DefaultDiskGiB :: int where "DefaultDiskGiB = 20"
definition DefaultNetwork :: string where "DefaultNetwork = ''default''"
definition DefaultConsoleLines :: int where "DefaultConsoleLines = 100"

record create_network_request =
  cn_name :: string
  cn_cidr :: string
  cn_dnsSearchDomain :: string

definition CreateNetworkRequest_spec :: "create_network_request \<Rightarrow> net_spec" where
  "CreateNetworkRequest_spec r =
     \<lparr>sp_name = cn_name r, sp_cidr = cn_cidr r, sp_gatewayIP = [], sp_dnsSearchDomain = cn_dnsSearchDomain r,
      sp_enableIMDS = True, sp_enableHostAlias = False\<rparr>"

record create_vm_request =
  cv_name :: string
  cv_image :: string
  cv_kubernetesVersion :: string
  cv_cpus :: int
  cv_memoryMiB :: int
  cv_diskGiB :: int
  cv_network :: string
  cv_userData :: string
  cv_sshAuthorizedKeys :: "string list"
  cv_hostname :: string
  cv_metadata :: "(string, string) gomap"
  cv_requireAttestation :: "bool option"
  cv_waitFor :: string

definition string_bytes :: "string \<Rightarrow> bytes" where
  "string_bytes s = map (\<lambda>c. word_of_nat (ord c)) s"

definition CreateVMRequest_spec :: "string \<Rightarrow> create_vm_request \<Rightarrow> vm_spec" where
  "CreateVMRequest_spec defaultNetwork r =
     \<lparr>vsp_name = cv_name r, vsp_image = cv_image r, vsp_kubernetesVersion = cv_kubernetesVersion r,
      vsp_cpus = (if cv_cpus r = 0 then DefaultCPUs else cv_cpus r),
      vsp_memoryMiB = (if cv_memoryMiB r = 0 then DefaultMemoryMiB else cv_memoryMiB r),
      vsp_diskGiB = (if cv_diskGiB r = 0 then DefaultDiskGiB else cv_diskGiB r),
      vsp_network = (if cv_network r = [] then defaultNetwork else cv_network r),
      vsp_userData = string_bytes (cv_userData r),
      vsp_sshAuthorizedKeys = cv_sshAuthorizedKeys r, vsp_hostname = cv_hostname r, vsp_metadata = cv_metadata r,
      vsp_region = [], vsp_zone = [],
      vsp_requireAttestation = (case cv_requireAttestation r of None \<Rightarrow> True | Some b \<Rightarrow> b),
      vsp_waitFor = (if cv_waitFor r = [] then WaitReady else cv_waitFor r)\<rparr>"

record console_response =
  cr_id :: string
  cr_lines :: int
  cr_console :: string

datatype metrics_note = NoNote | MetricsNote | MetricsUnparsedNote

record 'm metrics_response =
  mr_id :: string
  mr_metrics :: 'm
  mr_rawReportURL :: string
  mr_note :: metrics_note

record forward_response =
  fr_id :: string
  fr_port :: int
  fr_address :: string

text \<open>What a body or a tool result encodes; \<open>'h\<close> is the host report, \<open>'m\<close> the metrics of
  one VM.\<close>

datatype ('h, 'm) api_value =
    AInfo "string list"
  | AHost 'h
  | AImages "image list"
  | AImage image
  | ANetworks "network_info list"
  | ANetwork network_info
  | AVMs "vm list"
  | AVM "vm option"
  | AConsole console_response
  | AMetrics "'m metrics_response"
  | AAttestation attestation
  | ADeleted string
  | AExec exec_result
  | AForward forward_response
  | AReport bytes
  | AReportText bytes
  | AOpenAPI
  | AError string
  | ANothing

section \<open>The services\<close>

text \<open>Reading operations take the state, the others also return it.  The metrics of a VM
  come with whether they have a guest part.\<close>

record ('s, 'h, 'm) services =
  op_host :: "'s \<Rightarrow> 'h res"
  op_images :: "'s \<Rightarrow> image list"
  op_image :: "'s \<Rightarrow> string \<Rightarrow> image res"
  op_networks :: "'s \<Rightarrow> network_info list"
  op_network :: "'s \<Rightarrow> string \<Rightarrow> network_info res"
  op_vms :: "'s \<Rightarrow> vm list"
  op_vm :: "'s \<Rightarrow> string \<Rightarrow> vm res"
  op_console :: "'s \<Rightarrow> string \<Rightarrow> int \<Rightarrow> string res"
  op_report :: "'s \<Rightarrow> string \<Rightarrow> bytes res"
  op_metrics :: "'s \<Rightarrow> string \<Rightarrow> ('m \<times> bool) option"
  op_attestation :: "'s \<Rightarrow> string \<Rightarrow> attestation res"
  op_createNetwork :: "net_spec \<Rightarrow> 's \<Rightarrow> network_info res \<times> 's"
  op_deleteNetwork :: "string \<Rightarrow> 's \<Rightarrow> unit res \<times> 's"
  op_create :: "vm_spec \<Rightarrow> 's \<Rightarrow> ((vm option \<times> error option) \<times> 's) option"
  op_start :: "string \<Rightarrow> 's \<Rightarrow> vm res \<times> 's"
  op_stop :: "string \<Rightarrow> 's \<Rightarrow> vm res \<times> 's"
  op_reboot :: "string \<Rightarrow> 's \<Rightarrow> vm res \<times> 's"
  op_delete :: "string \<Rightarrow> 's \<Rightarrow> unit res \<times> 's"
  op_exec :: "string \<Rightarrow> string list \<Rightarrow> 's \<Rightarrow> exec_result res \<times> 's"
  op_forward :: "string \<Rightarrow> int \<Rightarrow> 's \<Rightarrow> string res \<times> 's"
  op_defaultNetwork :: string

definition defaultNetwork :: "('s, 'h, 'm) services \<Rightarrow> string" where
  "defaultNetwork d = (if op_defaultNetwork d = [] then DefaultNetwork else op_defaultNetwork d)"

definition Prefix :: string where "Prefix = ''/api/v1''"

definition reportPath :: "string \<Rightarrow> string" where
  "reportPath i = Prefix @ ''/vms/'' @ i @ ''/report''"

text \<open>\<open>createVM\<close> only extends the message of an error that comes with a record.\<close>

definition svc_createVM :: "('s, 'h, 'm) services \<Rightarrow> create_vm_request \<Rightarrow> 's \<Rightarrow> (vm option res \<times> 's) option" where
  "svc_createVM d req s =
     (case op_create d (CreateVMRequest_spec (defaultNetwork d) req) s of
        None \<Rightarrow> None
      | Some ((v, Some e), s') \<Rightarrow> Some (Inl e, s')
      | Some ((v, None), s') \<Rightarrow> Some (Inr v, s'))"

definition svc_console :: "('s, 'h, 'm) services \<Rightarrow> string \<Rightarrow> int \<Rightarrow> 's \<Rightarrow> console_response res" where
  "svc_console d i lines s =
     (let n = (if lines \<le> 0 then DefaultConsoleLines else lines) in
      bindE (op_console d s i n) (\<lambda>out. Inr \<lparr>cr_id = i, cr_lines = n, cr_console = out\<rparr>))"

definition svc_metrics :: "('s, 'h, 'm) services \<Rightarrow> string \<Rightarrow> 's \<Rightarrow> 'm metrics_response res" where
  "svc_metrics d i s =
     bindE (op_report d s i) (\<lambda>report.
       case op_metrics d s i of
         None \<Rightarrow> Inl ErrNotFound
       | Some (m, guest) \<Rightarrow>
           Inr (if length report > 0
                then \<lparr>mr_id = i, mr_metrics = m, mr_rawReportURL = reportPath i, mr_note = (if guest then NoNote else MetricsUnparsedNote)\<rparr>
                else \<lparr>mr_id = i, mr_metrics = m, mr_rawReportURL = [], mr_note = MetricsNote\<rparr>))"

definition svc_report :: "('s, 'h, 'm) services \<Rightarrow> string \<Rightarrow> 's \<Rightarrow> bytes res" where
  "svc_report d i s = bindE (op_report d s i) (\<lambda>report. if length report = 0 then Inl ErrNotFound else Inr report)"

definition svc_forward :: "('s, 'h, 'm) services \<Rightarrow> string \<Rightarrow> int \<Rightarrow> 's \<Rightarrow> forward_response res \<times> 's" where
  "svc_forward d i port s =
     apfst (map_sum id (\<lambda>addr. \<lparr>fr_id = i, fr_port = port, fr_address = addr\<rparr>)) (op_forward d i port s)"

text \<open>The answer of the delete tools is the id.\<close>

definition svc_deleteVM :: "('s, 'h, 'm) services \<Rightarrow> string \<Rightarrow> 's \<Rightarrow> string res \<times> 's" where
  "svc_deleteVM d i s = apfst (map_sum id (\<lambda>_. i)) (op_delete d i s)"

definition svc_deleteNetwork :: "('s, 'h, 'm) services \<Rightarrow> string \<Rightarrow> 's \<Rightarrow> string res \<times> 's" where
  "svc_deleteNetwork d n s = apfst (map_sum id (\<lambda>_. n)) (op_deleteNetwork d n s)"

section \<open>REST\<close>

definition MaxBodyBytes :: nat where "MaxBodyBytes = 8 * 2 ^ 20"

text \<open>The decoders read the first JSON value and refuse unknown fields; \<open>jv_valid\<close> is
  \<open>json.Valid\<close>.\<close>

record api_json =
  jv_createNetwork :: "bytes \<Rightarrow> create_network_request option"
  jv_createVM :: "bytes \<Rightarrow> create_vm_request option"
  jv_exec :: "bytes \<Rightarrow> string list option"
  jv_forward :: "bytes \<Rightarrow> int option"
  jv_valid :: "bytes \<Rightarrow> bool"

text \<open>\<open>rq_lines\<close> is the query parameter \<open>lines\<close>, empty when absent.\<close>

record rest_request = http_request +
  rq_lines :: string

type_synonym ('h, 'm) rest_response = "('h, 'm) api_value http_response"

definition StatusNoContent :: nat where "StatusNoContent = 204"

definition writeJSON :: "nat \<Rightarrow> ('h, 'm) api_value \<Rightarrow> ('h, 'm) rest_response" where
  "writeJSON status v = \<lparr>rs_status = status, rs_header = [(''Content-Type'', ''application/json'')], rs_body = v\<rparr>"

definition rest_writeError :: "error \<Rightarrow> ('h, 'm) rest_response" where
  "rest_writeError e = (case rest_statusFor e of (status, code) \<Rightarrow> writeJSON status (AError code))"

definition respond :: "nat \<Rightarrow> ('h, 'm) api_value res \<Rightarrow> ('h, 'm) rest_response" where
  "respond status r =
     (case r of
        Inl e \<Rightarrow> rest_writeError e
      | Inr v \<Rightarrow>
          if status = StatusNoContent then \<lparr>rs_status = status, rs_header = [], rs_body = ANothing\<rparr>
          else writeJSON status v)"

definition rest_decode :: "(bytes \<Rightarrow> 'a option) \<Rightarrow> bytes \<Rightarrow> 'a res" where
  "rest_decode dec body = (case dec (take MaxBodyBytes body) of None \<Rightarrow> Inl ErrInvalid | Some v \<Rightarrow> Inr v)"

datatype rest_handler =
    GetOpenAPI | GetHost | ListImages | GetImage | HListNetworks | HCreateNetwork | HGetNetwork | HDeleteNetwork
  | ListVMs | CreateVM | GetVM | DeleteVM | StartVM | StopVM | RebootVM | ExecVM | ForwardPort
  | GetVMConsole | GetVMAttestation | GetVMMetrics | GetVMReport | NotFound

definition MethodDelete :: string where "MethodDelete = ''DELETE''"

definition rest_Register :: "rest_handler route list" where
  "rest_Register = map (\<lambda>(m, p, h). \<lparr>rt_method = m, rt_segs = parsePattern (Prefix @ p), rt_handler = h\<rparr>)
     [(MethodGet, ''/openapi.yaml'', GetOpenAPI),
      (MethodGet, ''/host'', GetHost),
      (MethodGet, ''/images'', ListImages),
      (MethodGet, ''/images/{ref}'', GetImage),
      (MethodGet, ''/networks'', HListNetworks),
      (MethodPost, ''/networks'', HCreateNetwork),
      (MethodGet, ''/networks/{name}'', HGetNetwork),
      (MethodDelete, ''/networks/{name}'', HDeleteNetwork),
      (MethodGet, ''/vms'', ListVMs),
      (MethodPost, ''/vms'', CreateVM),
      (MethodGet, ''/vms/{id}'', GetVM),
      (MethodDelete, ''/vms/{id}'', DeleteVM),
      (MethodPost, ''/vms/{id}/start'', StartVM),
      (MethodPost, ''/vms/{id}/stop'', StopVM),
      (MethodPost, ''/vms/{id}/reboot'', RebootVM),
      (MethodPost, ''/vms/{id}/exec'', ExecVM),
      (MethodPost, ''/vms/{id}/forward'', ForwardPort),
      (MethodGet, ''/vms/{id}/console'', GetVMConsole),
      (MethodGet, ''/vms/{id}/attestation'', GetVMAttestation),
      (MethodGet, ''/vms/{id}/metrics'', GetVMMetrics),
      (MethodGet, ''/vms/{id}/report'', GetVMReport)]"

text \<open>The last pattern, \<open>/api/v1/\<close> without a method, is a subtree: it takes every request
  below the prefix that no other pattern takes, and the prefix itself is redirected to
  it.  A path outside the prefix is not the business of these routes.\<close>

definition rest_mux :: "string \<Rightarrow> string \<Rightarrow> rest_handler mux_result" where
  "rest_mux meth escaped =
     (let path = cleanPath escaped; found = mux_match rest_Register meth path in
      if found = None \<and> last path \<noteq> CHR ''/'' \<and> path_segs (path @ ''/'') = [''api'', ''v1'', ''/''] then Moved (path @ ''/'')
      else if path \<noteq> escaped then Moved path
      else
        (case found of
           Some (r, vs) \<Rightarrow> Matched (rt_handler r) vs
         | None \<Rightarrow>
             if take 2 (path_segs path) = [''api'', ''v1''] \<and> length (path_segs path) \<ge> 3 then Matched NotFound []
             else NoMatch))"

definition read_only :: "'s \<Rightarrow> 'r \<Rightarrow> ('r \<times> 's) option" where
  "read_only s r = Some (r, s)"

text \<open>\<open>PathValue\<close> of the route's one wildcard.\<close>

definition pathValue :: "string list \<Rightarrow> string" where
  "pathValue vs = (case vs of [] \<Rightarrow> [] | v # _ \<Rightarrow> v)"

definition vmOp :: "(string \<Rightarrow> 's \<Rightarrow> vm res \<times> 's) \<Rightarrow> string \<Rightarrow> 's \<Rightarrow> (('h, 'm) rest_response \<times> 's) option" where
  "vmOp f i s = Some (apfst (\<lambda>r. respond 200 (map_sum id (\<lambda>v. AVM (Some v)) r)) (f i s))"

definition getVMConsole :: "('s, 'h, 'm) services \<Rightarrow> string \<Rightarrow> string \<Rightarrow> 's \<Rightarrow> ('h, 'm) rest_response" where
  "getVMConsole d lines i s =
     (if lines = [] then respond 200 (map_sum id AConsole (svc_console d i DefaultConsoleLines s))
      else case Atoi lines of
        None \<Rightarrow> rest_writeError ErrInvalid
      | Some n \<Rightarrow> respond 200 (map_sum id AConsole (svc_console d i n s)))"

definition getVMReport :: "('s, 'h, 'm) services \<Rightarrow> api_json \<Rightarrow> string \<Rightarrow> 's \<Rightarrow> ('h, 'm) rest_response" where
  "getVMReport d js i s =
     (case svc_report d i s of
        Inl e \<Rightarrow> rest_writeError e
      | Inr report \<Rightarrow> writeJSON 200 (if jv_valid js report then AReport report else AReportText report))"

definition rest_handle ::
  "('s, 'h, 'm) services \<Rightarrow> api_json \<Rightarrow> rest_request \<Rightarrow> rest_handler \<Rightarrow> string \<Rightarrow> 's \<Rightarrow> (('h, 'm) rest_response \<times> 's) option" where
  "rest_handle d js r h i s =
     (case h of
        GetOpenAPI \<Rightarrow> read_only s \<lparr>rs_status = 200, rs_header = [(''Content-Type'', ''application/yaml'')], rs_body = AOpenAPI\<rparr>
      | GetHost \<Rightarrow> read_only s (respond 200 (map_sum id AHost (op_host d s)))
      | ListImages \<Rightarrow> read_only s (writeJSON 200 (AImages (op_images d s)))
      | GetImage \<Rightarrow> read_only s (respond 200 (map_sum id AImage (op_image d s i)))
      | HListNetworks \<Rightarrow> read_only s (writeJSON 200 (ANetworks (op_networks d s)))
      | HCreateNetwork \<Rightarrow>
          (case rest_decode (jv_createNetwork js) (hq_body r) of
             Inl e \<Rightarrow> Some (rest_writeError e, s)
           | Inr body \<Rightarrow> Some (apfst (\<lambda>x. respond 201 (map_sum id ANetwork x)) (op_createNetwork d (CreateNetworkRequest_spec body) s)))
      | HGetNetwork \<Rightarrow> read_only s (respond 200 (map_sum id ANetwork (op_network d s i)))
      | HDeleteNetwork \<Rightarrow> Some (apfst (\<lambda>x. respond StatusNoContent (map_sum id ADeleted x)) (svc_deleteNetwork d i s))
      | ListVMs \<Rightarrow> read_only s (writeJSON 200 (AVMs (op_vms d s)))
      | CreateVM \<Rightarrow>
          (case rest_decode (jv_createVM js) (hq_body r) of
             Inl e \<Rightarrow> Some (rest_writeError e, s)
           | Inr body \<Rightarrow> map_option (apfst (\<lambda>x. respond 201 (map_sum id AVM x))) (svc_createVM d body s))
      | GetVM \<Rightarrow> read_only s (respond 200 (map_sum id (\<lambda>v. AVM (Some v)) (op_vm d s i)))
      | DeleteVM \<Rightarrow> Some (apfst (\<lambda>x. respond StatusNoContent (map_sum id ADeleted x)) (svc_deleteVM d i s))
      | StartVM \<Rightarrow> vmOp (op_start d) i s
      | StopVM \<Rightarrow> vmOp (op_stop d) i s
      | RebootVM \<Rightarrow> vmOp (op_reboot d) i s
      | ExecVM \<Rightarrow>
          (case rest_decode (jv_exec js) (hq_body r) of
             Inl e \<Rightarrow> Some (rest_writeError e, s)
           | Inr command \<Rightarrow> Some (apfst (\<lambda>x. respond 200 (map_sum id AExec x)) (op_exec d i command s)))
      | ForwardPort \<Rightarrow>
          (case rest_decode (jv_forward js) (hq_body r) of
             Inl e \<Rightarrow> Some (rest_writeError e, s)
           | Inr port \<Rightarrow> Some (apfst (\<lambda>x. respond 200 (map_sum id AForward x)) (svc_forward d i port s)))
      | GetVMConsole \<Rightarrow> read_only s (getVMConsole d (rq_lines r) i s)
      | GetVMAttestation \<Rightarrow> read_only s (respond 200 (map_sum id AAttestation (op_attestation d s i)))
      | GetVMMetrics \<Rightarrow> read_only s (respond 200 (map_sum id AMetrics (svc_metrics d i s)))
      | GetVMReport \<Rightarrow> read_only s (getVMReport d js i s)
      | NotFound \<Rightarrow> read_only s (rest_writeError ErrNotFound))"

definition rest_serve ::
  "('s, 'h, 'm) services \<Rightarrow> api_json \<Rightarrow> rest_request \<Rightarrow> 's \<Rightarrow> (('h, 'm) api_value http_answer \<times> 's) option" where
  "rest_serve d js r s =
     (case rest_mux (hq_method r) (hq_path r) of
        Matched h vs \<Rightarrow> map_option (apfst Response) (rest_handle d js r h (pathValue vs) s)
      | Moved p \<Rightarrow> Some (Redirect_To p, s)
      | Disallowed ms \<Rightarrow> Some (Method_Not_Allowed ms, s)
      | NoMatch \<Rightarrow> Some (Page_Not_Found, s))"

section \<open>MCP tools\<close>

datatype tool =
    ToolGetInfo | ToolGetHost | ToolListImages | ToolGetImage | ToolListNetworks | ToolGetNetwork | ToolListVMs | ToolGetVM
  | ToolGetVMConsole | ToolGetVMMetrics | ToolGetVMAttestation | ToolCreateNetwork | ToolDeleteNetwork | ToolCreateVM
  | ToolStartVM | ToolStopVM | ToolRebootVM | ToolDeleteVM | ToolExecVM | ToolForwardPort

fun tool_name :: "tool \<Rightarrow> string" where
  "tool_name ToolGetInfo = ''get_info''"
| "tool_name ToolGetHost = ''get_host''"
| "tool_name ToolListImages = ''list_images''"
| "tool_name ToolGetImage = ''get_image''"
| "tool_name ToolListNetworks = ''list_networks''"
| "tool_name ToolGetNetwork = ''get_network''"
| "tool_name ToolListVMs = ''list_vms''"
| "tool_name ToolGetVM = ''get_vm''"
| "tool_name ToolGetVMConsole = ''get_vm_console''"
| "tool_name ToolGetVMMetrics = ''get_vm_metrics''"
| "tool_name ToolGetVMAttestation = ''get_vm_attestation''"
| "tool_name ToolCreateNetwork = ''create_network''"
| "tool_name ToolDeleteNetwork = ''delete_network''"
| "tool_name ToolCreateVM = ''create_vm''"
| "tool_name ToolStartVM = ''start_vm''"
| "tool_name ToolStopVM = ''stop_vm''"
| "tool_name ToolRebootVM = ''reboot_vm''"
| "tool_name ToolDeleteVM = ''delete_vm''"
| "tool_name ToolExecVM = ''exec_vm''"
| "tool_name ToolForwardPort = ''forward_port''"

definition ToolNames :: "string list" where
  "ToolNames = map tool_name
     [ToolGetInfo, ToolGetHost, ToolListImages, ToolGetImage, ToolListNetworks, ToolGetNetwork,
      ToolListVMs, ToolGetVM, ToolGetVMConsole, ToolGetVMMetrics, ToolGetVMAttestation,
      ToolCreateNetwork, ToolDeleteNetwork, ToolCreateVM, ToolStartVM, ToolStopVM,
      ToolRebootVM, ToolDeleteVM, ToolExecVM, ToolForwardPort]"

record hints =
  hi_readOnly :: bool
  hi_destructive :: bool
  hi_idempotent :: bool
  hi_openWorld :: bool

definition hintRead :: hints where "hintRead = \<lparr>hi_readOnly = True, hi_destructive = False, hi_idempotent = True, hi_openWorld = False\<rparr>"
definition hintWrite :: hints where "hintWrite = \<lparr>hi_readOnly = False, hi_destructive = False, hi_idempotent = False, hi_openWorld = False\<rparr>"
definition hintIdempotent :: hints where "hintIdempotent = hintWrite\<lparr>hi_idempotent := True\<rparr>"
definition hintDestructive :: hints where "hintDestructive = hintWrite\<lparr>hi_destructive := True, hi_idempotent := True\<rparr>"
definition hintExec :: hints where "hintExec = hintWrite\<lparr>hi_destructive := True, hi_openWorld := True\<rparr>"

text \<open>The registered tools with their annotations, in registration order.\<close>

definition NewMCPServer :: "(tool \<times> hints) list" where
  "NewMCPServer =
     [(ToolGetInfo, hintRead), (ToolGetHost, hintRead), (ToolListImages, hintRead), (ToolGetImage, hintRead),
      (ToolListNetworks, hintRead), (ToolGetNetwork, hintRead), (ToolListVMs, hintRead), (ToolGetVM, hintRead),
      (ToolGetVMConsole, hintRead), (ToolGetVMMetrics, hintRead), (ToolGetVMAttestation, hintRead),
      (ToolCreateNetwork, hintWrite), (ToolDeleteNetwork, hintDestructive), (ToolCreateVM, hintWrite),
      (ToolStartVM, hintIdempotent), (ToolStopVM, hintIdempotent), (ToolRebootVM, hintWrite), (ToolDeleteVM, hintDestructive),
      (ToolExecVM, hintExec), (ToolForwardPort, hintWrite)]"

text \<open>What the MCP library answers for the arguments of a call: \<open>RequireString\<close>,
  \<open>RequireInt\<close>, \<open>GetInt\<close> with its default, and \<open>BindArguments\<close> for the three bodies.\<close>

record tool_args =
  ta_string :: "string \<Rightarrow> string option"
  ta_int :: "string \<Rightarrow> int option"
  ta_getInt :: "string \<Rightarrow> int \<Rightarrow> int"
  ta_createNetwork :: "create_network_request option"
  ta_createVM :: "create_vm_request option"
  ta_exec :: "string list option"

datatype ('h, 'm) tool_result = ToolText "('h, 'm) api_value" | ToolError string

definition errResult :: "error \<Rightarrow> ('h, 'm) tool_result" where
  "errResult e = ToolError (snd (rest_statusFor e))"

definition invalidResult :: "('h, 'm) tool_result" where
  "invalidResult = errResult ErrInvalid"

definition tool_outcome :: "('h, 'm) api_value res \<Rightarrow> ('h, 'm) tool_result" where
  "tool_outcome r = (case r of Inl e \<Rightarrow> errResult e | Inr v \<Rightarrow> ToolText v)"

text \<open>A handler whose first step is an argument the library may refuse.\<close>

definition required :: "'a option \<Rightarrow> 's \<Rightarrow> ('a \<Rightarrow> (('h, 'm) tool_result \<times> 's) option) \<Rightarrow> (('h, 'm) tool_result \<times> 's) option" where
  "required arg s k = (case arg of None \<Rightarrow> Some (invalidResult, s) | Some x \<Rightarrow> k x)"

definition tools_vmOp :: "(string \<Rightarrow> 's \<Rightarrow> vm res \<times> 's) \<Rightarrow> tool_args \<Rightarrow> 's \<Rightarrow> (('h, 'm) tool_result \<times> 's) option" where
  "tools_vmOp f a s =
     required (ta_string a ''id'') s (\<lambda>i. Some (apfst (\<lambda>r. tool_outcome (map_sum id (\<lambda>v. AVM (Some v)) r)) (f i s)))"

definition call_tool :: "('s, 'h, 'm) services \<Rightarrow> tool \<Rightarrow> tool_args \<Rightarrow> 's \<Rightarrow> (('h, 'm) tool_result \<times> 's) option" where
  "call_tool d t a s =
     (case t of
        ToolGetInfo \<Rightarrow> read_only s (ToolText (AInfo ToolNames))
      | ToolGetHost \<Rightarrow> read_only s (tool_outcome (map_sum id AHost (op_host d s)))
      | ToolListImages \<Rightarrow> read_only s (ToolText (AImages (op_images d s)))
      | ToolGetImage \<Rightarrow>
          required (ta_string a ''ref'') s (\<lambda>ref. read_only s (tool_outcome (map_sum id AImage (op_image d s ref))))
      | ToolListNetworks \<Rightarrow> read_only s (ToolText (ANetworks (op_networks d s)))
      | ToolGetNetwork \<Rightarrow>
          required (ta_string a ''name'') s (\<lambda>n. read_only s (tool_outcome (map_sum id ANetwork (op_network d s n))))
      | ToolListVMs \<Rightarrow> read_only s (ToolText (AVMs (op_vms d s)))
      | ToolGetVM \<Rightarrow> tools_vmOp (\<lambda>i s. (op_vm d s i, s)) a s
      | ToolGetVMConsole \<Rightarrow>
          required (ta_string a ''id'') s (\<lambda>i. read_only s
            (tool_outcome (map_sum id AConsole (svc_console d i (ta_getInt a ''lines'' DefaultConsoleLines) s))))
      | ToolGetVMMetrics \<Rightarrow>
          required (ta_string a ''id'') s (\<lambda>i. read_only s (tool_outcome (map_sum id AMetrics (svc_metrics d i s))))
      | ToolGetVMAttestation \<Rightarrow>
          required (ta_string a ''id'') s (\<lambda>i. read_only s (tool_outcome (map_sum id AAttestation (op_attestation d s i))))
      | ToolCreateNetwork \<Rightarrow>
          required (ta_createNetwork a) s (\<lambda>body.
            Some (apfst (\<lambda>x. tool_outcome (map_sum id ANetwork x)) (op_createNetwork d (CreateNetworkRequest_spec body) s)))
      | ToolDeleteNetwork \<Rightarrow>
          required (ta_string a ''name'') s (\<lambda>n.
            Some (apfst (\<lambda>x. tool_outcome (map_sum id ADeleted x)) (svc_deleteNetwork d n s)))
      | ToolCreateVM \<Rightarrow>
          required (ta_createVM a) s (\<lambda>body.
            map_option (apfst (\<lambda>x. tool_outcome (map_sum id AVM x))) (svc_createVM d body s))
      | ToolStartVM \<Rightarrow> tools_vmOp (op_start d) a s
      | ToolStopVM \<Rightarrow> tools_vmOp (op_stop d) a s
      | ToolRebootVM \<Rightarrow> tools_vmOp (op_reboot d) a s
      | ToolDeleteVM \<Rightarrow>
          required (ta_string a ''id'') s (\<lambda>i.
            Some (apfst (\<lambda>x. tool_outcome (map_sum id ADeleted x)) (svc_deleteVM d i s)))
      | ToolExecVM \<Rightarrow>
          required (ta_string a ''id'') s (\<lambda>i. required (ta_exec a) s (\<lambda>command.
            Some (apfst (\<lambda>x. tool_outcome (map_sum id AExec x)) (op_exec d i command s))))
      | ToolForwardPort \<Rightarrow>
          required (ta_string a ''id'') s (\<lambda>i. required (ta_int a ''port'') s (\<lambda>port.
            Some (apfst (\<lambda>x. tool_outcome (map_sum id AForward x)) (svc_forward d i port s)))))"

section \<open>The two surfaces agree\<close>

text \<open>The tool a route mirrors; the API description and the raw report have none.\<close>

fun mirrors :: "rest_handler \<Rightarrow> tool option" where
  "mirrors GetHost = Some ToolGetHost"
| "mirrors ListImages = Some ToolListImages"
| "mirrors GetImage = Some ToolGetImage"
| "mirrors HListNetworks = Some ToolListNetworks"
| "mirrors HCreateNetwork = Some ToolCreateNetwork"
| "mirrors HGetNetwork = Some ToolGetNetwork"
| "mirrors HDeleteNetwork = Some ToolDeleteNetwork"
| "mirrors ListVMs = Some ToolListVMs"
| "mirrors CreateVM = Some ToolCreateVM"
| "mirrors GetVM = Some ToolGetVM"
| "mirrors DeleteVM = Some ToolDeleteVM"
| "mirrors StartVM = Some ToolStartVM"
| "mirrors StopVM = Some ToolStopVM"
| "mirrors RebootVM = Some ToolRebootVM"
| "mirrors ExecVM = Some ToolExecVM"
| "mirrors ForwardPort = Some ToolForwardPort"
| "mirrors GetVMConsole = Some ToolGetVMConsole"
| "mirrors GetVMAttestation = Some ToolGetVMAttestation"
| "mirrors GetVMMetrics = Some ToolGetVMMetrics"
| "mirrors GetOpenAPI = None"
| "mirrors GetVMReport = None"
| "mirrors NotFound = None"

text \<open>Request and call carry the same arguments: the wildcard value \<open>i\<close> of the route is
  the tool's string argument, and the decoded bodies are equal, also in being invalid.\<close>

definition same_request :: "api_json \<Rightarrow> rest_request \<Rightarrow> rest_handler \<Rightarrow> string \<Rightarrow> tool_args \<Rightarrow> bool" where
  "same_request js r h i a \<longleftrightarrow>
     (let body = take MaxBodyBytes (hq_body r) in
      case h of
        GetImage \<Rightarrow> ta_string a ''ref'' = Some i
      | HGetNetwork \<Rightarrow> ta_string a ''name'' = Some i
      | HDeleteNetwork \<Rightarrow> ta_string a ''name'' = Some i
      | HCreateNetwork \<Rightarrow> ta_createNetwork a = jv_createNetwork js body
      | CreateVM \<Rightarrow> ta_createVM a = jv_createVM js body
      | ExecVM \<Rightarrow> ta_string a ''id'' = Some i \<and> ta_exec a = jv_exec js body
      | ForwardPort \<Rightarrow> ta_string a ''id'' = Some i \<and> ta_int a ''port'' = jv_forward js body
      | GetVMConsole \<Rightarrow> ta_string a ''id'' = Some i \<and>
          Some (ta_getInt a ''lines'' DefaultConsoleLines) =
            (if rq_lines r = [] then Some DefaultConsoleLines else Atoi (rq_lines r))
      | _ \<Rightarrow> ta_string a ''id'' = Some i)"

text \<open>Response and tool result say the same: the same value, where a deletion is
  answered without a body, or the same error code.\<close>

definition same_answer :: "('h, 'm) rest_response \<Rightarrow> ('h, 'm) tool_result \<Rightarrow> bool" where
  "same_answer resp res \<longleftrightarrow>
     (case res of
        ToolError code \<Rightarrow> 400 \<le> rs_status resp \<and> rs_body resp = AError code
      | ToolText v \<Rightarrow> rs_status resp < 300 \<and>
          (if rs_status resp = StatusNoContent then \<exists>i. v = ADeleted i else rs_body resp = v))"

lemma error_status: "400 \<le> fst (rest_statusFor e)"
  by (cases e) (simp_all add: rest_statusFor_def)

lemma same_error [simp]: "same_answer (rest_writeError e) (errResult e)"
  using error_status [of e]
  by (cases "rest_statusFor e") (simp add: same_answer_def rest_writeError_def errResult_def writeJSON_def)

lemma same_write: "n < 300 \<Longrightarrow> n \<noteq> StatusNoContent \<Longrightarrow> same_answer (writeJSON n v) (ToolText v)"
  by (simp add: same_answer_def writeJSON_def)

lemma same_respond: "n < 300 \<Longrightarrow> n \<noteq> StatusNoContent \<Longrightarrow> same_answer (respond n r) (tool_outcome r)"
  by (cases r) (simp_all add: respond_def tool_outcome_def same_write)

lemma same_deleted: "same_answer (respond StatusNoContent (map_sum id ADeleted r)) (tool_outcome (map_sum id ADeleted r))"
  by (cases r) (auto simp: respond_def tool_outcome_def same_answer_def [of "\<lparr>rs_status = _, rs_header = _, rs_body = _\<rparr>"]
      StatusNoContent_def)

lemma same_ok [simp]: "same_answer (respond 200 r) (tool_outcome r)" "same_answer (respond 201 r) (tool_outcome r)"
  "same_answer (writeJSON 200 v) (ToolText v)"
  by (simp_all add: same_respond same_write StatusNoContent_def)

lemmas surface_defs = rest_handle_def call_tool_def same_request_def read_only_def required_def tools_vmOp_def vmOp_def rest_decode_def
  getVMConsole_def invalidResult_def

definition agree :: "(('h, 'm) rest_response \<times> 's) option \<Rightarrow> (('h, 'm) tool_result \<times> 's) option \<Rightarrow> bool" where
  "agree x y \<longleftrightarrow> rel_option (\<lambda>p q. same_answer (fst p) (fst q) \<and> snd p = snd q) x y"

lemma agree_Some [simp]: "agree (Some (p, s)) (Some (q, s')) \<longleftrightarrow> same_answer p q \<and> s = s'"
  by (simp add: agree_def)

lemma agree_apfst:
  "(\<And>r. same_answer (f r) (g r)) \<Longrightarrow> agree (Some (apfst f p)) (Some (apfst g p))"
  "(\<And>r. same_answer (f r) (g r)) \<Longrightarrow> agree (map_option (apfst f) x) (map_option (apfst g) x)"
  by (cases p; simp) (cases x; auto simp: agree_def)

lemma surfaces_agree_lemma:
  assumes "mirrors h = Some t" "same_request js r h i a"
  shows "agree (rest_handle d js r h i s) (call_tool d t a s)"
  using assms
  by (cases h) (auto simp: surface_defs Let_def same_deleted split: option.splits if_splits intro!: agree_apfst)

section \<open>Reading requests change nothing\<close>

definition reads :: "rest_handler \<Rightarrow> bool" where
  "reads h \<longleftrightarrow> h \<in> {GetOpenAPI, GetHost, ListImages, GetImage, HListNetworks, HGetNetwork, ListVMs, GetVM, GetVMConsole,
     GetVMAttestation, GetVMMetrics, GetVMReport, NotFound}"

lemma reads_pure: "reads h \<Longrightarrow> \<exists>resp. rest_handle d js r h i s = Some (resp, s)"
  by (auto simp: reads_def rest_handle_def read_only_def)

lemma mux_match_method:
  assumes "mux_match rts m p = Some (r, vs)"
  shows "r \<in> set rts \<and> (rt_method r = m \<or> m = MethodHead \<and> rt_method r = MethodGet)"
proof -
  from assms obtain me where "match_with rts me p = Some (r, vs)" "me = m \<or> m = MethodHead \<and> me = MethodGet"
    by (auto simp: mux_match_def split: if_splits option.splits)
  with matchPath_sound [OF this(1) [unfolded match_with_def]] show ?thesis by auto
qed

lemma rest_Register_reads: "r \<in> set rest_Register \<Longrightarrow> rt_method r = MethodGet \<Longrightarrow> reads (rt_handler r)"
  by (auto simp: rest_Register_def reads_def MethodGet_def MethodPost_def MethodDelete_def)

lemma rest_Register_methods: "r \<in> set rest_Register \<Longrightarrow> rt_method r \<in> {MethodGet, MethodPost, MethodDelete}"
  by (auto simp: rest_Register_def)

lemma rest_mux_reads:
  assumes "rest_mux m p = Matched h vs" "m \<noteq> MethodPost" "m \<noteq> MethodDelete"
  shows "reads h"
proof (cases "mux_match rest_Register m (cleanPath p)")
  case None
  then show ?thesis using assms(1) by (auto simp: rest_mux_def Let_def reads_def split: if_splits)
next
  case (Some rv)
  obtain r ws where rv: "rv = (r, ws)" by (cases rv)
  from Some rv mux_match_method [of rest_Register m "cleanPath p" r ws]
  have r: "r \<in> set rest_Register" "rt_method r = m \<or> m = MethodHead \<and> rt_method r = MethodGet" by auto
  with rest_Register_methods [OF r(1)] assms(2,3) have "rt_method r = MethodGet" by auto
  from rest_Register_reads [OF r(1) this] show ?thesis
    using assms(1) Some rv by (auto simp: rest_mux_def Let_def split: if_splits)
qed

lemma rest_serve_reads:
  assumes "hq_method r \<noteq> MethodPost" "hq_method r \<noteq> MethodDelete"
  shows "\<exists>ans. rest_serve d js r s = Some (ans, s)"
proof (cases "rest_mux (hq_method r) (hq_path r)")
  case (Matched h vs)
  with rest_mux_reads [OF Matched assms] reads_pure [of h d js r "pathValue vs" s] show ?thesis
    by (auto simp: rest_serve_def)
qed (simp_all add: rest_serve_def)

lemma read_tools_pure:
  assumes "(t, h) \<in> set NewMCPServer" "hi_readOnly h"
  shows "\<exists>res. call_tool d t a s = Some (res, s)"
  using assms
  by (auto simp: NewMCPServer_def hintWrite_def hintIdempotent_def hintDestructive_def hintExec_def call_tool_def read_only_def
      required_def tools_vmOp_def split: option.splits)

text \<open>The read-only annotation is also complete: the other tools are the ones whose route
  is a POST or DELETE.\<close>

lemma tools_registered: "map (tool_name \<circ> fst) NewMCPServer = ToolNames" "distinct ToolNames"
  by (simp_all add: NewMCPServer_def ToolNames_def)

lemma mirrored_hints:
  assumes "mirrors h = Some t" "(t, hi) \<in> set NewMCPServer"
  shows "hi_readOnly hi \<longleftrightarrow> reads h"
  using assms
  by (cases h) (auto simp: NewMCPServer_def reads_def hintRead_def hintWrite_def hintIdempotent_def hintDestructive_def hintExec_def)

section \<open>The services of the daemon\<close>

text \<open>What the world decides during one call; the host report and the metrics are those
  of packages outside this theory.\<close>

record ('h, 'm) api_io =
  ai_env :: env
  ai_exit :: exit_status
  ai_acquired :: "volume res"
  ai_start :: start_io
  ai_files :: "string \<Rightarrow> file_kind"
  ai_catalog :: catalog
  ai_draws :: "bytes option list"
  ai_machine :: "bytes option"
  ai_mkdir :: bool
  ai_prov :: prov_io
  ai_removed :: bool
  ai_netWrite :: bool
  ai_later :: "vm list"
  ai_ending :: error
  ai_net :: net_ctx
  ai_exec :: exec_io
  ai_listens :: bool
  ai_addr :: string
  ai_console :: "string \<Rightarrow> read_file"
  ai_host :: "'h res"
  ai_metrics :: "string \<Rightarrow> ('m \<times> bool) option"
  ai_defaultNetwork :: string

type_synonym api_state = "service \<times> key_files"

definition on_service :: "(service \<Rightarrow> 'r \<times> service) \<Rightarrow> api_state \<Rightarrow> 'r \<times> api_state" where
  "on_service f st = (case f (fst st) of (r, s) \<Rightarrow> (r, (s, snd st)))"

definition vm_services :: "('h, 'm) api_io \<Rightarrow> (api_state, 'h, 'm) services" where
  "vm_services io =
     \<lparr>op_host = (\<lambda>_. ai_host io),
      op_images = (\<lambda>_. Catalog_List (ai_catalog io)),
      op_image = (\<lambda>_. Catalog_Get (ai_catalog io)),
      op_networks = (\<lambda>st. ListNetworks (fst st)),
      op_network = (\<lambda>st. GetNetwork (fst st)),
      op_vms = (\<lambda>st. Service_List (fst st)),
      op_vm = (\<lambda>st. Service_Get (fst st)),
      op_console = (\<lambda>st. Console (ai_console io) (fst st)),
      op_report = (\<lambda>st. Service_Report (fst st)),
      op_metrics = (\<lambda>_. ai_metrics io),
      op_attestation = (\<lambda>st. Service_Attestation (fst st)),
      op_createNetwork = (\<lambda>sp. on_service (CreateNetwork (ai_net io) sp)),
      op_deleteNetwork = (\<lambda>n. on_service (DeleteNetwork (ai_net io) n)),
      op_create = (\<lambda>sp st. map_option (\<lambda>(r, s). (r, (s, snd st)))
        (Create (ai_env io) (ai_files io) (ai_catalog io) (ai_draws io) (ai_machine io) (ai_mkdir io) (ai_prov io) (ai_start io)
           (ai_removed io) (ai_netWrite io) (ai_later io) (ai_ending io) sp (fst st))),
      op_start = (\<lambda>i. on_service (Start (ai_env io) (ai_acquired io) (ai_start io) i)),
      op_stop = (\<lambda>i. on_service (Stop (ai_env io) (ai_exit io) i)),
      op_reboot = (\<lambda>i. on_service (Reboot (ai_env io) (ai_exit io) (ai_acquired io) (ai_start io) i)),
      op_delete = (\<lambda>i. on_service (Delete (ai_env io) (ai_exit io) (ai_removed io) (ai_netWrite io) i)),
      op_exec = (\<lambda>i cmd st. case Exec (ai_exec io) (fst st) i cmd (snd st) of (r, ks) \<Rightarrow> (r, (fst st, ks))),
      op_forward = (\<lambda>i port. on_service (Forward (ai_listens io) (ai_addr io) i port)),
      op_defaultNetwork = ai_defaultNetwork io\<rparr>"

section \<open>User-data stays inside\<close>

text \<open>A record without user-data, and a value that holds only such records.\<close>

definition stripped :: "vm \<Rightarrow> bool" where
  "stripped v \<longleftrightarrow> vsp_userData (vm_spec' v) = []"

fun hides :: "('h, 'm) api_value \<Rightarrow> bool" where
  "hides (AVM v) \<longleftrightarrow> (case v of None \<Rightarrow> True | Some v \<Rightarrow> stripped v)"
| "hides (AVMs vs) \<longleftrightarrow> list_all stripped vs"
| "hides _ \<longleftrightarrow> True"

definition ok_res :: "('a \<Rightarrow> bool) \<Rightarrow> 'a res \<Rightarrow> bool" where
  "ok_res P r \<longleftrightarrow> (case r of Inl _ \<Rightarrow> True | Inr x \<Rightarrow> P x)"

lemma ok_res_simps [simp]: "ok_res P (Inl e)" "ok_res P (Inr x) \<longleftrightarrow> P x" "ok_res P (map_sum id f r) \<longleftrightarrow> ok_res (P \<circ> f) r"
  by (simp_all add: ok_res_def split: sum.splits)

lemma clone_stripped [simp]: "stripped (clone v)"
  by (simp add: stripped_def clone_def)

lemma Service_Get_stripped: "ok_res stripped (Service_Get s i)"
  by (auto simp: Service_Get_def ok_res_def bindE_def split: sum.splits option.splits)

lemma Service_List_stripped: "list_all stripped (Service_List s)"
proof -
  have "set (insertion_sort vm_before vs) = set vs" for vs
    using insertion_sort_sorts by (metis mset_eq_setD sorts_def)
  then show ?thesis by (auto simp: Service_List_def list_all_iff)
qed

lemma Start_stripped: "ok_res stripped (fst (Start v acq io i s))"
  by (auto simp: Start_def split: sum.splits option.splits prod.splits)

lemma snapshot_stripped: "ok_res stripped (snapshot a s)"
  by (simp add: snapshot_def split: option.splits)

lemma Stop_stripped: "ok_res stripped (fst (Stop v ex i s))"
  by (auto simp: Stop_def Let_def snapshot_stripped split: sum.splits option.splits prod.splits)

lemma Reboot_stripped: "ok_res stripped (fst (Reboot v ex acq io i s))"
  by (auto simp: Reboot_def Start_stripped split: sum.splits prod.splits)

lemma waitFor_stripped:
  assumes "stripped v" "list_all stripped rest"
  shows "stripped (fst (waitFor w v rest ending))"
proof -
  have "stripped (fst (waitFor_loop w v rest ending))" using assms
    by (induction w v rest ending rule: waitFor_loop.induct)
      (subst waitFor_loop.simps, auto split: bool.splits list.splits prod.splits)
  with assms(1) show ?thesis by (simp add: waitFor_def)
qed

lemma Create_stripped:
  assumes "Create v fs cat draws machine mkdir pio sio removed netWrite later ending sp s = Some ((Some r, er), s')"
    and "list_all stripped later"
  shows "stripped r"
proof -
  from assms(1) obtain a s2 r0 w where r0: "snapshot a s2 = Inr r0" and w: "waitFor w r0 later ending = (r, er)"
    by (auto simp: Create_def Let_def split: option.splits sum.splits prod.splits)
  from r0 snapshot_stripped [of a s2] have "stripped r0" by simp
  from waitFor_stripped [OF this assms(2), of w ending] w show ?thesis by simp
qed

lemma respond_hides: "ok_res hides r \<Longrightarrow> hides (rs_body (respond n r))"
  by (cases r) (auto simp: respond_def rest_writeError_def writeJSON_def split: prod.splits)

lemma error_hides [simp]: "hides (rs_body (rest_writeError e))"
  by (simp add: rest_writeError_def writeJSON_def split: prod.splits)

lemma comp_hides [simp]:
  "hides \<circ> AHost = (\<lambda>_. True)" "hides \<circ> AImage = (\<lambda>_. True)" "hides \<circ> ANetwork = (\<lambda>_. True)" "hides \<circ> ADeleted = (\<lambda>_. True)"
  "hides \<circ> AExec = (\<lambda>_. True)" "hides \<circ> AForward = (\<lambda>_. True)" "hides \<circ> AConsole = (\<lambda>_. True)"
  "hides \<circ> AAttestation = (\<lambda>_. True)" "hides \<circ> AMetrics = (\<lambda>_. True)" "hides \<circ> (\<lambda>v. AVM (Some v)) = stripped"
  by (auto simp: fun_eq_iff)

lemma ok_res_True [simp]: "ok_res (\<lambda>_. True) r"
  by (simp add: ok_res_def split: sum.splits)

lemma on_service_fst: "fst (on_service f st) = fst (f (fst st))"
  by (simp add: on_service_def split: prod.splits)

lemma createVM_stripped:
  assumes "svc_createVM (vm_services io) req st = Some (r, st')" "list_all stripped (ai_later io)"
  shows "ok_res (hides \<circ> AVM) r"
proof (cases r)
  case (Inr v)
  with assms(1) have "\<exists>s'. Create (ai_env io) (ai_files io) (ai_catalog io) (ai_draws io) (ai_machine io) (ai_mkdir io) (ai_prov io)
      (ai_start io) (ai_removed io) (ai_netWrite io) (ai_later io) (ai_ending io)
      (CreateVMRequest_spec (defaultNetwork (vm_services io)) req) (fst st) = Some ((v, None), s')"
    by (auto simp: svc_createVM_def vm_services_def split: option.splits prod.splits)
  with Create_stripped [OF _ assms(2)] Inr show ?thesis by (cases v) auto
qed simp

lemma rest_handle_hides:
  assumes "list_all stripped (ai_later io)" "rest_handle (vm_services io) js r h i st = Some (resp, st')"
  shows "hides (rs_body resp)"
proof (cases h)
  case CreateVM
  with assms(2) show ?thesis
    by (auto simp: rest_handle_def dest: createVM_stripped [OF _ assms(1)] intro!: respond_hides split: sum.splits)
next
  case ListVMs
  with assms(2) show ?thesis by (auto simp: rest_handle_def read_only_def writeJSON_def vm_services_def Service_List_stripped)
next
  case GetVM
  with assms(2) show ?thesis
    by (auto simp: rest_handle_def read_only_def vm_services_def intro!: respond_hides Service_Get_stripped)
next
  case StartVM
  with assms(2) Start_stripped [of "ai_env io" "ai_acquired io" "ai_start io" i "fst st"] show ?thesis
    by (auto simp: rest_handle_def vmOp_def vm_services_def on_service_def split: prod.splits intro!: respond_hides)
next
  case StopVM
  with assms(2) Stop_stripped [of "ai_env io" "ai_exit io" i "fst st"] show ?thesis
    by (auto simp: rest_handle_def vmOp_def vm_services_def on_service_def split: prod.splits intro!: respond_hides)
next
  case RebootVM
  with assms(2) Reboot_stripped [of "ai_env io" "ai_exit io" "ai_acquired io" "ai_start io" i "fst st"] show ?thesis
    by (auto simp: rest_handle_def vmOp_def vm_services_def on_service_def split: prod.splits intro!: respond_hides)
qed (use assms(2) in \<open>auto simp: rest_handle_def read_only_def writeJSON_def getVMReport_def getVMConsole_def apfst_def map_prod_def
  split: sum.splits prod.splits option.splits if_splits intro!: respond_hides\<close>)

fun tool_hides :: "('h, 'm) tool_result \<Rightarrow> bool" where
  "tool_hides (ToolText v) \<longleftrightarrow> hides v"
| "tool_hides (ToolError _) \<longleftrightarrow> True"

lemma tool_outcome_hides: "ok_res hides r \<Longrightarrow> tool_hides (tool_outcome r)"
  by (cases r) (simp_all add: tool_outcome_def errResult_def)

lemma required_hides:
  assumes "required arg s k = Some (res, s')" "\<And>x. arg = Some x \<Longrightarrow> k x = Some (res, s') \<Longrightarrow> tool_hides res"
  shows "tool_hides res"
  using assms by (auto simp: required_def invalidResult_def errResult_def split: option.splits)

lemma vmOp_hides:
  assumes "tools_vmOp f a s = Some (res, s')" "\<And>i. ok_res stripped (fst (f i s))"
  shows "tool_hides res"
  using assms(1) unfolding tools_vmOp_def
proof (rule required_hides)
  fix i
  assume "Some (apfst (\<lambda>r. tool_outcome (map_sum id (\<lambda>v. AVM (Some v)) r)) (f i s)) = Some (res, s')"
  with assms(2) [of i] show "tool_hides res"
    by (cases "f i s") (auto intro!: tool_outcome_hides)
qed

lemma call_tool_hides:
  assumes "list_all stripped (ai_later io)" "call_tool (vm_services io) t a st = Some (res, st')"
  shows "tool_hides res"
proof (cases t)
  case ToolCreateVM
  have hides: "tool_hides res" if "map_option (apfst (\<lambda>x. tool_outcome (map_sum id AVM x))) (svc_createVM (vm_services io) body st) = Some (res, st')"
    for body
  proof -
    from that obtain r s' where r: "svc_createVM (vm_services io) body st = Some (r, s')" "res = tool_outcome (map_sum id AVM r)" by auto
    show ?thesis unfolding r(2) using createVM_stripped [OF r(1) assms(1)] by (intro tool_outcome_hides) simp
  qed
  from ToolCreateVM assms(2) have "required (ta_createVM a) st
      (\<lambda>body. map_option (apfst (\<lambda>x. tool_outcome (map_sum id AVM x))) (svc_createVM (vm_services io) body st)) = Some (res, st')"
    by (simp add: call_tool_def)
  then show ?thesis by (rule required_hides) (rule hides)
next
  case ToolListVMs
  with assms(2) show ?thesis by (auto simp: call_tool_def read_only_def vm_services_def Service_List_stripped)
next
  case ToolGetVM
  with assms(2) show ?thesis
    by (auto simp: call_tool_def vm_services_def Service_Get_stripped elim!: vmOp_hides)
next
  case ToolStartVM
  with assms(2) show ?thesis by (auto simp: call_tool_def vm_services_def on_service_fst Start_stripped elim!: vmOp_hides)
next
  case ToolStopVM
  with assms(2) show ?thesis by (auto simp: call_tool_def vm_services_def on_service_fst Stop_stripped elim!: vmOp_hides)
next
  case ToolRebootVM
  with assms(2) show ?thesis by (auto simp: call_tool_def vm_services_def on_service_fst Reboot_stripped elim!: vmOp_hides)
qed (use assms(2) in \<open>auto simp: call_tool_def read_only_def apfst_def map_prod_def split: prod.splits
  elim!: required_hides intro!: tool_outcome_hides\<close>)

lemma rest_serve_hides:
  assumes "list_all stripped (ai_later io)" "rest_serve (vm_services io) js r st = Some (Response resp, st')"
  shows "hides (rs_body resp)"
proof (cases "rest_mux (hq_method r) (hq_path r)")
  case (Matched h vs)
  with assms(2) have "rest_handle (vm_services io) js r h (pathValue vs) st = Some (resp, st')"
    by (auto simp: rest_serve_def)
  with assms(1) show ?thesis by (rule rest_handle_hides)
qed (use assms(2) in \<open>auto simp: rest_serve_def\<close>)

section \<open>A concrete request\<close>

definition demo_api_json :: api_json where
  "demo_api_json = \<lparr>jv_createNetwork = (\<lambda>_. None), jv_createVM = (\<lambda>_. None), jv_exec = (\<lambda>_. None),
     jv_forward = (\<lambda>_. None), jv_valid = (\<lambda>_. False)\<rparr>"

definition demo_rest :: "string \<Rightarrow> string \<Rightarrow> rest_request" where
  "demo_rest m p = \<lparr>hq_method = m, hq_path = p, hq_remoteAddr = [], hq_body = [], rq_lines = []\<rparr>"

definition demo_args :: tool_args where
  "demo_args = \<lparr>ta_string = (\<lambda>_. Some ''vm-1''), ta_int = (\<lambda>_. None), ta_getInt = (\<lambda>_ n. n), ta_createNetwork = None,
     ta_createVM = None, ta_exec = None\<rparr>"

text \<open>Services that hold the number of stops.\<close>

definition demo_vms :: "(nat, unit, unit) services" where
  "demo_vms =
     \<lparr>op_host = (\<lambda>_. Inr ()), op_images = (\<lambda>_. []), op_image = (\<lambda>_ _. Inl ErrNotFound), op_networks = (\<lambda>_. []),
      op_network = (\<lambda>_ _. Inl ErrNotFound), op_vms = (\<lambda>_. []), op_vm = (\<lambda>_ _. Inl ErrNotFound),
      op_console = (\<lambda>_ _ _. Inl ErrNotFound), op_report = (\<lambda>_ _. Inl ErrNotFound), op_metrics = (\<lambda>_ _. None),
      op_attestation = (\<lambda>_ _. Inl ErrNotFound), op_createNetwork = (\<lambda>_ s. (Inl ErrConflict, s)),
      op_deleteNetwork = (\<lambda>_ s. (Inl ErrNotFound, s)), op_create = (\<lambda>_ s. Some ((None, Some ErrInvalid), s)),
      op_start = (\<lambda>_ s. (Inl ErrConflict, s)), op_stop = (\<lambda>_ s. (Inl ErrNotFound, Suc s)), op_reboot = (\<lambda>_ s. (Inl ErrNotFound, s)),
      op_delete = (\<lambda>_ s. (Inl ErrNotFound, s)), op_exec = (\<lambda>_ _ s. (Inl ErrNotFound, s)),
      op_forward = (\<lambda>_ _ s. (Inl ErrNotFound, s)), op_defaultNetwork = []\<rparr>"

lemma demo_route: "rest_mux ''POST'' ''/api/v1/vms/vm-1/stop'' = Matched StopVM [''vm-1'']"
  by code_simp

lemma demo_get_route: "rest_mux ''GET'' ''/api/v1/vms/00000000'' = Matched GetVM [''00000000'']"
  by code_simp

definition demo_api :: "(unit, unit) api_io" where
  "demo_api =
     \<lparr>ai_env = demo_env, ai_exit = demo_exit, ai_acquired = pv_volume demo_pio, ai_start = demo_sio, ai_files = (\<lambda>_. NoFile),
      ai_catalog = demo_images, ai_draws = [], ai_machine = None, ai_mkdir = True, ai_prov = demo_pio, ai_removed = True,
      ai_netWrite = True, ai_later = [], ai_ending = ErrTimeout,
      ai_net = \<lparr>nc_ctx = None, nc_io = \<lparr>io_mkdir = True, io_vn = True, io_remove = True, io_listen = True, io_lnClose = True,
        io_removeAll = True\<rparr>, nc_listen = Inr (), nc_deleteCtx = None,
        nc_delete = \<lparr>io_mkdir = True, io_vn = True, io_remove = True, io_listen = True, io_lnClose = True, io_removeAll = True\<rparr>,
        nc_write = True\<rparr>,
      ai_exec = demo_exec, ai_listens = True, ai_addr = [], ai_console = (\<lambda>_. FileMissing), ai_host = Inr (),
      ai_metrics = (\<lambda>_. None), ai_defaultNetwork = []\<rparr>"

section \<open>Properties\<close>



text \<open>
  C19. The REST routes and the MCP tools do the same: on a route that mirrors a tool, a
  request and a call with the same arguments, also invalid ones, leave the services in
  the same state and give the same value or the same error code, and the status of the
  response says which.
\<close>

theorem surfaces_agree:
  assumes "mirrors h = Some t" "same_request js r h i a"
  shows "rel_option (\<lambda>p q. same_answer (fst p) (fst q) \<and> snd p = snd q) (rest_handle d js r h i s) (call_tool d t a s)"
  using surfaces_agree_lemma [OF assms, of d s] by (simp add: agree_def)

theorem surfaces_agree_witness:
  "rest_mux ''POST'' ''/api/v1/vms/vm-1/stop'' = Matched StopVM [''vm-1''] \<and>
   rel_option (\<lambda>p q. same_answer (fst p) (fst q) \<and> snd p = snd q)
     (rest_handle demo_vms demo_api_json (demo_rest ''POST'' ''/api/v1/vms/vm-1/stop'') StopVM ''vm-1'' 4)
     (call_tool demo_vms ToolStopVM demo_args 4) \<and>
   call_tool demo_vms ToolStopVM demo_args 4 = Some (ToolError ''not_found'', 5)"
proof -
  have sr: "same_request demo_api_json (demo_rest ''POST'' ''/api/v1/vms/vm-1/stop'') StopVM ''vm-1'' demo_args"
    by (simp add: same_request_def demo_args_def)
  have ct: "call_tool demo_vms ToolStopVM demo_args 4 = Some (ToolError ''not_found'', 5)"
    by (simp add: call_tool_def tools_vmOp_def required_def demo_args_def demo_vms_def tool_outcome_def errResult_def rest_statusFor_def)
  have "mirrors StopVM = Some ToolStopVM" by simp
  from surfaces_agree [OF this sr, of demo_vms 4] ct demo_route show ?thesis by simp
qed

text \<open>
  C20. Reading changes nothing: a REST request whose method is neither POST nor DELETE is
  answered without a change of the services, whatever its path, and so is a call of a
  tool that is annotated as read-only.
\<close>

theorem api_reads_pure:
  assumes "hq_method r \<noteq> MethodPost" "hq_method r \<noteq> MethodDelete" "(t, h) \<in> set NewMCPServer" "hi_readOnly h"
  shows "(\<exists>ans. rest_serve d js r s = Some (ans, s)) \<and> (\<exists>res. call_tool d t a s = Some (res, s))"
  by (rule conjI [OF rest_serve_reads [OF assms(1,2)] read_tools_pure [OF assms(3,4)]])

theorem api_reads_pure_witness:
  "(\<exists>ans. rest_serve demo_vms demo_api_json (demo_rest ''HEAD'' ''/api/v1/vms'') 4 = Some (ans, 4)) \<and>
   (\<exists>res. call_tool demo_vms ToolListVMs demo_args 4 = Some (res, 4))"
  using api_reads_pure [of "demo_rest ''HEAD'' ''/api/v1/vms''" ToolListVMs hintRead]
  by (simp add: demo_rest_def MethodPost_def MethodDelete_def NewMCPServer_def hintRead_def)

end
