(* ===== verification/Spec2Isabelle.thy ===== *)
theory Spec2Isabelle
  imports VM_IMDS VM_Exec QEMU_QMP QEMU_Runtime Storage Api
begin

text \<open>
  A verification development of vm-manager (\<open>src/\<close>), a daemon that runs virtual machines
  with QEMU on a KVM host, attests them with a virtual TPM and serves them an instance
  metadata service (IMDS).

  \<^bold>\<open>The program.\<close>  The VM service (\<open>internal/vm\<close>) keeps a record per VM and drives it through
  creation, the installer boot, the installed boot, stops, restarts and deletion.  It
  acquires a disk (\<open>internal/storage\<close>), attaches the VM to a network and leases it an
  address (\<open>internal/network\<close>), starts QEMU (\<open>internal/runtime/qemu\<close>, through
  \<open>internal/runtime/proc\<close>) with an image of the catalog (\<open>internal/images\<close>), and listens for
  the guest's notifications.  A guest asks the IMDS (\<open>internal/imds\<close>) for its user-data; the
  handler finds the VM by the address of the caller.  When the VM requires attestation, the
  user-data is released only after the verifier (\<open>internal/attest\<close>) has accepted a TPM quote
  (\<open>internal/tpmquote\<close>) over a fresh nonce (\<open>internal/nonce\<close>).  Operators use REST and MCP
  (\<open>internal/api\<close>).

  \<^bold>\<open>How code is represented.\<close>  A struct is a record and an enum a datatype with the source's
  constructors.  A Go map is an association list (\<open>gomap\<close>), \<open>[]byte\<close> a list of \<open>8 word\<close>, a
  string a HOL string of bytes.  A fallible function returns \<open>error + 'a\<close>, an error being the
  sentinel it wraps.  Stateful code passes its state.  The VM service has an explicit store of
  entries by address, and its operations are cut at the points where the code drops its lock:
  the sections interleave freely in the step relation \<open>svc_step\<close>.  What the operating system, the
  clock, the random source, JSON codecs, the TPM library and other third-party code answer
  are arguments, so every statement holds for all their answers; where a result needs a
  documented law of them it is a named hypothesis with a witness.

  \<^bold>\<open>Theories\<close>, in the order of their imports.
  \<^item> \<open>VMM_Prelude\<close>: results, maps, time, hexadecimal text, reachability; \<open>Go_Strings\<close>,
    \<open>Go_Netip\<close>, \<open>Go_Http\<close>: the parts of Go's library the code uses (strings, paths, addresses,
    the routing of \<open>ServeMux\<close>), with their round trips.  \<open>Api_Err\<close>: \<open>internal/apierr\<close>.
  \<^item> \<open>Nonce\<close>: \<open>internal/nonce\<close>.  Its store is bounded, and a nonce is accepted once, for the VM
    it was issued to and while it is fresh.  The locale \<open>freshness\<close> states what a verifier relies
    on and is interpreted on the store.
  \<^item> \<open>TPM_Quote\<close>, \<open>IMDS_Types\<close>, \<open>Attest\<close>: \<open>internal/tpmquote\<close>, \<open>internal/imds/imds.go\<close>,
    \<open>internal/attest\<close>.  A quote is verified exactly when it passes every check of the policy, is
    never accepted twice, and a ready quote needs the key enrolled from the initrd.  The locale
    \<open>attestor\<close> is interpreted on the verifier and on the no-op attestor.
  \<^item> \<open>Net_Addr\<close>, \<open>Network\<close>: \<open>internal/network\<close>.  Leases stay inside the pool and distinct; the
    enumeration of a pool is the set it describes.  The locale \<open>lease_table\<close> is interpreted on
    the network.
  \<^item> \<open>QEMU_Spec\<close>, \<open>QEMU_Notify\<close>, \<open>QEMU_QMP\<close>, \<open>Proc\<close>, \<open>QEMU_Runtime\<close>: \<open>internal/runtime\<close>.  No field of a
    spec can add a QEMU option; credentials come back as they were sent; a notification
    reaches only the VM whose context id sent it; each QMP command gets its own reply; a failed
    start leaves no process, unit or connection behind.
  \<^item> \<open>Images\<close>: \<open>internal/images\<close>, with the cycle of its version comparison.
  \<^item> \<open>VM_Types\<close>, \<open>VM_Service\<close>: the records and all sections of \<open>internal/vm\<close>; \<open>VM_Lifecycle\<close>: their
    interleaving; \<open>VM_Steps\<close>: what a step touches and the machine of one VM; \<open>VM_Invariants\<close>,
    \<open>VM_Safety\<close>, \<open>VM_Ids\<close>, \<open>VM_Leases\<close>: invariants and properties of all runs; \<open>VM_Handlers\<close>: \<open>Create\<close>,
    \<open>Stop\<close>, \<open>Reboot\<close> and \<open>Delete\<close> from call to return; \<open>VM_Restart\<close>: reloading after a restart;
    \<open>VM_Exec\<close>: \<open>exec.go\<close>; \<open>VM_Demo\<close>: the run the witnesses use.
  \<^item> \<open>IMDS_Handler\<close>: the keys, routes and handlers of \<open>internal/imds\<close>; \<open>VM_IMDS\<close>: the system of VM
    service, verifier and handler, with verdicts that are computed but not yet recorded.
  \<^item> \<open>Varlink\<close>: \<open>internal/varlink\<close>.  Every reply of a stream arrives with its own descriptors, and
    no received descriptor is lost.  \<open>Storage\<close>: \<open>internal/storage\<close>.  Acquiring a volume leaks no
    descriptor and never changes an existing file; volumes round-trip.
  \<^item> \<open>Api\<close>: \<open>internal/api\<close>.  REST and MCP do the same, reading changes nothing, and user-data never
    leaves through them.
  \<^item> This theory holds what spans the VM service, the verifier and the metadata handler.

  \<^bold>\<open>Loops and bounds.\<close>  Loops are total recursive functions; the scans for a free context id and
  over an address pool end because their range shrinks, and the loops over a Varlink connection
  because every message takes bytes from what is left to read.  A loop the code itself does not
  bound has an option result: drawing VM ids until one is unused (the draws are a list, \<open>None\<close>
  when it is used up) and waiting for a message that never comes.  Words are used where width
  matters: IPv4 addresses and context ids (32 bits), QMP command ids (64 bits), bytes.  Elsewhere
  Go's \<open>int\<close> is an integer, where values are bounded by validation.

  \<^bold>\<open>Not modelled.\<close>  The guest agent, the vTPM supervisor (its outcome is an argument), host
  probing, metrics, image building, HTTP middleware with OAuth, and the command line: they
  observe the service, wire it up, or only call libraries and the operating system.  The texts of
  errors and logs, tool descriptions, the contents of network frames, and goroutines that only
  copy bytes or close channels are left out.  Cancellation of a context is one of the outcomes
  of the calls it reaches.
\<close>

section \<open>The metadata service end to end\<close>



text \<open>
  C2. A request to the metadata service makes only steps of the system the development
  describes, and they all concern the VM that has the caller's address: whatever is
  sent, no other VM's record, nonces or reports change.
\<close>

theorem imds_request_isolated:
  assumes "sys_run c learn es y" "imds_Handler (IMDSDeps c io) js r y = (ans, y')"
  shows "\<exists>new. sys_run c learn (new @ es) y' \<and>
    (new = [] \<or> (\<exists>inst. imds_resolve (IMDSDeps c io) r y = Some inst \<and> list_all (acts_on (in_id inst)) new))"
  using assms by (rule handler_steps)

theorem imds_request_isolated_witness:
  "\<exists>y ans y' new. sys_run demo_cfg False demo_sys_events y \<and>
     imds_Handler (IMDSDeps demo_cfg demo_io) demo_json demo_get y = (ans, y') \<and>
     sys_run demo_cfg False (new @ demo_sys_events) y'"
proof -
  obtain y where y: "sys_run demo_cfg False demo_sys_events y" by (rule demo_sys)
  obtain ans y' where h: "imds_Handler (IMDSDeps demo_cfg demo_io) demo_json demo_get y = (ans, y')" by fastforce
  from imds_request_isolated [OF y h] y h show ?thesis by blast
qed

end
